(* ===== verification/Prelude.thy ===== *)
theory Prelude
  imports Main "HOL-Library.Word" "HOL-Library.Signed_Division"
begin

text \<open>
  Shared vocabulary of the development: the C integer types as words, the ways a run of the
  simulator can end early (an \<open>exit(1)\<close> of the source, or an operation that C leaves undefined),
  byte buffers and their little-endian reading, and the generic lemmas on words, lists and
  results that the component theories use.
\<close>

unbundle bit_operations_syntax

section \<open>C integer types\<close>

type_synonym u8 = "8 word"
type_synonym u16 = "16 word"
type_synonym u32 = "32 word"
type_synonym u64 = "64 word"

section \<open>Faults\<close>

text \<open>
  A C function that can end the process, or whose behaviour C leaves undefined for some inputs,
  returns a \<open>result\<close>: \<open>Inl\<close> a fault or \<open>Inr\<close> its value. The first group of constructors is the
  \<open>exit(1)\<close> calls of the source; the second group, from \<open>OutOfBounds\<close> on, is undefined behaviour
  that the code does not guard against; \<open>Diverges\<close> is a loop that never ends. Behaviour that ISO C
  leaves to the implementation follows the documented choice of gcc, which the Makefile names:
  conversions to a signed type wrap, \<open>>>\<close> on a negative value is arithmetic, \<open><<\<close> on a signed
  value shifts its bits.
\<close>

datatype fault =
    MisalignedCacheAccess
  | IllegalCacheAccessSize
  | SuperpageIndexMismatch
  | OutOfMemory
  | BadMemorySize
  | UsageExit
  | OutOfBounds
  | NullPointer
  | BadConversion
  | ShiftOutOfRange
  | SignedOverflow
  | DivisionByZero
  | Diverges

type_synonym 'a result = "fault + 'a"

definition ok :: "'a result \<Rightarrow> bool" where
  "ok r \<longleftrightarrow> (case r of Inl _ \<Rightarrow> False | Inr _ \<Rightarrow> True)"

lemma ok_simps [simp]: "\<not> ok (Inl e)" "ok (Inr x)"
  by (simp_all add: ok_def)

lemma ok_iff: "ok r \<longleftrightarrow> (\<exists>x. r = Inr x)"
  by (cases r) auto

lemma map_sum_eq_Inr [simp]: "map_sum id g r = Inr y \<longleftrightarrow> (\<exists>x. r = Inr x \<and> y = g x)"
  by (cases r) auto

named_theorems buf_simps \<open>byte buffers and little-endian words\<close>
named_theorems fw_defs \<open>definitions of the framework's constants and small accessors\<close>
named_theorems port_simps \<open>how the memory port answers\<close>

section \<open>Words\<close>

lemma or_and_absorb_right [simp]: "(x OR y) AND y = (y :: 'a::len word)"
  by (rule bit_word_eqI) (auto simp: bit_simps)

text \<open>The bits of a run of ones, for reading masks in the source.\<close>

lemma bit_push_mask: "bit (push_bit k (mask m) :: int) n \<longleftrightarrow> k \<le> n \<and> n < k + m"
  by (auto simp: bit_push_bit_iff bit_mask_iff)

lemma unat_u64_less [simp]: "unat (w :: u64) < 18446744073709551616"
  using unsigned_less [of w, where 'a = nat] by simp

lemma unat_ucast_up:
  "LENGTH('a) \<le> LENGTH('b) \<Longrightarrow> unat (ucast (w :: 'a::len word) :: 'b::len word) = unat w"
  by (simp add: unsigned_ucast_eq take_bit_nat_eq_self_iff)
    (rule order_less_le_trans [OF unsigned_less power_increasing], simp_all)

lemma ucast_add_u32: "(ucast (a + b :: u64) :: u32) = ucast a + ucast b"
  by (simp add: word_uint_eq_iff uint_word_ariths unsigned_ucast_eq take_bit_eq_mod mod_simps
      mod_mod_cancel)

lemma unat_ucast_u32_u64 [simp]: "unat (ucast (w :: u32) :: u64) = unat w"
  by (simp add: unat_ucast_up)

lemma ucast_u32_u64_less: "(ucast (w :: u32) :: u64) < 4294967296"
  using unsigned_less [of w, where 'a = nat] by (simp add: word_less_nat_alt)

section \<open>Byte buffers\<close>

text \<open>
  An object that the code also reads or writes as raw bytes (through \<open>void *\<close>, \<open>memcpy\<close> or
  \<open>memset\<close>) is its byte list. \<open>buf_put\<close> overwrites a prefix, as \<open>memcpy\<close> into the start of the
  object does; \<open>buf_splice\<close> overwrites from a byte offset. Writing past the end of the object is
  \<open>OutOfBounds\<close>.
\<close>

definition buf_splice :: "u8 list \<Rightarrow> nat \<Rightarrow> u8 list \<Rightarrow> u8 list result" where
  "buf_splice buf off bs =
     (if off + length bs \<le> length buf
      then Inr (take off buf @ bs @ drop (off + length bs) buf)
      else Inl OutOfBounds)"

definition buf_put :: "u8 list \<Rightarrow> u8 list \<Rightarrow> u8 list result" where
  "buf_put buf bs = buf_splice buf 0 bs"

lemma buf_splice_ok [buf_simps]:
  "off + length bs \<le> length buf \<Longrightarrow>
   buf_splice buf off bs = Inr (take off buf @ bs @ drop (off + length bs) buf)"
  by (simp add: buf_splice_def)

lemma buf_put_ok [buf_simps]:
  "length bs \<le> length buf \<Longrightarrow> buf_put buf bs = Inr (bs @ drop (length bs) buf)"
  by (simp add: buf_put_def buf_splice_def)

lemma buf_put_length: "buf_put buf bs = Inr buf' \<Longrightarrow> length buf' = length buf"
  by (auto simp: buf_put_def buf_splice_def split: if_splits)

lemma buf_splice_length: "buf_splice buf off bs = Inr buf' \<Longrightarrow> length buf' = length buf"
  by (auto simp: buf_splice_def split: if_splits)

text \<open>The object representation of an integer on the little-endian host, and back.\<close>

definition le_bytes :: "nat \<Rightarrow> 'a::len word \<Rightarrow> u8 list" where
  "le_bytes n w = map (\<lambda>i. ucast (drop_bit (8 * i) w)) [0..<n]"

primrec le_word :: "u8 list \<Rightarrow> 'a::len word" where
  "le_word [] = 0"
| "le_word (b # bs) = ucast b OR push_bit 8 (le_word bs)"

lemma length_le_bytes [simp]: "length (le_bytes n w) = n"
  by (simp add: le_bytes_def)

lemma nth_le_bytes [simp]: "i < n \<Longrightarrow> le_bytes n w ! i = ucast (drop_bit (8 * i) w)"
  by (simp add: le_bytes_def)

lemma bit_le_word:
  "bit (le_word bs :: 'a::len word) n \<longleftrightarrow>
     n < LENGTH('a) \<and> n div 8 < length bs \<and> bit (bs ! (n div 8)) (n mod 8)"
proof (induction bs arbitrary: n)
  case Nil
  then show ?case by simp
next
  case (Cons b bs)
  show ?case
  proof (cases "n < 8")
    case True
    then show ?thesis
      by (simp add: bit_or_iff bit_push_bit_iff bit_ucast_iff)
  next
    case False
    then have split: "n div 8 = Suc ((n - 8) div 8)" "n mod 8 = (n - 8) mod 8"
      by (auto simp: le_div_geq le_mod_geq not_less)
    from False have "\<not> bit b n"
      using bit_imp_le_length [of b n] by auto
    with False Cons.IH [of "n - 8"] show ?thesis
      by (auto simp: bit_or_iff bit_push_bit_iff bit_ucast_iff split)
  qed
qed

lemma le_word_le_bytes [simp]:
  "le_word (le_bytes n (w :: 'a::len word)) = take_bit (8 * n) w"
proof (rule bit_word_eqI)
  fix m
  assume m: "m < LENGTH('a)"
  have "m div 8 < n \<longleftrightarrow> m < 8 * n"
    by auto
  moreover have "8 * (m div 8) + m mod 8 = m"
    by simp
  ultimately show "bit (le_word (le_bytes n w) :: 'a word) m = bit (take_bit (8 * n) w) m"
    using m by (auto simp: bit_le_word bit_ucast_iff bit_drop_bit_eq bit_take_bit_iff)
qed

lemma le_bytes_le_word:
  assumes "length bs = n" and "8 * n \<le> LENGTH('a::len)"
  shows "le_bytes n (le_word bs :: 'a word) = bs"
proof (rule nth_equalityI)
  show "length (le_bytes n (le_word bs :: 'a word)) = length bs"
    using assms by simp
next
  fix i
  assume "i < length (le_bytes n (le_word bs :: 'a word))"
  then have i: "i < n" by simp
  show "le_bytes n (le_word bs :: 'a word) ! i = bs ! i"
  proof (rule bit_word_eqI)
    fix k
    assume "k < LENGTH(8)"
    then have k: "k < 8" by simp
    with i have "(8 * i + k) div 8 = i" "(8 * i + k) mod 8 = k"
      by auto
    with i k assms show "bit (le_bytes n (le_word bs :: 'a word) ! i) k = bit (bs ! i) k"
      by (auto simp: bit_ucast_iff bit_drop_bit_eq bit_le_word)
  qed
qed

lemma le_bytes_ucast:
  "8 * n \<le> LENGTH('a::len) \<Longrightarrow> 8 * n \<le> LENGTH('b::len) \<Longrightarrow>
   le_bytes n (ucast (w :: 'a word) :: 'b word) = le_bytes n w"
  by (auto intro!: nth_equalityI bit_word_eqI simp: bit_ucast_iff bit_drop_bit_eq)

lemma le_bytes_take: "m \<le> n \<Longrightarrow> le_bytes m w = take m (le_bytes n w)"
  by (simp add: le_bytes_def take_map take_upt)

lemma le_word_append:
  "(le_word (xs @ ys) :: 'a::len word) = le_word xs OR push_bit (8 * length xs) (le_word ys)"
proof (induction xs)
  case (Cons x xs)
  have "push_bit 8 (le_word xs OR push_bit (8 * length xs) (le_word ys)) =
      push_bit 8 (le_word xs) OR push_bit (8 + 8 * length xs) (le_word ys :: 'a word)"
    by (simp add: push_bit_or push_bit_push_bit)
  with Cons show ?case by (simp add: or.assoc)
qed simp

lemma ucast_le_word:
  assumes "8 * length bs \<le> LENGTH('a::len)"
  shows "(ucast (le_word bs :: 'a word) :: 'b::len word) = le_word bs"
proof (rule bit_word_eqI)
  fix n assume "n < LENGTH('b)"
  moreover have "n < LENGTH('a)" if "n div 8 < length bs"
    using that assms by (auto simp: div_less_iff_less_mult intro: less_le_trans)
  ultimately show "bit (ucast (le_word bs :: 'a word) :: 'b word) n = bit (le_word bs :: 'b word) n"
    by (auto simp: bit_ucast_iff bit_le_word)
qed

section \<open>Signed C arithmetic\<close>

text \<open>
  Signed addition, subtraction and multiplication are undefined in C when the mathematical
  result is out of range; division also when the divisor is 0. \<open>c_signed\<close> is the range check.
\<close>

definition c_signed :: "int \<Rightarrow> ('a::len word) result" where
  "c_signed r = (if - (2 ^ (LENGTH('a) - 1)) \<le> r \<and> r < 2 ^ (LENGTH('a) - 1)
                 then Inr (word_of_int r) else Inl SignedOverflow)"

definition c_add :: "'a::len word \<Rightarrow> 'a word \<Rightarrow> 'a word result" where
  "c_add a b = c_signed (sint a + sint b)"

definition c_sub :: "'a::len word \<Rightarrow> 'a word \<Rightarrow> 'a word result" where
  "c_sub a b = c_signed (sint a - sint b)"

definition c_mul :: "'a::len word \<Rightarrow> 'a word \<Rightarrow> 'a word result" where
  "c_mul a b = c_signed (sint a * sint b)"

text \<open>
  C division and remainder truncate towards zero, as \<open>sdiv\<close> and \<open>smod\<close> do; the remainder is
  undefined too when the quotient is out of range.
\<close>

definition c_div :: "'a::len word \<Rightarrow> 'a word \<Rightarrow> 'a word result" where
  "c_div a b = (if b = 0 then Inl DivisionByZero else c_signed (sint a sdiv sint b))"

definition c_mod :: "'a::len word \<Rightarrow> 'a word \<Rightarrow> 'a word result" where
  "c_mod a b =
     (case c_div a b of Inl e \<Rightarrow> Inl e | Inr _ \<Rightarrow> Inr (word_of_int (sint a smod sint b)))"

text \<open>A shift count outside \<open>0 \<le> n < width\<close> is undefined.\<close>

definition c_shl :: "'a::len word \<Rightarrow> 'b::len word \<Rightarrow> 'a word result" where
  "c_shl a n = (if unat n < LENGTH('a) then Inr (push_bit (unat n) a) else Inl ShiftOutOfRange)"

definition c_shr :: "'a::len word \<Rightarrow> 'b::len word \<Rightarrow> 'a word result" where
  "c_shr a n = (if unat n < LENGTH('a) then Inr (drop_bit (unat n) a) else Inl ShiftOutOfRange)"

definition c_sar :: "'a::len word \<Rightarrow> 'b::len word \<Rightarrow> 'a word result" where
  "c_sar a n =
     (if unat n < LENGTH('a) then Inr (signed_drop_bit (unat n) a) else Inl ShiftOutOfRange)"

lemma c_add_wrap: "c_add a b = Inr c \<Longrightarrow> c = a + b"
  by (simp add: c_add_def c_signed_def split: if_splits)

lemma c_sub_wrap: "c_sub a b = Inr c \<Longrightarrow> c = a - b"
  by (simp add: c_sub_def c_signed_def split: if_splits)

text \<open>The quotient of two signed words leaves the range for one pair of operands only.\<close>

lemma sdiv_range:
  fixes a b :: "'a::len word"
  assumes "\<not> (b = - 1 \<and> sint a = - (2 ^ (LENGTH('a) - 1)))"
  shows "- (2 ^ (LENGTH('a) - 1)) \<le> sint a sdiv sint b \<and> sint a sdiv sint b < 2 ^ (LENGTH('a) - 1)"
proof (rule ccontr)
  assume over: "\<not> ?thesis"
  have "- (2 ^ (LENGTH('a) - 1)) \<le> sint a" "sint a < 2 ^ (LENGTH('a) - 1)"
    by (rule sint_ge, rule sint_lt)
  with over sdiv_int_range [of "sint a" "sint b"]
  have a: "sint a = - (2 ^ (LENGTH('a) - 1))" and "sint a sdiv sint b = 2 ^ (LENGTH('a) - 1)"
    unfolding atLeastAtMost_iff by linarith+
  then have "sint b = - 1"
    using int_sdiv_negated_is_minus1 [of "sint a" "sint b"] by simp
  then have "b = - 1"
    by (metis signed_minus_1 signed_word_eqI)
  with a assms show False by simp
qed

lemma c_div_value:
  fixes a b :: "'a::len word"
  assumes "b \<noteq> 0" "\<not> (b = - 1 \<and> sint a = - (2 ^ (LENGTH('a) - 1)))"
  shows "c_div a b = Inr (word_of_int (sint a sdiv sint b))"
    and "c_mod a b = Inr (word_of_int (sint a smod sint b))"
  using assms sdiv_range [OF assms(2)]
  by (simp_all add: c_mod_def c_div_def c_signed_def)

lemma sint_min: "sint (a :: u64) = - (2 ^ 63) \<longleftrightarrow> a = 0x8000000000000000"
  "sint (q :: u32) = - (2 ^ 31) \<longleftrightarrow> q = 0x80000000"
  by (auto intro: signed_word_eqI)

lemma c_mul_wrap: "c_mul a b = Inr c \<Longrightarrow> c = a * b"
  by (simp add: c_mul_def c_signed_def split: if_splits)

section \<open>Runs\<close>

text \<open>
  A run applies a step to each element of a list and stops at the first fault. An invariant
  that every successful step keeps holds after every successful run.
\<close>

primrec run_steps :: "('e \<Rightarrow> 's \<Rightarrow> 's result) \<Rightarrow> 'e list \<Rightarrow> 's \<Rightarrow> 's result" where
  "run_steps step [] s = Inr s"
| "run_steps step (e # es) s = (case step e s of Inl x \<Rightarrow> Inl x | Inr s' \<Rightarrow> run_steps step es s')"

lemma run_steps_append:
  "run_steps step (es @ fs) s =
     (case run_steps step es s of Inl x \<Rightarrow> Inl x | Inr s' \<Rightarrow> run_steps step fs s')"
  by (induction es arbitrary: s) (auto split: sum.splits)

locale run_invariant =
  fixes step :: "'e \<Rightarrow> 's \<Rightarrow> 's result" and inv :: "'s \<Rightarrow> bool"
  assumes step_inv: "inv s \<Longrightarrow> step e s = Inr s' \<Longrightarrow> inv s'"
begin

lemma run_inv: "inv s \<Longrightarrow> run_steps step es s = Inr s' \<Longrightarrow> inv s'"
proof (induction es arbitrary: s)
  case Nil
  then show ?case by simp
next
  case (Cons e es)
  from Cons.prems obtain t where "step e s = Inr t" and rest: "run_steps step es t = Inr s'"
    by (auto split: sum.splits)
  with Cons.prems(1) have "inv t" by (blast intro: step_inv)
  then show ?case using rest by (rule Cons.IH)
qed

lemma run_inv_prefix:
  assumes "inv s" "run_steps step (es @ fs) s = Inr s'"
  obtains t where "run_steps step es s = Inr t" "inv t" "run_steps step fs t = Inr s'"
  using assms by (auto simp: run_steps_append split: sum.splits intro: run_inv)

end

section \<open>Lookaside structures\<close>

text \<open>
  A table with one place per slot, such as the TLB and the instruction cache: filling a key puts
  its value in the key's slot and pushes out whatever key was there. A client only needs these
  laws to know that a table filled with correct values answers only correct values.
\<close>

locale lookaside =
  fixes lookup :: "'c \<Rightarrow> 'k \<Rightarrow> 'v option"
    and fill :: "'c \<Rightarrow> 'k \<Rightarrow> 'v \<Rightarrow> 'c"
    and slot :: "'k \<Rightarrow> 's"
    and invar :: "'c \<Rightarrow> bool"
  assumes lookup_fill_same: "invar c \<Longrightarrow> lookup (fill c k v) k = Some v"
    and lookup_fill_evicted: "invar c \<Longrightarrow> slot j = slot k \<Longrightarrow> j \<noteq> k \<Longrightarrow> lookup (fill c k v) j = None"
    and lookup_fill_other: "invar c \<Longrightarrow> slot j \<noteq> slot k \<Longrightarrow> lookup (fill c k v) j = lookup c j"
    and invar_fill: "invar c \<Longrightarrow> invar (fill c k v)"
begin

lemma lookup_fill:
  "invar c \<Longrightarrow> lookup (fill c k v) j =
     (if j = k then Some v else if slot j = slot k then None else lookup c j)"
  by (simp add: lookup_fill_same lookup_fill_evicted lookup_fill_other)

lemma fill_sound:
  assumes "invar c" "\<And>j u. lookup c j = Some u \<Longrightarrow> good j u" "good k v" "lookup (fill c k v) j = Some u"
  shows "good j u"
  using assms by (auto simp: lookup_fill split: if_splits)

lemma fills_sound:
  assumes "invar c" "\<And>j u. lookup c j = Some u \<Longrightarrow> good j u" "\<forall>(k, v) \<in> set kvs. good k v"
    and "lookup (foldl (\<lambda>c (k, v). fill c k v) c kvs) j = Some u"
  shows "good j u"
  using assms
proof (induction kvs arbitrary: c)
  case Nil
  then show ?case by simp
next
  case (Cons kv kvs)
  obtain k v where kv: "kv = (k, v)" by (cases kv)
  have "good i w" if "lookup (fill c k v) i = Some w" for i w
    using fill_sound [OF Cons.prems(1) Cons.prems(2) _ that] Cons.prems(3) kv by auto
  then show ?case
    using Cons.IH [of "fill c k v"] Cons.prems kv by (auto intro: invar_fill)
qed

end

end
