(* ===== verification/Framework_Memory.thy ===== *)
theory Framework_Memory
  imports Prelude
begin

text \<open>
  The simulated memory and its port, from \<open>src/src/riscv_sim_framework.c\<close>: the static variables
  of that file as the record \<open>framework\<close>, \<open>memory_load\<close> and \<open>memory_dump\<close>, the pipeline's port
  (\<open>memory_read\<close>, \<open>memory_write\<close>, \<open>memory_status\<close>) with its one-access-per-stage rule and its
  table of pending accesses, and the program counter. The lemmas describe the answer of the port
  on every branch and state its round trip, frame, port and latency properties.
\<close>

section \<open>State\<close>

datatype memory_op = MEMORY_OP_NONE | MEMORY_OP_READ | MEMORY_OP_WRITE | MEMORY_OP_COMPLETED

record memory_pending_t =
  pnd_address :: u64
  pnd_n_bytes :: u64
  pnd_end_cycle :: u64
  pnd_op :: memory_op

text \<open>
  The file's static variables. \<open>riscv_mem\<close> is the allocated block, by offset; offsets from
  \<open>riscv_mem_size\<close> on are outside the block and are never read or written by the operations
  below (an access there is \<open>OutOfBounds\<close>). The last two fields are not variables of the
  program but its environment, which no operation changes: \<open>heap_alloc n\<close> says whether the C
  library can allocate \<open>n\<close> bytes, and \<open>uninit c s\<close> is what an automatic 4-byte variable holds
  before it is first assigned, in cycle \<open>c\<close> and stage \<open>s\<close>.
\<close>

record framework =
  riscv_mem :: "u64 \<Rightarrow> u8"
  riscv_mem_size :: u64
  program_counter :: u64
  ptbr :: u64
  memory_read_latency :: u64
  memory_write_latency :: u64
  cycle_counter :: u64
  read_counter :: u64
  read_bytes :: u64
  write_counter :: u64
  write_bytes :: u64
  memory_pending :: "memory_pending_t list"
  current_stage :: u64
  memory_accesses_issued :: u64
  register_file :: "u64 list"
  register_cycle_reads :: u32
  register_cycle_writes :: u32
  heap_alloc :: "u64 \<Rightarrow> bool"
  uninit :: "u64 \<Rightarrow> u64 \<Rightarrow> u32"

definition MEMORY_MAX_SIZE :: u64 where [fw_defs]: "MEMORY_MAX_SIZE = 32 * 1024 * 1024"
definition MEMORY_PAGE_SIZE :: u64 where [fw_defs]: "MEMORY_PAGE_SIZE = 4096"
definition MEMORY_MAX_PENDING :: nat where [fw_defs]: "MEMORY_MAX_PENDING = 4"
definition MEMORY_MAX_READ_BYTES :: u64 where [fw_defs]: "MEMORY_MAX_READ_BYTES = 16"

definition STAGE_F_BIT :: u64 where [fw_defs]: "STAGE_F_BIT = 1"
definition STAGE_D_BIT :: u64 where [fw_defs]: "STAGE_D_BIT = 2"
definition STAGE_X_BIT :: u64 where [fw_defs]: "STAGE_X_BIT = 4"
definition STAGE_M_BIT :: u64 where [fw_defs]: "STAGE_M_BIT = 8"
definition STAGE_W_BIT :: u64 where [fw_defs]: "STAGE_W_BIT = 16"

definition empty_pending :: memory_pending_t where
  "empty_pending =
     \<lparr>pnd_address = 0, pnd_n_bytes = 0, pnd_end_cycle = 0, pnd_op = MEMORY_OP_NONE\<rparr>"

section \<open>Operations\<close>

definition memory_initialize_pending :: "framework \<Rightarrow> framework" where
  "memory_initialize_pending f =
     f\<lparr>memory_pending := replicate MEMORY_MAX_PENDING empty_pending\<rparr>"

definition memory_initialize :: "framework \<Rightarrow> u64 \<Rightarrow> framework result" where
  "memory_initialize f size_in_bytes =
     (if size_in_bytes > MEMORY_MAX_SIZE \<or> size_in_bytes mod MEMORY_PAGE_SIZE \<noteq> 0
      then Inl BadMemorySize
      else if \<not> heap_alloc f size_in_bytes then Inl OutOfMemory
      else Inr (f\<lparr>riscv_mem := (\<lambda>_. 0), riscv_mem_size := size_in_bytes\<rparr>))"

definition set_pc :: "framework \<Rightarrow> u64 \<Rightarrow> framework" where
  "set_pc f pc = f\<lparr>program_counter := pc\<rparr>"

definition get_pc :: "framework \<Rightarrow> u64" where
  "get_pc f = program_counter f"

definition get_ptbr :: "framework \<Rightarrow> u64" where
  "get_ptbr f = ptbr f"

definition get_cycle_counter :: "framework \<Rightarrow> u64" where
  "get_cycle_counter f = cycle_counter f"

text \<open>
  Copying to and from the block: \<open>store_bytes\<close> and \<open>fetch_bytes\<close> are the two \<open>memcpy\<close> calls. The
  check of the source adds in 64 bits, so a \<open>base\<close> near the top of the address space passes it
  although the copy starts before the block: that case is \<open>OutOfBounds\<close>.
\<close>

definition store_bytes :: "(u64 \<Rightarrow> u8) \<Rightarrow> u64 \<Rightarrow> u8 list \<Rightarrow> u64 \<Rightarrow> u8" where
  "store_bytes m base bs =
     (\<lambda>a. if unat (a - base) < length bs then bs ! unat (a - base) else m a)"

definition fetch_bytes :: "(u64 \<Rightarrow> u8) \<Rightarrow> u64 \<Rightarrow> nat \<Rightarrow> u8 list" where
  "fetch_bytes m base n = map (\<lambda>i. m (base + of_nat i)) [0..<n]"

definition in_block :: "framework \<Rightarrow> u64 \<Rightarrow> u64 \<Rightarrow> bool" where
  "in_block f base sz \<longleftrightarrow> unat base + unat sz \<le> unat (riscv_mem_size f)"

definition memory_load :: "framework \<Rightarrow> u8 list \<Rightarrow> u64 \<Rightarrow> u64 \<Rightarrow> (bool \<times> framework) result" where
  "memory_load f region base sz =
     (if base + sz > riscv_mem_size f then Inr (False, f)
      else if \<not> in_block f base sz then Inl OutOfBounds
      else Inr (True, f\<lparr>riscv_mem := store_bytes (riscv_mem f) base (take (unat sz) region)\<rparr>))"

definition memory_dump :: "framework \<Rightarrow> u8 list option \<Rightarrow> u64 \<Rightarrow> u64 \<Rightarrow>
    (bool \<times> u8 list option) result" where
  "memory_dump f region base sz =
     (if base + sz > riscv_mem_size f then Inr (False, region)
      else if \<not> in_block f base sz then Inl OutOfBounds
      else case region of
             None \<Rightarrow> if sz = 0 then Inr (True, None) else Inl NullPointer
           | Some buf \<Rightarrow>
               (case buf_put buf (fetch_bytes (riscv_mem f) base (unat sz)) of
                  Inl e \<Rightarrow> Inl e
                | Inr buf' \<Rightarrow> Inr (True, Some buf')))"

text \<open>The first free slot of the table takes the access; a full table drops it.\<close>

fun pending_insert :: "memory_pending_t \<Rightarrow> memory_pending_t list \<Rightarrow> bool \<times> memory_pending_t list"
  where
    "pending_insert p [] = (False, [])"
  | "pending_insert p (q # qs) =
       (if pnd_op q = MEMORY_OP_NONE then (True, p # qs)
        else let (found, qs') = pending_insert p qs in (found, q # qs'))"

definition memory_add_pending :: "framework \<Rightarrow> u64 \<Rightarrow> u64 \<Rightarrow> memory_op \<Rightarrow> bool \<times> framework" where
  "memory_add_pending f address size_in_bytes op =
     (let latency = (if op = MEMORY_OP_WRITE then memory_write_latency f
                     else memory_read_latency f);
          pnd = \<lparr>pnd_address = address, pnd_n_bytes = size_in_bytes,
                 pnd_end_cycle = cycle_counter f + latency, pnd_op = op\<rparr>;
          (found, table) = pending_insert pnd (memory_pending f)
      in (found, f\<lparr>memory_pending := table\<rparr>))"

definition popcountll :: "u64 \<Rightarrow> nat" where
  "popcountll w = length (filter (bit w) [0..<64])"

definition memory_read :: "framework \<Rightarrow> u64 \<Rightarrow> u8 list \<Rightarrow> u64 \<Rightarrow>
    (bool \<times> u8 list \<times> framework) result" where
  "memory_read f address value size_in_bytes =
     (if size_in_bytes > MEMORY_MAX_READ_BYTES \<or> popcountll size_in_bytes \<noteq> 1 \<or>
         address + size_in_bytes > riscv_mem_size f \<or> address mod size_in_bytes \<noteq> 0
      then (case buf_put value [0] of Inl e \<Rightarrow> Inl e | Inr v \<Rightarrow> Inr (True, v, f))
      else if current_stage f AND (STAGE_F_BIT OR STAGE_M_BIT) = 0 \<or>
              memory_accesses_issued f AND current_stage f \<noteq> 0
      then (case buf_put value (replicate (unat size_in_bytes) 0) of
              Inl e \<Rightarrow> Inl e
            | Inr v \<Rightarrow> Inr (True, v, f))
      else let f1 = f\<lparr>read_counter := read_counter f + 1,
                      read_bytes := read_bytes f + size_in_bytes,
                      memory_accesses_issued := memory_accesses_issued f OR current_stage f\<rparr>
           in if memory_read_latency f1 = 0
              then (case memory_dump f1 (Some value) address size_in_bytes of
                      Inl e \<Rightarrow> Inl e
                    | Inr (_, v) \<Rightarrow> Inr (True, the v, f1))
              else let (_, f2) = memory_add_pending f1 address size_in_bytes MEMORY_OP_READ
                   in (case buf_put value (replicate (unat size_in_bytes) 0) of
                         Inl e \<Rightarrow> Inl e
                       | Inr v \<Rightarrow> Inr (False, v, f2)))"

definition memory_write :: "framework \<Rightarrow> u64 \<Rightarrow> u64 \<Rightarrow> u64 \<Rightarrow> (bool \<times> framework) result" where
  "memory_write f address value size_in_bytes =
     (if size_in_bytes > 8 \<or> popcountll size_in_bytes \<noteq> 1 \<or>
         address + size_in_bytes > riscv_mem_size f \<or> address mod size_in_bytes \<noteq> 0
      then Inr (True, f)
      else if current_stage f AND STAGE_M_BIT = 0 \<or>
              memory_accesses_issued f AND current_stage f \<noteq> 0
      then Inr (True, f)
      else let f1 = f\<lparr>memory_accesses_issued := memory_accesses_issued f OR current_stage f\<rparr>
           in (case memory_load f1 (le_bytes 8 value) address size_in_bytes of
                 Inl e \<Rightarrow> Inl e
               | Inr (_, f2) \<Rightarrow>
                   let f3 = f2\<lparr>write_counter := write_counter f2 + 1,
                               write_bytes := write_bytes f2 + size_in_bytes\<rparr>
                   in if memory_write_latency f3 = 0 then Inr (True, f3)
                      else Inr (False,
                             snd (memory_add_pending f3 address size_in_bytes MEMORY_OP_WRITE))))"

text \<open>
  \<open>memory_status\<close> looks at the slots in order and answers at the first one whose address
  matches, whatever that slot's operation is. A \<open>NULL\<close> value pointer is \<open>None\<close>.
\<close>

definition pending_slot :: "framework \<Rightarrow> u64 \<Rightarrow> nat option" where
  "pending_slot f address =
     List.find (\<lambda>i. pnd_address (memory_pending f ! i) = address) [0..<MEMORY_MAX_PENDING]"

definition memory_status :: "framework \<Rightarrow> u64 \<Rightarrow> u8 list option \<Rightarrow>
    (bool \<times> u8 list option \<times> framework) result" where
  "memory_status f address value =
     (case pending_slot f address of
        None \<Rightarrow> Inr (False, value, f)
      | Some i \<Rightarrow>
          let p = memory_pending f ! i in
          if pnd_end_cycle p \<le> cycle_counter f
          then let f1 = f\<lparr>memory_pending :=
                          (memory_pending f)[i := p\<lparr>pnd_op := MEMORY_OP_COMPLETED\<rparr>]\<rparr>
               in if pnd_op p = MEMORY_OP_READ
                  then (case memory_dump f value address (pnd_n_bytes p) of
                          Inl e \<Rightarrow> Inl e
                        | Inr (_, v) \<Rightarrow> Inr (True, v, f1))
                  else Inr (True, value, f1)
          else Inr (False, value, f))"

definition retire_slot :: "memory_pending_t \<Rightarrow> memory_pending_t" where
  "retire_slot p =
     (if pnd_op p = MEMORY_OP_COMPLETED then p\<lparr>pnd_op := MEMORY_OP_NONE\<rparr> else p)"

definition memory_retire_completed :: "framework \<Rightarrow> framework" where
  "memory_retire_completed f =
     f\<lparr>memory_pending := map retire_slot (memory_pending f), memory_accesses_issued := 0\<rparr>"

section \<open>The byte store\<close>

text \<open>
  What the users of the block rely on: a run of bytes that was stored is fetched back, and a
  store leaves every other byte alone. The lemmas about words and about two stores are proved
  once from these laws.
\<close>

locale byte_store =
  fixes store :: "'m \<Rightarrow> u64 \<Rightarrow> u8 list \<Rightarrow> 'm"
    and fetch :: "'m \<Rightarrow> u64 \<Rightarrow> nat \<Rightarrow> u8 list"
  assumes fetch_length: "length (fetch m a n) = n"
    and fetch_store_same: "length bs < 2 ^ 64 \<Longrightarrow> fetch (store m a bs) a (length bs) = bs"
    and fetch_store_apart:
      "unat a + n \<le> unat b \<or> unat b + length bs \<le> unat a \<Longrightarrow>
       unat a + n \<le> 2 ^ 64 \<Longrightarrow> unat b + length bs \<le> 2 ^ 64 \<Longrightarrow>
       fetch (store m b bs) a n = fetch m a n"
begin

lemma word_roundtrip:
  fixes w :: "'a::len word"
  assumes "n < 2 ^ 64"
  shows "le_word (fetch (store m a (le_bytes n w)) a n) = take_bit (8 * n) w"
  using fetch_store_same [of "le_bytes n w" m a] assms by simp

lemma overwrite:
  assumes "length bs < 2 ^ 64" and "length cs = length bs"
  shows "fetch (store (store m a bs) a cs) a (length bs) = cs"
  using fetch_store_same [of cs "store m a bs" a] assms by simp

lemma stores_apart:
  assumes "unat a + length bs \<le> unat b" and "unat b + length cs \<le> 2 ^ 64"
    and "length cs < 2 ^ 64"
  shows "fetch (store (store m a bs) b cs) a (length bs) = bs"
    and "fetch (store (store m a bs) b cs) b (length cs) = cs"
proof -
  have "unat b < 2 ^ 64" by simp
  with assms have la: "length bs < 2 ^ 64" by linarith
  from assms have "fetch (store (store m a bs) b cs) a (length bs) = fetch (store m a bs) a (length bs)"
    by (intro fetch_store_apart) simp_all
  with la show "fetch (store (store m a bs) b cs) a (length bs) = bs"
    by (simp add: fetch_store_same)
  from assms(3) show "fetch (store (store m a bs) b cs) b (length cs) = cs"
    by (rule fetch_store_same)
qed

end

lemma length_fetch_bytes [simp]: "length (fetch_bytes m a n) = n"
  by (simp add: fetch_bytes_def)

lemma nth_fetch_bytes [simp]: "i < n \<Longrightarrow> fetch_bytes m a n ! i = m (a + of_nat i)"
  by (simp add: fetch_bytes_def)

lemma unat_of_nat_u64: "i < 2 ^ 64 \<Longrightarrow> unat (of_nat i :: u64) = i"
  by (simp add: unsigned_of_nat take_bit_nat_eq_self)

interpretation block: byte_store store_bytes fetch_bytes
proof
  show "length (fetch_bytes m a n) = n" for m a n
    by simp
  show "fetch_bytes (store_bytes m a bs) a (length bs) = bs" if "length bs < 2 ^ 64" for bs m a
    using that by (auto intro!: nth_equalityI simp: store_bytes_def unat_of_nat_u64)
  show "fetch_bytes (store_bytes m b bs) a n = fetch_bytes m a n"
    if apart: "unat a + n \<le> unat b \<or> unat b + length bs \<le> unat a"
      and "unat a + n \<le> 2 ^ 64" and "unat b + length bs \<le> 2 ^ 64" for a b n bs m
  proof (rule nth_equalityI)
    fix i
    assume "i < length (fetch_bytes (store_bytes m b bs) a n)"
    then have i: "i < n" by simp
    have sum: "unat (a + of_nat i) = unat a + i"
      using i that(2) by (simp add: unat_word_ariths unat_of_nat_u64)
    have "\<not> unat (a + of_nat i - b) < length bs"
      using apart i that(3) sum unat_sub_if_size [of "a + of_nat i" b] by (auto simp: word_size)
    then show "fetch_bytes (store_bytes m b bs) a n ! i = fetch_bytes m a n ! i"
      using i by (simp add: store_bytes_def)
  qed simp
qed

section \<open>The memory port\<close>

text \<open>The sizes that pass the tests on \<open>size_in_bytes\<close> are the powers of two up to the limit.\<close>

lemma popcountll_small:
  "list_all (\<lambda>x. popcountll x = 1 \<longleftrightarrow> x \<in> {1, 2, 4, 8, 16}) (map of_nat [0..<17])"
  by code_simp

lemma popcountll_le_16:
  assumes "s \<le> 16" shows "popcountll s = 1 \<longleftrightarrow> s \<in> {1, 2, 4, 8, 16}"
proof -
  from assms have "unat s \<in> set [0..<17]" by (simp add: word_le_nat_alt)
  then have "(of_nat (unat s) :: u64) \<in> of_nat ` set [0..<17]"
    by (rule imageI)
  then have "s \<in> set (map of_nat [0..<17])"
    by (simp only: of_nat_unat ucast_id set_map)
  with popcountll_small show ?thesis
    by (simp only: list_all_iff)
qed

lemma popcountll_legal: "s \<in> {1, 2, 4, 8, 16} \<Longrightarrow> popcountll s = 1"
  by (subst popcountll_le_16) auto

definition proper :: "framework \<Rightarrow> u64 \<Rightarrow> u64 \<Rightarrow> bool" where
  "proper f address sz \<longleftrightarrow>
     sz \<in> {1, 2, 4, 8, 16} \<and> in_block f address sz \<and> address mod sz = 0"

definition port_free :: "framework \<Rightarrow> bool" where
  "port_free f \<longleftrightarrow> memory_accesses_issued f AND current_stage f = 0"

definition may_read :: "framework \<Rightarrow> bool" where
  "may_read f \<longleftrightarrow> current_stage f \<in> {STAGE_F_BIT, STAGE_M_BIT} \<and> port_free f"

definition may_write :: "framework \<Rightarrow> bool" where
  "may_write f \<longleftrightarrow> current_stage f = STAGE_M_BIT \<and> port_free f"

lemma in_block_le: "in_block f a s \<Longrightarrow> a + s \<le> riscv_mem_size f"
  by (simp add: in_block_def word_le_nat_alt unat_word_ariths)

lemma in_block_iff_no_wrap:
  "a + s \<le> riscv_mem_size f \<Longrightarrow> in_block f a s \<longleftrightarrow> unat a + unat s < 2 ^ 64"
  by (auto simp: in_block_def word_le_nat_alt unat_word_ariths
      intro: order_le_less_trans [OF _ unat_u64_less])

lemma may_read_cond:
  "may_read f \<Longrightarrow> \<not> (current_stage f AND (STAGE_F_BIT OR STAGE_M_BIT) = 0 \<or>
     memory_accesses_issued f AND current_stage f \<noteq> 0)"
  by (auto simp: may_read_def port_free_def fw_defs)

lemma may_write_cond:
  "may_write f \<Longrightarrow> \<not> (current_stage f AND STAGE_M_BIT = 0 \<or>
     memory_accesses_issued f AND current_stage f \<noteq> 0)"
  by (auto simp: may_write_def port_free_def fw_defs)

lemma proper_read_cond:
  "proper f a s \<Longrightarrow> \<not> (s > MEMORY_MAX_READ_BYTES \<or> popcountll s \<noteq> 1 \<or>
     a + s > riscv_mem_size f \<or> a mod s \<noteq> 0)"
  by (auto simp: proper_def fw_defs popcountll_legal dest: in_block_le)

lemma proper_write_cond:
  "proper f a s \<Longrightarrow> s \<noteq> 16 \<Longrightarrow> \<not> (s > 8 \<or> popcountll s \<noteq> 1 \<or>
     a + s > riscv_mem_size f \<or> a mod s \<noteq> 0)"
  by (auto simp: proper_def fw_defs popcountll_legal dest: in_block_le)

text \<open>The state after the port has accepted a read: the counters and the stage's access bit.\<close>

definition read_issued :: "framework \<Rightarrow> u64 \<Rightarrow> framework" where
  "read_issued f s =
     f\<lparr>read_counter := read_counter f + 1, read_bytes := read_bytes f + s,
       memory_accesses_issued := memory_accesses_issued f OR current_stage f\<rparr>"

definition write_issued :: "framework \<Rightarrow> u64 \<Rightarrow> u64 \<Rightarrow> u64 \<Rightarrow> framework" where
  "write_issued f a v s =
     f\<lparr>memory_accesses_issued := memory_accesses_issued f OR current_stage f,
       riscv_mem := store_bytes (riscv_mem f) a (le_bytes (unat s) v),
       write_counter := write_counter f + 1, write_bytes := write_bytes f + s\<rparr>"

lemma memory_read_now [port_simps]:
  assumes "proper f a s" "may_read f" "memory_read_latency f = 0" "unat s \<le> length v"
  shows "memory_read f a v s =
    Inr (True, fetch_bytes (riscv_mem f) a (unat s) @ drop (unat s) v, read_issued f s)"
proof -
  from assms(1) have "in_block f a s" by (simp add: proper_def)
  then show ?thesis
    using assms(3,4) in_block_le [of f a s]
    unfolding memory_read_def if_not_P [OF proper_read_cond [OF assms(1)]]
      if_not_P [OF may_read_cond [OF assms(2)]]
    by (simp add: Let_def read_issued_def memory_dump_def in_block_def buf_put_ok leD)
qed

lemma memory_read_later [port_simps]:
  assumes "proper f a s" "may_read f" "memory_read_latency f \<noteq> 0" "unat s \<le> length v"
  shows "memory_read f a v s =
    Inr (False, replicate (unat s) 0 @ drop (unat s) v,
         snd (memory_add_pending (read_issued f s) a s MEMORY_OP_READ))"
  using assms(3,4)
  unfolding memory_read_def if_not_P [OF proper_read_cond [OF assms(1)]]
    if_not_P [OF may_read_cond [OF assms(2)]]
  by (simp add: Let_def read_issued_def buf_put_ok split_beta)

lemma memory_read_busy [port_simps]:
  assumes "proper f a s" "\<not> may_read f" "current_stage f \<in> {STAGE_F_BIT, STAGE_M_BIT}"
    and "unat s \<le> length v"
  shows "memory_read f a v s = Inr (True, replicate (unat s) 0 @ drop (unat s) v, f)"
  using assms(2-4)
  unfolding memory_read_def if_not_P [OF proper_read_cond [OF assms(1)]]
  by (auto simp: may_read_def port_free_def buf_put_ok)

lemma memory_write_now [port_simps]:
  assumes "proper f a s" "s \<noteq> 16" "may_write f"
  shows "memory_write f a v s =
    (if memory_write_latency f = 0 then Inr (True, write_issued f a v s)
     else Inr (False, snd (memory_add_pending (write_issued f a v s) a s MEMORY_OP_WRITE)))"
proof -
  from assms(1,2) have blk: "in_block f a s" and "unat s \<le> 8"
    by (auto simp: proper_def)
  then have tk: "take (unat s) (le_bytes 8 v) = le_bytes (unat s) v"
    by (simp add: le_bytes_def take_map take_upt)
  show ?thesis
    using blk in_block_le [OF blk]
    unfolding memory_write_def if_not_P [OF proper_write_cond [OF assms(1,2)]]
      if_not_P [OF may_write_cond [OF assms(3)]]
    by (simp add: Let_def write_issued_def memory_load_def in_block_def leD tk)
qed

lemma memory_write_busy [port_simps]:
  "\<not> may_write f \<Longrightarrow> current_stage f \<in> {STAGE_F_BIT, STAGE_M_BIT} \<Longrightarrow>
   memory_write f a v s = Inr (True, f)"
  by (auto simp: memory_write_def may_write_def port_free_def fw_defs)

text \<open>An improper access completes at once and touches nothing but the first byte of the buffer.\<close>

lemma memory_read_improper [port_simps]:
  assumes "s > 16 \<or> s \<notin> {1, 2, 4, 8, 16} \<or> a + s > riscv_mem_size f \<or> a mod s \<noteq> 0" "v \<noteq> []"
  shows "memory_read f a v s = Inr (True, 0 # tl v, f)"
proof -
  have "s > MEMORY_MAX_READ_BYTES \<or> popcountll s \<noteq> 1 \<or> a + s > riscv_mem_size f \<or> a mod s \<noteq> 0"
    using assms(1) popcountll_le_16 [of s] unfolding MEMORY_MAX_READ_BYTES_def
    by (meson not_le_imp_less)
  with assms(2) show ?thesis
    by (cases v) (simp_all add: memory_read_def buf_put_ok)
qed

lemma memory_write_improper [port_simps]:
  assumes "s \<notin> {1, 2, 4, 8} \<or> a + s > riscv_mem_size f \<or> a mod s \<noteq> 0"
  shows "memory_write f a v s = Inr (True, f)"
proof -
  have "popcountll s = 1 \<longleftrightarrow> s \<in> {1, 2, 4, 8}" if "s \<le> 8"
  proof -
    from that have "s \<le> 16" by (rule order_trans) simp
    moreover from that have "s \<noteq> 16" by auto
    ultimately show ?thesis using popcountll_le_16 [of s] by simp
  qed
  then have "s > 8 \<or> popcountll s \<noteq> 1 \<or> a + s > riscv_mem_size f \<or> a mod s \<noteq> 0"
    using assms by (meson not_le_imp_less)
  then show ?thesis by (simp add: memory_write_def)
qed

section \<open>Pending accesses\<close>

lemma pending_insert_length [simp]: "length (snd (pending_insert p qs)) = length qs"
  by (induction qs) (auto simp: split_beta Let_def)

lemma pending_insert_free:
  assumes "\<exists>q \<in> set qs. pnd_op q = MEMORY_OP_NONE"
  obtains i where "i < length qs" "pnd_op (qs ! i) = MEMORY_OP_NONE"
    "pending_insert p qs = (True, qs[i := p])"
proof -
  from assms have "\<exists>i. i < length qs \<and> pnd_op (qs ! i) = MEMORY_OP_NONE \<and>
      pending_insert p qs = (True, qs[i := p])"
  proof (induction qs)
    case Nil
    then show ?case by simp
  next
    case (Cons q qs)
    show ?case
    proof (cases "pnd_op q = MEMORY_OP_NONE")
      case True
      then show ?thesis by (intro exI [of _ 0]) simp
    next
      case False
      with Cons obtain i where "i < length qs" "pnd_op (qs ! i) = MEMORY_OP_NONE"
        "pending_insert p qs = (True, qs[i := p])"
        by auto
      with False show ?thesis by (intro exI [of _ "Suc i"]) simp
    qed
  qed
  with that show thesis by blast
qed

lemma pending_insert_full:
  "\<forall>q \<in> set qs. pnd_op q \<noteq> MEMORY_OP_NONE \<Longrightarrow> pending_insert p qs = (False, qs)"
  by (induction qs) auto

lemma memory_add_pending_frame [simp]:
  "riscv_mem (snd (memory_add_pending f a s op)) = riscv_mem f"
  "riscv_mem_size (snd (memory_add_pending f a s op)) = riscv_mem_size f"
  "cycle_counter (snd (memory_add_pending f a s op)) = cycle_counter f"
  "register_file (snd (memory_add_pending f a s op)) = register_file f"
  "length (memory_pending (snd (memory_add_pending f a s op))) = length (memory_pending f)"
  by (simp_all add: memory_add_pending_def Let_def split_beta)

lemma pending_slot_None:
  assumes "length (memory_pending f) = MEMORY_MAX_PENDING"
  shows "pending_slot f a = None \<longleftrightarrow> (\<forall>p \<in> set (memory_pending f). pnd_address p \<noteq> a)"
  using assms by (auto simp: pending_slot_def find_None_iff all_set_conv_all_nth)

lemma pending_slot_unique:
  assumes "i < MEMORY_MAX_PENDING" "pnd_address (memory_pending f ! i) = a"
    and "\<And>j. j < MEMORY_MAX_PENDING \<Longrightarrow> j \<noteq> i \<Longrightarrow> pnd_address (memory_pending f ! j) \<noteq> a"
  shows "pending_slot f a = Some i"
  using assms by (auto simp: pending_slot_def find_Some_iff)

text \<open>
  The access that \<open>memory_add_pending\<close> has put in a free slot is the one \<open>memory_status\<close> answers
  for, when no other slot carries its address.
\<close>

lemma memory_add_pending_slot:
  assumes len: "length (memory_pending f) = MEMORY_MAX_PENDING"
    and free: "\<exists>q \<in> set (memory_pending f). pnd_op q = MEMORY_OP_NONE"
    and new: "pending_slot f a = None"
  obtains i where "i < MEMORY_MAX_PENDING"
    "memory_add_pending f a s op = (True, f\<lparr>memory_pending := (memory_pending f)[i :=
       \<lparr>pnd_address = a, pnd_n_bytes = s,
        pnd_end_cycle = cycle_counter f +
          (if op = MEMORY_OP_WRITE then memory_write_latency f else memory_read_latency f),
        pnd_op = op\<rparr>]\<rparr>)"
    "\<And>f'. memory_pending f' = memory_pending (snd (memory_add_pending f a s op)) \<Longrightarrow>
       pending_slot f' a = Some i"
proof -
  let ?p = "\<lparr>pnd_address = a, pnd_n_bytes = s,
        pnd_end_cycle = cycle_counter f +
          (if op = MEMORY_OP_WRITE then memory_write_latency f else memory_read_latency f),
        pnd_op = op\<rparr>"
  from free obtain i where i: "i < length (memory_pending f)"
    "pending_insert ?p (memory_pending f) = (True, (memory_pending f)[i := ?p])"
    by (rule pending_insert_free)
  have eq: "memory_add_pending f a s op = (True, f\<lparr>memory_pending := (memory_pending f)[i := ?p]\<rparr>)"
    using i(2) by (simp add: memory_add_pending_def Let_def)
  have "pending_slot f' a = Some i"
    if "memory_pending f' = memory_pending (snd (memory_add_pending f a s op))" for f'
    using that i(1) len new
    by (intro pending_slot_unique)
      (auto simp: eq nth_list_update pending_slot_None all_set_conv_all_nth)
  with that i(1) len eq show thesis by metis
qed

lemma memory_status_waiting:
  "pending_slot f a = Some i \<Longrightarrow> \<not> pnd_end_cycle (memory_pending f ! i) \<le> cycle_counter f \<Longrightarrow>
   memory_status f a v = Inr (False, v, f)"
  by (simp add: memory_status_def Let_def)

lemma memory_status_read_done:
  assumes "pending_slot f a = Some i" "pnd_end_cycle (memory_pending f ! i) \<le> cycle_counter f"
    and "pnd_op (memory_pending f ! i) = MEMORY_OP_READ"
    and "pnd_n_bytes (memory_pending f ! i) = s" "in_block f a s" "unat s \<le> length v"
  shows "memory_status f a (Some v) =
    Inr (True, Some (fetch_bytes (riscv_mem f) a (unat s) @ drop (unat s) v),
         f\<lparr>memory_pending := (memory_pending f)
             [i := (memory_pending f ! i)\<lparr>pnd_op := MEMORY_OP_COMPLETED\<rparr>]\<rparr>)"
  using assms in_block_le [OF assms(5)]
  by (simp add: memory_status_def Let_def memory_dump_def leD buf_put_ok)

section \<open>Properties\<close>

definition wf_framework :: "framework \<Rightarrow> bool" where
  "wf_framework f \<longleftrightarrow>
     length (memory_pending f) = MEMORY_MAX_PENDING \<and> length (register_file f) = 32 \<and>
     register_cycle_reads f = 0 \<and> register_cycle_writes f = 0 \<and>
     riscv_mem_size f \<le> MEMORY_MAX_SIZE"

text \<open>
  What no access through the port changes: \<open>port_frame f g\<close> when \<open>g\<close> differs from \<open>f\<close> at most in
  the memory contents, the counters, the access bits and the pending accesses.
\<close>

definition port_frame :: "framework \<Rightarrow> framework \<Rightarrow> bool" where
  "port_frame f g \<longleftrightarrow>
     riscv_mem_size g = riscv_mem_size f \<and> program_counter g = program_counter f \<and>
     ptbr g = ptbr f \<and> memory_read_latency g = memory_read_latency f \<and>
     memory_write_latency g = memory_write_latency f \<and> cycle_counter g = cycle_counter f \<and>
     current_stage g = current_stage f \<and> register_file g = register_file f \<and>
     register_cycle_reads g = register_cycle_reads f \<and>
     register_cycle_writes g = register_cycle_writes f \<and>
     heap_alloc g = heap_alloc f \<and> uninit g = uninit f \<and>
     length (memory_pending g) = length (memory_pending f)"

lemma port_frame_refl [simp]: "port_frame f f"
  by (simp add: port_frame_def)

lemma port_frame_trans: "port_frame f g \<Longrightarrow> port_frame g h \<Longrightarrow> port_frame f h"
  by (simp add: port_frame_def)

lemma port_frame_wf: "port_frame f g \<Longrightarrow> wf_framework f \<Longrightarrow> wf_framework g"
  by (simp add: port_frame_def wf_framework_def)

lemma memory_add_pending_port_frame:
  "port_frame f (snd (memory_add_pending f a s op))"
  by (simp add: port_frame_def memory_add_pending_def Let_def split_beta)

lemma memory_dump_length:
  "memory_dump f (Some v) a s = Inr (d, r) \<Longrightarrow> \<exists>v'. r = Some v' \<and> length v' = length v"
  by (auto simp: memory_dump_def dest: buf_put_length split: if_splits sum.splits)

lemma memory_read_frame:
  assumes "memory_read f a v s = Inr (d, v', g)"
  shows "port_frame f g \<and> riscv_mem g = riscv_mem f \<and> length v' = length v"
proof -
  have "port_frame f f1 \<Longrightarrow> port_frame f (snd (memory_add_pending f1 a s op))" for f1 op
    using port_frame_trans memory_add_pending_port_frame by blast
  moreover have "port_frame f (f\<lparr>read_counter := x, read_bytes := y, memory_accesses_issued := z\<rparr>)"
    for x y z by (simp add: port_frame_def)
  ultimately show ?thesis
    using assms
    by (auto simp: memory_read_def Let_def split_beta dest!: memory_dump_length
        dest: buf_put_length split: if_splits sum.splits)
qed

lemma memory_status_frame:
  assumes "memory_status f a (Some v) = Inr (d, r, g)"
  shows "port_frame f g \<and> riscv_mem g = riscv_mem f \<and> (\<exists>v'. r = Some v' \<and> length v' = length v)"
  using assms
  by (auto simp: memory_status_def port_frame_def Let_def dest!: memory_dump_length
      split: option.splits if_splits sum.splits)

lemma memory_status_null_frame:
  assumes "memory_status f a None = Inr (d, r, g)"
  shows "port_frame f g \<and> riscv_mem g = riscv_mem f"
  using assms
  by (auto simp: memory_status_def port_frame_def Let_def split: option.splits if_splits sum.splits)

lemma memory_write_port_frame:
  assumes "memory_write f a w s = Inr (d, g)"
  shows "port_frame f g"
proof -
  have "port_frame f f1 \<Longrightarrow> port_frame f (snd (memory_add_pending f1 a s op))" for f1 op
    using port_frame_trans memory_add_pending_port_frame by blast
  moreover have "port_frame f (f\<lparr>memory_accesses_issued := x, riscv_mem := m,
      write_counter := y, write_bytes := z\<rparr>)" for x y z m
    by (simp add: port_frame_def)
  ultimately show ?thesis
    using assms
    by (auto simp: memory_write_def memory_load_def Let_def split: if_splits sum.splits)
qed

text \<open>
  The pipeline starts each stage of a cycle with the access bit of that stage clear:
  \<open>next_stage st f\<close> is \<open>f\<close> at the start of stage \<open>st\<close> of the following cycle.
\<close>

definition next_stage :: "u64 \<Rightarrow> framework \<Rightarrow> framework" where
  "next_stage st f = (memory_retire_completed f)\<lparr>current_stage := st\<rparr>"

lemma may_read_next_stage [simp]:
  "st \<in> {STAGE_F_BIT, STAGE_M_BIT} \<Longrightarrow> may_read (next_stage st f)"
  by (simp add: next_stage_def may_read_def port_free_def memory_retire_completed_def)

lemma proper_cong:
  "riscv_mem_size f = riscv_mem_size g \<Longrightarrow> proper f a s = proper g a s"
  by (simp add: proper_def in_block_def)

lemma next_stage_frame [simp]:
  "riscv_mem (next_stage st f) = riscv_mem f"
  "riscv_mem_size (next_stage st f) = riscv_mem_size f"
  "memory_read_latency (next_stage st f) = memory_read_latency f"
  by (simp_all add: next_stage_def memory_retire_completed_def)

text \<open>
  Property C12: with a read latency of 0, a value written through the port, by a proper write of at
  most 8 bytes that the port accepts in this cycle, is read back through the port in the next cycle,
  by the fetch and by the memory stage, for every size, whatever the write latency: even while the
  write is still counted as pending.
\<close>
theorem memory_write_then_read:
  assumes "proper f a s" "s \<noteq> 16" "may_write f" "memory_read_latency f = 0"
    and "unat s \<le> length v" "st \<in> {STAGE_F_BIT, STAGE_M_BIT}"
  shows "\<exists>f1 f2. memory_write f a w s = Inr (memory_write_latency f = 0, f1) \<and>
    memory_read (next_stage st f1) a v s =
      Inr (True, le_bytes (unat s) w @ drop (unat s) v, f2)"
proof -
  define f1 where "f1 = (if memory_write_latency f = 0 then write_issued f a w s
     else snd (memory_add_pending (write_issued f a w s) a s MEMORY_OP_WRITE))"
  have wr: "memory_write f a w s = Inr (memory_write_latency f = 0, f1)"
    using assms by (simp add: memory_write_now f1_def)
  have mem: "riscv_mem f1 = store_bytes (riscv_mem f) a (le_bytes (unat s) w)"
    and sz: "riscv_mem_size f1 = riscv_mem_size f"
    and lat: "memory_read_latency f1 = 0"
    using assms(4) by (simp_all add: f1_def write_issued_def memory_add_pending_def Let_def split_beta)
  have "proper (next_stage st f1) a s"
    using assms(1) sz proper_cong [of "next_stage st f1" f] by simp
  moreover have "fetch_bytes (riscv_mem f1) a (unat s) = le_bytes (unat s) w"
    using block.fetch_store_same [of "le_bytes (unat s) w" "riscv_mem f" a] by (simp add: mem)
  ultimately have "memory_read (next_stage st f1) a v s =
      Inr (True, le_bytes (unat s) w @ drop (unat s) v, read_issued (next_stage st f1) s)"
    using assms lat by (simp add: memory_read_now)
  with wr show ?thesis by blast
qed

text \<open>A framework with all static variables zero, 8 MB of memory, and an allocator that succeeds.\<close>

definition boot_framework :: framework where
  "boot_framework =
     \<lparr>riscv_mem = (\<lambda>_. 0), riscv_mem_size = 8388608, program_counter = 0, ptbr = 0,
      memory_read_latency = 0, memory_write_latency = 0, cycle_counter = 0, read_counter = 0,
      read_bytes = 0, write_counter = 0, write_bytes = 0,
      memory_pending = replicate MEMORY_MAX_PENDING empty_pending, current_stage = 0,
      memory_accesses_issued = 0, register_file = replicate 32 0, register_cycle_reads = 0,
      register_cycle_writes = 0, heap_alloc = (\<lambda>_. True), uninit = (\<lambda>_ _. 0)\<rparr>"

lemma wf_boot_framework: "wf_framework boot_framework"
  by (simp add: wf_framework_def boot_framework_def fw_defs)

theorem memory_write_then_read_witness:
  "\<exists>f1 f2. memory_write (boot_framework\<lparr>current_stage := STAGE_M_BIT\<rparr>) 64 0x11223344 4 =
      Inr (True, f1) \<and>
    memory_read (next_stage STAGE_F_BIT f1) 64 [9, 9, 9, 9, 9] 4 =
      Inr (True, [0x44, 0x33, 0x22, 0x11, 9], f2)"
proof -
  let ?f = "boot_framework\<lparr>current_stage := STAGE_M_BIT\<rparr>"
  have "proper ?f 64 4" "may_write ?f" "memory_read_latency ?f = 0" "memory_write_latency ?f = 0"
    by (simp_all add: proper_def in_block_def may_write_def port_free_def boot_framework_def)
  moreover have "le_bytes 4 (0x11223344 :: u64) = [0x44, 0x33, 0x22, 0x11]"
    by (simp add: le_bytes_def upt_rec)
  ultimately show ?thesis
    using memory_write_then_read [of ?f 64 4 "[9, 9, 9, 9, 9]" STAGE_F_BIT "0x11223344"]
    by simp
qed

lemma memory_read_accepted:
  assumes "memory_read f a v s = Inr (d, v', f1)" "f1 \<noteq> f"
  shows "current_stage f1 = current_stage f" "memory_accesses_issued f1 AND current_stage f1 \<noteq> 0"
  using assms
  by (auto simp: memory_read_def Let_def memory_add_pending_def split_beta
      split: if_splits sum.splits)

lemma memory_write_accepted:
  assumes "memory_write f a v s = Inr (d, f1)" "f1 \<noteq> f"
  shows "current_stage f1 = current_stage f" "memory_accesses_issued f1 AND current_stage f1 \<noteq> 0"
  using assms
  by (auto simp: memory_write_def memory_load_def Let_def memory_add_pending_def split_beta
      split: if_splits sum.splits)

text \<open>
  Property C30: one access per stage. Once the port has accepted a read or a write, every further
  access of the same stage completes at once and leaves the memory, the counters and the
  pending table as they are.
\<close>
theorem one_access_per_stage:
  assumes "memory_read f a v s = Inr (d, v', f1) \<or> memory_write f a w s = Inr (d, f1)"
    and "f1 \<noteq> f"
  shows "memory_write f1 b x t = Inr (True, f1) \<and>
    (\<forall>u e u' f2. memory_read f1 b u t = Inr (e, u', f2) \<longrightarrow> e \<and> f2 = f1)"
proof -
  from assms have "memory_accesses_issued f1 AND current_stage f1 \<noteq> 0"
    using memory_read_accepted memory_write_accepted by metis
  then show ?thesis
    by (auto simp: memory_write_def memory_read_def split: if_splits sum.splits)
qed

theorem one_access_per_stage_witness:
  "\<exists>f1. memory_write (boot_framework\<lparr>current_stage := STAGE_M_BIT\<rparr>) 8 5 8 = Inr (True, f1) \<and>
    memory_write f1 16 7 8 = Inr (True, f1)"
proof -
  let ?f = "boot_framework\<lparr>current_stage := STAGE_M_BIT\<rparr>"
  let ?f1 = "write_issued ?f 8 5 8"
  have w: "memory_write ?f 8 5 8 = Inr (True, ?f1)"
    by (subst memory_write_now)
      (simp_all add: proper_def in_block_def may_write_def port_free_def boot_framework_def)
  have "write_counter ?f1 \<noteq> write_counter ?f"
    by (simp add: write_issued_def boot_framework_def)
  then have "?f1 \<noteq> ?f" by metis
  then show ?thesis
    using w one_access_per_stage [of ?f 8 undefined 8 True undefined ?f1 5 16 7 8] by blast
qed

text \<open>
  A write changes no byte outside the range it names, whatever the port answers,
  and nothing of the register file or the program counter.
\<close>
lemma memory_write_frame:
  assumes "memory_write f a w s = Inr (d, f1)"
    and "\<not> (unat a \<le> unat x \<and> unat x < unat a + unat s)"
  shows "riscv_mem f1 x = riscv_mem f x \<and> register_file f1 = register_file f \<and>
    program_counter f1 = program_counter f"
proof -
  have "\<not> unat (x - a) < unat s" if "in_block f a s"
  proof -
    from that have "unat a + unat s < 2 ^ 64"
      by (auto simp: in_block_def intro: order_le_less_trans [OF _ unat_u64_less])
    with assms(2) show ?thesis
      using unat_sub_if_size [of x a] by (auto simp: word_size)
  qed
  with assms(1) show ?thesis
    by (auto simp: memory_write_def memory_load_def Let_def memory_add_pending_def split_beta
        store_bytes_def in_block_def split: if_splits)
qed

lemma memory_write_frame_example:
  "\<exists>f1. memory_write (boot_framework\<lparr>current_stage := STAGE_M_BIT\<rparr>) 8 5 8 = Inr (True, f1) \<and>
    riscv_mem f1 16 = 0"
proof -
  let ?f = "boot_framework\<lparr>current_stage := STAGE_M_BIT\<rparr>"
  let ?f1 = "write_issued ?f 8 5 8"
  have w: "memory_write ?f 8 5 8 = Inr (True, ?f1)"
    by (subst memory_write_now)
      (simp_all add: proper_def in_block_def may_write_def port_free_def boot_framework_def)
  have "riscv_mem ?f 16 = 0" by (simp add: boot_framework_def)
  with w show ?thesis
    using memory_write_frame [OF w, of 16] by (intro exI [of _ ?f1]) simp
qed

text \<open>The slot a read with a latency takes, the only one with its address.\<close>

lemma read_slot:
  fixes s :: u64
  assumes "length (memory_pending f) = MEMORY_MAX_PENDING"
    and "\<exists>q \<in> set (memory_pending f). pnd_op q = MEMORY_OP_NONE" "pending_slot f a = None"
  defines "p \<equiv> \<lparr>pnd_address = a, pnd_n_bytes = s,
      pnd_end_cycle = cycle_counter f + memory_read_latency f, pnd_op = MEMORY_OP_READ\<rparr>"
  obtains f1 i where "memory_add_pending (read_issued f s) a s MEMORY_OP_READ = (True, f1)"
    "i < length (memory_pending f)" "memory_pending f1 = (memory_pending f)[i := p]"
    "riscv_mem f1 = riscv_mem f" "riscv_mem_size f1 = riscv_mem_size f"
    "\<And>c. pending_slot (f1\<lparr>cycle_counter := c\<rparr>) a = Some i"
    "map (\<lambda>p. if pnd_address p = a then p\<lparr>pnd_op := MEMORY_OP_COMPLETED\<rparr> else p) (memory_pending f1) =
       (memory_pending f1)[i := p\<lparr>pnd_op := MEMORY_OP_COMPLETED\<rparr>]"
proof -
  let ?g = "read_issued f s"
  have g: "memory_pending ?g = memory_pending f" "cycle_counter ?g = cycle_counter f"
    "memory_read_latency ?g = memory_read_latency f" "pending_slot ?g a = None"
    using assms(3) by (simp_all add: read_issued_def pending_slot_def)
  obtain i where i: "i < MEMORY_MAX_PENDING"
    and add: "memory_add_pending ?g a s MEMORY_OP_READ = (True, ?g\<lparr>memory_pending := (memory_pending f)[i := p]\<rparr>)"
    and slot: "\<And>f'. memory_pending f' =
        memory_pending (snd (memory_add_pending ?g a s MEMORY_OP_READ)) \<Longrightarrow>
      pending_slot f' a = Some i"
    using memory_add_pending_slot [of ?g a s MEMORY_OP_READ] assms(1,2) g by (auto simp: p_def)
  have len: "i < length (memory_pending f)" using i assms(1) by simp
  have "pnd_address (memory_pending f ! j) \<noteq> a" if "j < length (memory_pending f)" for j
    using that assms(1,3) by (auto simp: pending_slot_None all_set_conv_all_nth)
  then have "map (\<lambda>p. if pnd_address p = a then p\<lparr>pnd_op := MEMORY_OP_COMPLETED\<rparr> else p)
      ((memory_pending f)[i := p]) = (memory_pending f)[i := p\<lparr>pnd_op := MEMORY_OP_COMPLETED\<rparr>]"
    using len by (auto simp: p_def nth_list_update intro!: nth_equalityI)
  with that [OF add len] slot add show thesis by (simp add: read_issued_def)
qed

text \<open>
  Property C26: a read with a latency. Let the table of pending accesses have a free slot and no slot
  with the address of the read (with a full table the read is lost, and an older slot of the address is
  found first). A proper read that the port accepts is answered with \<open>false\<close> when it is issued; until the
  latency has passed \<open>memory_status\<close> keeps answering \<open>false\<close> and changes nothing, and from then
  on it answers \<open>true\<close> and delivers the bytes of memory.
\<close>
theorem memory_read_latency_served:
  assumes "proper f a s" "may_read f" "memory_read_latency f \<noteq> 0" "unat s \<le> length v"
    and "length (memory_pending f) = MEMORY_MAX_PENDING"
    and "\<exists>q \<in> set (memory_pending f). pnd_op q = MEMORY_OP_NONE"
    and "pending_slot f a = None" and "unat s \<le> length v2"
  shows "\<exists>v1 f1. memory_read f a v s = Inr (False, v1, f1) \<and>
    (\<forall>c. memory_status (f1\<lparr>cycle_counter := c\<rparr>) a (Some v2) =
       (if cycle_counter f + memory_read_latency f \<le> c
        then Inr (True, Some (fetch_bytes (riscv_mem f) a (unat s) @ drop (unat s) v2),
               f1\<lparr>cycle_counter := c, memory_pending := map
                    (\<lambda>p. if pnd_address p = a then p\<lparr>pnd_op := MEMORY_OP_COMPLETED\<rparr> else p)
                    (memory_pending f1)\<rparr>)
        else Inr (False, Some v2, f1\<lparr>cycle_counter := c\<rparr>)))"
proof -
  obtain f1 i where add: "memory_add_pending (read_issued f s) a s MEMORY_OP_READ = (True, f1)"
    and len: "i < length (memory_pending f)"
    and pend: "memory_pending f1 = (memory_pending f)[i := \<lparr>pnd_address = a, pnd_n_bytes = s,
      pnd_end_cycle = cycle_counter f + memory_read_latency f, pnd_op = MEMORY_OP_READ\<rparr>]"
    and mem: "riscv_mem f1 = riscv_mem f" "riscv_mem_size f1 = riscv_mem_size f"
    and slot: "\<And>c. pending_slot (f1\<lparr>cycle_counter := c\<rparr>) a = Some i"
    and retire: "map (\<lambda>p. if pnd_address p = a then p\<lparr>pnd_op := MEMORY_OP_COMPLETED\<rparr> else p)
      (memory_pending f1) = (memory_pending f1)[i := \<lparr>pnd_address = a, pnd_n_bytes = s,
        pnd_end_cycle = cycle_counter f + memory_read_latency f, pnd_op = MEMORY_OP_READ\<rparr>
          \<lparr>pnd_op := MEMORY_OP_COMPLETED\<rparr>]"
    by (rule read_slot [OF assms(5-7), of s], rule that)
  have "in_block f1 a s" using assms(1) mem by (simp add: proper_def in_block_def)
  then have "memory_status (f1\<lparr>cycle_counter := c\<rparr>) a (Some v2) =
     (if cycle_counter f + memory_read_latency f \<le> c
      then Inr (True, Some (fetch_bytes (riscv_mem f) a (unat s) @ drop (unat s) v2),
             f1\<lparr>cycle_counter := c, memory_pending := map
                  (\<lambda>p. if pnd_address p = a then p\<lparr>pnd_op := MEMORY_OP_COMPLETED\<rparr> else p)
                  (memory_pending f1)\<rparr>)
      else Inr (False, Some v2, f1\<lparr>cycle_counter := c\<rparr>))" for c
    using memory_status_read_done [of "f1\<lparr>cycle_counter := c\<rparr>" a i s v2]
      memory_status_waiting [of "f1\<lparr>cycle_counter := c\<rparr>" a i] assms(8) slot len mem
    unfolding retire by (simp add: pend in_block_def)
  moreover have "memory_read f a v s = Inr (False, replicate (unat s) 0 @ drop (unat s) v, f1)"
    using assms add by (simp add: memory_read_later)
  ultimately show ?thesis by blast
qed

theorem memory_read_latency_served_witness:
  "\<exists>v1 f1. memory_read (boot_framework\<lparr>current_stage := STAGE_F_BIT, memory_read_latency := 3\<rparr>)
      16 [0, 0, 0, 0] 4 = Inr (False, v1, f1) \<and>
    memory_status (f1\<lparr>cycle_counter := 2\<rparr>) 16 (Some [1, 1, 1, 1]) =
      Inr (False, Some [1, 1, 1, 1], f1\<lparr>cycle_counter := 2\<rparr>)"
proof -
  let ?f = "boot_framework\<lparr>current_stage := STAGE_F_BIT, memory_read_latency := 3\<rparr>"
  have "proper ?f 16 4" "may_read ?f" "memory_read_latency ?f \<noteq> 0"
    "length (memory_pending ?f) = MEMORY_MAX_PENDING"
    "\<exists>q \<in> set (memory_pending ?f). pnd_op q = MEMORY_OP_NONE" "pending_slot ?f 16 = None"
    by (simp_all add: proper_def in_block_def may_read_def port_free_def boot_framework_def
        fw_defs empty_pending_def pending_slot_def upt_rec)
  then show ?thesis
    using memory_read_latency_served [of ?f 16 4 "[0, 0, 0, 0]" "[1, 1, 1, 1]"]
    by (auto simp: boot_framework_def)
qed

text \<open>
  The bounds test of the port adds in 64 bits. The only proper size and address that pass it
  without lying in the block are those where the sum wraps to 0.
\<close>

lemma aligned_at_top:
  fixes n k :: nat
  assumes "k \<in> {1, 2, 4, 8, 16}" "n < 2 ^ 64" "2 ^ 64 \<le> n + k" "n mod k = 0"
  shows "n + k = 2 ^ 64"
proof -
  from assms(1) consider "k = 1" | "k = 2" | "k = 4" | "k = 8" | "k = 16"
    by auto
  then show ?thesis
    by (cases; use assms(2-4) in \<open>simp; presburger\<close>)
qed

lemma wrapped_access:
  assumes "s \<in> {1, 2, 4, 8, 16}" "riscv_mem_size f < 2 ^ 63"
  shows "a mod s = 0 \<and> a + s \<le> riscv_mem_size f \<and> \<not> in_block f a s \<longleftrightarrow> a = - s"
proof
  assume l: "a mod s = 0 \<and> a + s \<le> riscv_mem_size f \<and> \<not> in_block f a s"
  then have "2 ^ 64 \<le> unat a + unat s"
    by (auto simp: in_block_iff_no_wrap)
  moreover have "unat a mod unat s = 0"
    using l by (metis unat_mod unat_0)
  ultimately have "unat a + unat s = 2 ^ 64"
    using assms(1) by (intro aligned_at_top) auto
  then have "a + s = 0"
    by (simp add: word_unat_eq_iff unat_word_ariths)
  then show "a = - s" by (simp add: eq_neg_iff_add_eq_0)
next
  assume "a = - s"
  moreover have "- s mod s = 0"
    using assms(1) by auto
  moreover have "unat (riscv_mem_size f) < 2 ^ 63"
    using assms(2) by (simp add: word_less_nat_alt)
  with assms(1) have "\<not> in_block f (- s) s"
    by (auto simp: in_block_def unsigned_minus_1_eq_mask mask_eq_exp_minus_1)
  ultimately show "a mod s = 0 \<and> a + s \<le> riscv_mem_size f \<and> \<not> in_block f a s"
    by simp
qed

text \<open>
  Property C31: memory safety of the port. With a buffer as large as the access, a read leaves
  the memory block only when its address and size add up to \<open>2 ^ 64\<close>; for every other address,
  in particular every 32-bit physical address the caches and the TLB produce, it never does.
\<close>
theorem memory_read_fault_iff:
  assumes "wf_framework f" "v \<noteq> []" "unat s \<le> length v"
  shows "(\<exists>e. memory_read f a v s = Inl e) \<longleftrightarrow>
    s \<in> {1, 2, 4, 8, 16} \<and> a = - s \<and> current_stage f AND (STAGE_F_BIT OR STAGE_M_BIT) \<noteq> 0 \<and>
    memory_accesses_issued f AND current_stage f = 0 \<and> memory_read_latency f = 0"
proof -
  have size: "riscv_mem_size f < 2 ^ 63"
    using assms(1) by (auto simp: wf_framework_def fw_defs intro: order_le_less_trans)
  have "buf_put v [0] \<noteq> Inl e" "buf_put v (replicate (unat s) 0) \<noteq> Inl e"
    "buf_put v (fetch_bytes m a (unat s)) \<noteq> Inl e" for e m
    using assms(2,3) by (auto simp: buf_put_ok Suc_le_eq)
  then have "(\<exists>e. memory_read f a v s = Inl e) \<longleftrightarrow>
    (s \<le> MEMORY_MAX_READ_BYTES \<and> popcountll s = 1 \<and> a + s \<le> riscv_mem_size f \<and> a mod s = 0) \<and>
    \<not> in_block f a s \<and> current_stage f AND (STAGE_F_BIT OR STAGE_M_BIT) \<noteq> 0 \<and>
    memory_accesses_issued f AND current_stage f = 0 \<and> memory_read_latency f = 0"
    by (auto simp: memory_read_def memory_dump_def in_block_def Let_def split_beta
        split: sum.splits if_splits del: mod_0_imp_dvd)
  moreover have "s \<le> MEMORY_MAX_READ_BYTES \<and> popcountll s = 1 \<longleftrightarrow> s \<in> {1, 2, 4, 8, 16}"
    using popcountll_le_16 [of s] by (auto simp: MEMORY_MAX_READ_BYTES_def)
  ultimately show ?thesis
    using wrapped_access [OF _ size, of s a] by argo
qed

theorem memory_read_fault_iff_witness:
  "memory_read (boot_framework\<lparr>current_stage := STAGE_F_BIT\<rparr>) 0x1000 (replicate 16 0) 16 \<noteq>
     Inl OutOfBounds \<and>
   (\<exists>e. memory_read (boot_framework\<lparr>current_stage := STAGE_F_BIT\<rparr>) (- 16) (replicate 16 0) 16 =
     Inl e)"
proof -
  let ?f = "boot_framework\<lparr>current_stage := STAGE_F_BIT\<rparr>"
  have wf: "wf_framework ?f"
    using wf_boot_framework by (simp add: wf_framework_def)
  show ?thesis
    using memory_read_fault_iff [OF wf, of "replicate 16 0" 16 "0x1000"]
      memory_read_fault_iff [OF wf, of "replicate 16 0" 16 "- 16"]
    by (auto simp: fw_defs boot_framework_def)
qed

end
