(* ===== verification/Register_File.thy ===== *)
theory Register_File
  imports Framework_Memory
begin

text \<open>
  The register file of \<open>src/src/riscv_sim_framework.c\<close>: 32 registers of 64 bits, addressed
  modulo 32, register 0 reading as zero. The interface \<open>register_bank\<close> is what the pipeline
  relies on; its lemmas about sequences of writes are used by the forwarding theorem.
\<close>

definition RISCV_NUM_REGISTERS :: u64 where [fw_defs]: "RISCV_NUM_REGISTERS = 32"

definition register_read_one :: "framework \<Rightarrow> u64 \<Rightarrow> u64" where
  "register_read_one f r =
     (let r = r mod RISCV_NUM_REGISTERS in if r > 0 then register_file f ! unat r else 0)"

definition register_read :: "framework \<Rightarrow> u64 \<Rightarrow> u64 \<Rightarrow> u64 \<times> u64" where
  "register_read f register_a register_b =
     (if register_cycle_reads f > 1 then (0, 0)
      else (register_read_one f register_a, register_read_one f register_b))"

definition register_write :: "framework \<Rightarrow> u64 \<Rightarrow> u64 \<Rightarrow> framework" where
  "register_write f register_d value_d =
     (if register_cycle_writes f > 1 then f
      else f\<lparr>register_file :=
               (register_file f)[unat (register_d mod RISCV_NUM_REGISTERS) := value_d]\<rparr>)"

definition register_reset_cycle :: "framework \<Rightarrow> framework" where
  "register_reset_cycle f = f\<lparr>register_cycle_reads := 0, register_cycle_writes := 0\<rparr>"

section \<open>The register bank interface\<close>

locale register_bank =
  fixes rd :: "'s \<Rightarrow> u64 \<Rightarrow> u64"
    and wr :: "'s \<Rightarrow> u64 \<Rightarrow> u64 \<Rightarrow> 's"
    and invar :: "'s \<Rightarrow> bool"
  assumes rd_zero: "r mod 32 = 0 \<Longrightarrow> rd s r = 0"
    and rd_wr_same: "invar s \<Longrightarrow> r mod 32 = d mod 32 \<Longrightarrow> r mod 32 \<noteq> 0 \<Longrightarrow> rd (wr s d v) r = v"
    and rd_wr_other: "r mod 32 \<noteq> d mod 32 \<Longrightarrow> rd (wr s d v) r = rd s r"
    and invar_wr: "invar s \<Longrightarrow> invar (wr s d v)"
begin

lemma rd_wr:
  "invar s \<Longrightarrow> rd (wr s d v) r = (if r mod 32 = d mod 32 \<and> r mod 32 \<noteq> 0 then v else rd s r)"
  by (cases "r mod 32 = 0"; cases "r mod 32 = d mod 32") (simp_all only: rd_zero rd_wr_same rd_wr_other simp_thms if_True if_False not_False_eq_True)

lemma invar_writes: "invar s \<Longrightarrow> invar (foldl (\<lambda>s (d, v). wr s d v) s ws)"
  by (induction ws arbitrary: s) (auto intro: invar_wr)

lemma rd_writes:
  assumes "invar s"
  shows "rd (foldl (\<lambda>s (d, v). wr s d v) s ws) r =
    (if r mod 32 = 0 then 0
     else case map_of (rev (map (\<lambda>(d, v). (d mod 32, v)) ws)) (r mod 32) of Some v \<Rightarrow> v | None \<Rightarrow> rd s r)"
proof (cases "r mod 32 = 0")
  case True
  then show ?thesis by (simp add: rd_zero)
next
  case False
  show ?thesis
  proof (induction ws rule: rev_induct)
    case Nil
    then show ?case using False by simp
  next
    case (snoc dv ws)
    obtain d v where "dv = (d, v)" by (cases dv)
    with snoc False show ?case by (simp add: rd_wr [OF invar_writes [OF assms]])
  qed
qed

end

definition regs_usable :: "framework \<Rightarrow> bool" where
  "regs_usable f \<longleftrightarrow> length (register_file f) = 32 \<and> register_cycle_writes f \<le> 1"

interpretation regs: register_bank register_read_one register_write regs_usable
proof
  have lt: "unat (r mod 32) < 32" for r :: u64
    by (simp add: unat_mod)
  show "register_read_one s r = 0" if "r mod 32 = 0" for r s
    using that by (simp add: register_read_one_def RISCV_NUM_REGISTERS_def)
  show "register_read_one (register_write s d v) r = v"
    if "regs_usable s" "r mod 32 = d mod 32" "r mod 32 \<noteq> 0" for s r d v
    using that lt [of d]
    by (auto simp: register_read_one_def register_write_def regs_usable_def
        RISCV_NUM_REGISTERS_def Let_def word_gt_0 simp del: mod_0_imp_dvd)
  show "register_read_one (register_write s d v) r = register_read_one s r"
    if "r mod 32 \<noteq> d mod 32" for r d s v
    using that
    by (auto simp: register_read_one_def register_write_def RISCV_NUM_REGISTERS_def Let_def
        nth_list_update word_unat_eq_iff)
  show "regs_usable (register_write s d v)" if "regs_usable s" for s d v
    using that by (simp add: regs_usable_def register_write_def)
qed

section \<open>Properties\<close>

text \<open>The value of the last write to a register, and zero for register 0.\<close>

definition last_written :: "u64 list \<Rightarrow> (u64 \<times> u64) list \<Rightarrow> u64 \<Rightarrow> u64" where
  "last_written old ws r =
     (if r mod 32 = 0 then 0
      else case map_of (rev (map (\<lambda>(d, v). (d mod 32, v)) ws)) (r mod 32) of
             Some v \<Rightarrow> v
           | None \<Rightarrow> old ! unat (r mod 32))"

text \<open>
  Property C28: the register file. In a cycle in which the counters do not refuse reads and writes,
  after any sequence of writes each of the two ports of a read returns, for any register number
  modulo 32, the value of the last write to it, what the register held before if there was none, and
  zero for register 0 even when register 0 has been written.
\<close>
theorem register_read_after_writes:
  assumes "regs_usable f" "register_cycle_reads f \<le> 1"
  shows "register_read (foldl (\<lambda>f (d, v). register_write f d v) f ws) a b =
    (last_written (register_file f) ws a, last_written (register_file f) ws b)"
proof -
  have "register_cycle_reads (foldl (\<lambda>f (d, v). register_write f d v) g xs) =
      register_cycle_reads g" for g xs
    by (induction xs arbitrary: g) (auto simp: register_write_def)
  moreover have "register_read_one (foldl (\<lambda>f (d, v). register_write f d v) f ws) r =
      last_written (register_file f) ws r" for r
    unfolding regs.rd_writes [OF assms(1)] last_written_def
    by (simp add: register_read_one_def RISCV_NUM_REGISTERS_def word_gt_0 split: option.splits)
  ultimately show ?thesis using assms(2) by (auto simp: register_read_def dest: leD)
qed

theorem register_read_after_writes_witness:
  "register_read (foldl (\<lambda>f (d, v). register_write f d v) boot_framework [(5, 7), (37, 9), (0, 3), (6, 1)])
     5 6 = (9, 1) \<and>
   register_read (foldl (\<lambda>f (d, v). register_write f d v) boot_framework [(5, 7), (37, 9), (0, 3), (6, 1)])
     32 5 = (0, 9)"
proof -
  have "regs_usable boot_framework" "register_cycle_reads boot_framework \<le> 1"
    by (simp_all add: regs_usable_def boot_framework_def)
  note read = register_read_after_writes [OF this]
  show ?thesis unfolding read by (simp add: last_written_def)
qed

end
