(* ===== verification/Branch_Predictor.thy ===== *)
theory Branch_Predictor
  imports Prelude
begin

text \<open>
  The branch target buffer of \<open>src/src/branch_predictor.c\<close>: 32 entries, each with the address
  of a branch, its target and a two-bit history counter.
\<close>

record branch_information_entry =
  branch_address :: u64
  target_address :: u64
  bht :: u8

type_synonym branch_table = "branch_information_entry list"

definition t_index :: "u64 \<Rightarrow> u8" where
  "t_index a = ucast a AND 31"

definition update_bht :: "branch_table \<Rightarrow> bool \<Rightarrow> u8 \<Rightarrow> branch_table" where
  "update_bht bt t_bht i =
     (let e = bt ! unat i in
      if t_bht \<and> bht e < 3 then bt[unat i := e\<lparr>bht := bht e + 1\<rparr>]
      else if \<not> t_bht \<and> bht e > 0 then bt[unat i := e\<lparr>bht := bht e - 1\<rparr>]
      else bt)"

definition predict_address :: "branch_table \<Rightarrow> u64 \<Rightarrow> u64" where
  "predict_address bt a =
     (let e = bt ! unat (t_index a) in
      if a = branch_address e \<and> bht e > 1 then target_address e else a + 4)"

definition predict_address_BTFNT :: "branch_table \<Rightarrow> u64 \<Rightarrow> u64" where
  "predict_address_BTFNT bt a =
     (let e = bt ! unat (t_index a) in
      if branch_address e = a \<and> target_address e > a + 4 then target_address e else a + 4)"

definition update_entry :: "branch_table \<Rightarrow> u64 \<Rightarrow> u64 \<Rightarrow> bool \<Rightarrow> branch_table" where
  "update_entry bt new_address new_target t_bht =
     (let i = t_index new_target in
      if branch_address (bt ! unat i) = new_target then update_bht bt t_bht i
      else bt[unat i := \<lparr>branch_address = new_address, target_address = new_target,
                         bht = (if new_address + 4 > new_target then 3 else 0)\<rparr>])"

definition empty_entry :: branch_information_entry where
  "empty_entry = \<lparr>branch_address = 0, target_address = 0, bht = 0\<rparr>"

definition empty_branch_table :: branch_table where
  "empty_branch_table = replicate 32 empty_entry"

section \<open>The table invariant\<close>

definition wf_branch_table :: "branch_table \<Rightarrow> bool" where
  "wf_branch_table bt \<longleftrightarrow> length bt = 32 \<and> (\<forall>e \<in> set bt. bht e \<le> 3)"

lemma t_index_less [simp]: "unat (t_index a) < 32"
proof -
  have "t_index a \<le> 31"
    by (simp add: t_index_def word_and_le1)
  then show ?thesis by (simp add: word_le_nat_alt)
qed

lemma wf_empty_branch_table: "wf_branch_table empty_branch_table"
  by (simp add: wf_branch_table_def empty_branch_table_def empty_entry_def)

lemma wf_entry: "wf_branch_table bt \<Longrightarrow> bht (bt ! unat (t_index a)) \<le> 3"
  by (auto simp: wf_branch_table_def)

lemma wf_update:
  "wf_branch_table bt \<Longrightarrow> bht e \<le> 3 \<Longrightarrow> wf_branch_table (bt[i := e])"
  by (auto simp: wf_branch_table_def dest!: set_update_subset_insert [THEN subsetD])

lemma bht_step:
  fixes b :: u8
  shows "b < 3 \<Longrightarrow> b + 1 \<le> 3" "b \<le> 3 \<Longrightarrow> 0 < b \<Longrightarrow> b - 1 \<le> 3"
  by unat_arith+

lemma wf_update_bht: "wf_branch_table bt \<Longrightarrow> wf_branch_table (update_bht bt t (t_index a))"
  using wf_entry [of bt a] by (auto simp: update_bht_def Let_def bht_step intro!: wf_update)

lemma wf_update_entry: "wf_branch_table bt \<Longrightarrow> wf_branch_table (update_entry bt a b t)"
  by (auto simp: update_entry_def Let_def intro!: wf_update wf_update_bht)

interpretation btb: run_invariant "\<lambda>(a, b, t) bt. Inr (update_entry bt a b t)" wf_branch_table
  by unfold_locales (auto intro: wf_update_entry)

section \<open>Properties\<close>

text \<open>The two-bit saturating counter that \<open>update_bht\<close> implements.\<close>

definition saturate2 :: "bool \<Rightarrow> nat \<Rightarrow> nat" where
  "saturate2 taken n = (if taken then min 3 (n + 1) else n - 1)"

text \<open>
  \<open>update_bht\<close> refines a saturating two-bit counter: the entry's counter moves one
  step up or down and stays in 0..3, its address and target are kept, and no other entry changes.
\<close>
lemma update_bht_saturates:
  assumes "wf_branch_table bt"
  shows "unat (bht (update_bht bt t (t_index a) ! unat (t_index a))) =
      saturate2 t (unat (bht (bt ! unat (t_index a)))) \<and>
    branch_address (update_bht bt t (t_index a) ! i) = branch_address (bt ! i) \<and>
    target_address (update_bht bt t (t_index a) ! i) = target_address (bt ! i) \<and>
    (i \<noteq> unat (t_index a) \<longrightarrow> update_bht bt t (t_index a) ! i = bt ! i)"
proof -
  let ?e = "bt ! unat (t_index a)"
  have len: "length bt = 32" using assms by (simp add: wf_branch_table_def)
  have "bht ?e \<le> 3" using assms by (rule wf_entry)
  then have "unat (bht ?e) \<le> 3" by (simp add: word_le_nat_alt)
  then have "unat (bht (update_bht bt t (t_index a) ! unat (t_index a))) =
      saturate2 t (unat (bht ?e))"
    using len
    by (auto simp: update_bht_def Let_def saturate2_def word_less_nat_alt unat_word_ariths
        unat_sub_if_size)
  then show ?thesis
    using len by (auto simp: update_bht_def Let_def nth_list_update)
qed

lemma update_bht_saturates_example:
  "unat (bht (update_bht empty_branch_table True (t_index 4) ! unat (t_index 4))) = 1"
  using update_bht_saturates [OF wf_empty_branch_table, of True 4 0]
  by (simp add: empty_branch_table_def empty_entry_def saturate2_def)

definition entry_source :: "branch_information_entry \<Rightarrow> u64 \<times> u64" where
  "entry_source e = (branch_address e, target_address e)"

lemma update_entry_source:
  assumes "e \<in> set (update_entry bt a b t)" "length bt = 32"
  shows "entry_source e = (a, b) \<or> entry_source e \<in> entry_source ` set bt"
proof -
  have "unat (t_index b) < length bt" using assms(2) by simp
  then have mem: "bt ! unat (t_index b) \<in> set bt" by (rule nth_mem)
  have "entry_source e = entry_source (bt ! unat (t_index b)) \<or> e \<in> set bt \<or> entry_source e = (a, b)"
    using assms(1)
    by (auto simp: update_entry_def update_bht_def Let_def entry_source_def split: if_splits
        dest!: set_update_subset_insert [THEN subsetD])
  with mem show ?thesis by auto
qed

lemma run_updates_source:
  assumes "run_steps (\<lambda>(a, b, t) bt. Inr (update_entry bt a b t)) us bt = Inr bt'"
    and "length bt = 32" "e \<in> set bt'"
  shows "entry_source e \<in> entry_source ` set bt \<or> (\<exists>t. (branch_address e, target_address e, t) \<in> set us)"
  using assms
proof (induction us arbitrary: bt)
  case Nil
  then show ?case by simp
next
  case (Cons u us)
  obtain a b t where u: "u = (a, b, t)" by (cases u)
  let ?bt = "update_entry bt a b t"
  have len: "length ?bt = 32"
    using Cons.prems(2) by (simp add: update_entry_def update_bht_def Let_def)
  have "entry_source e \<in> entry_source ` set ?bt \<or>
      (\<exists>t. (branch_address e, target_address e, t) \<in> set us)"
    using Cons.IH [of ?bt] Cons.prems len by (simp add: u)
  then show ?case
  proof
    assume "entry_source e \<in> entry_source ` set ?bt"
    then have "entry_source e = (a, b) \<or> entry_source e \<in> entry_source ` set bt"
      using update_entry_source [OF _ Cons.prems(2)] by fastforce
    then show ?thesis by (auto simp: u entry_source_def)
  qed auto
qed

text \<open>
  Property C32: predictions are never invented. After any sequence of updates from the empty
  table, every counter is at most 3, and a prediction is the next sequential address, or the
  target of an earlier update for that very address (the all-zero entry of the start excepted,
  which can only predict 0 for the address 0).
\<close>
theorem predictions_after_updates:
  assumes "run_steps (\<lambda>(a, b, t) bt. Inr (update_entry bt a b t)) us empty_branch_table = Inr bt"
  shows "wf_branch_table bt \<and>
    (predict_address bt a = a + 4 \<or> (\<exists>t. (a, predict_address bt a, t) \<in> set us) \<or>
     a = 0 \<and> predict_address bt a = 0)"
proof -
  have wf: "wf_branch_table bt"
    using btb.run_inv [OF wf_empty_branch_table assms] .
  let ?e = "bt ! unat (t_index a)"
  have "?e \<in> set bt" using wf by (simp add: wf_branch_table_def)
  then have "entry_source ?e = (0, 0) \<or> (\<exists>t. (branch_address ?e, target_address ?e, t) \<in> set us)"
    using run_updates_source [OF assms, of ?e]
    by (auto simp: empty_branch_table_def empty_entry_def entry_source_def)
  with wf show ?thesis
    by (auto simp: predict_address_def Let_def entry_source_def)
qed

theorem predictions_after_updates_witness:
  "\<exists>bt. run_steps (\<lambda>(a, b, t) bt. Inr (update_entry bt a b t)) [(96, 64, False)]
      empty_branch_table = Inr bt \<and> wf_branch_table bt \<and> predict_address bt 96 = 64"
proof -
  let ?bt = "update_entry empty_branch_table 96 64 False"
  have "run_steps (\<lambda>(a, b, t) bt. Inr (update_entry bt a b t)) [(96, 64, False)]
      empty_branch_table = Inr ?bt"
    by simp
  moreover from this have "wf_branch_table ?bt"
    using predictions_after_updates by blast
  moreover have "predict_address ?bt 96 = 64"
    by (simp add: predict_address_def update_entry_def empty_branch_table_def empty_entry_def
        t_index_def Let_def)
  ultimately show ?thesis by blast
qed

text \<open>
  What the buffer learns. \<open>update_entry\<close> files an entry under the low bits of the
  target, while \<open>predict_address\<close> looks under the low bits of the branch: a taken branch whose
  address and target differ in those five bits leaves every prediction for that branch as it
  was, and one where they agree is predicted taken from then on exactly if it jumps backwards.
\<close>
lemma update_entry_learns:
  assumes "wf_branch_table bt"
  shows "(t_index pc \<noteq> t_index target \<longrightarrow>
      predict_address (update_entry bt pc target t) pc = predict_address bt pc) \<and>
    (t_index pc = t_index target \<and> branch_address (bt ! unat (t_index target)) \<noteq> target \<longrightarrow>
      predict_address (update_entry bt pc target t) pc =
        (if target < pc + 4 then target else pc + 4))"
proof -
  have len: "length bt = 32" using assms by (simp add: wf_branch_table_def)
  have "unat (t_index target) \<noteq> unat (t_index pc)" if "t_index pc \<noteq> t_index target"
    using that by (auto simp: word_unat_eq_iff)
  with len show ?thesis
    by (auto simp: predict_address_def update_entry_def update_bht_def Let_def)
qed

lemma update_entry_learns_example:
  "predict_address (update_entry empty_branch_table 96 64 False) 96 = 64 \<and>
   predict_address (update_entry empty_branch_table 100 64 False) 100 = 104"
proof -
  have eq: "t_index 96 = t_index 64" "branch_address (empty_branch_table ! unat (t_index 64)) \<noteq> 64"
    "(64 :: u64) < 96 + 4"
    by (simp_all add: t_index_def empty_branch_table_def empty_entry_def)
  have ne: "t_index 100 \<noteq> t_index 64" "predict_address empty_branch_table 100 = 104"
    by (simp_all add: t_index_def predict_address_def empty_branch_table_def empty_entry_def Let_def)
  show ?thesis
    using update_entry_learns [OF wf_empty_branch_table, of 96 64 False]
      update_entry_learns [OF wf_empty_branch_table, of 100 64 False] eq ne by simp
qed

end
