(* ===== verification/Riscv_Instruction.thy ===== *)
theory Riscv_Instruction
  imports Prelude
begin

text \<open>
  The instruction word of \<open>src/src/riscv.h\<close>: a 32-bit word and its four packed bit-field views,
  each field at its declared width, and the pipeline registers of
  \<open>src/src/riscv_pipeline_registers.h\<close>.
\<close>

section \<open>Bit-field views\<close>

record riscv_r_instruction_data =
  r_opcode :: "7 word"
  r_rd :: "5 word"
  r_funct3 :: "3 word"
  r_rs1 :: "5 word"
  r_rs2 :: "5 word"
  r_funct7 :: "7 word"

record riscv_i_instruction_data =
  i_opcode :: "7 word"
  i_rd :: "5 word"
  i_funct3 :: "3 word"
  i_rs1 :: "5 word"
  i_imm :: "12 word"

record riscv_s_instruction_data =
  s_opcode :: "7 word"
  s_imm2 :: "5 word"
  s_funct3 :: "3 word"
  s_rs1 :: "5 word"
  s_rs2 :: "5 word"
  s_imm :: "7 word"

record riscv_u_instruction_data =
  u_opcode :: "7 word"
  u_rd :: "5 word"
  u_imm :: "20 word"

type_synonym riscv_instruction = u32

definition data_r :: "riscv_instruction \<Rightarrow> riscv_r_instruction_data" where
  "data_r w = \<lparr>r_opcode = ucast w, r_rd = ucast (drop_bit 7 w), r_funct3 = ucast (drop_bit 12 w),
     r_rs1 = ucast (drop_bit 15 w), r_rs2 = ucast (drop_bit 20 w), r_funct7 = ucast (drop_bit 25 w)\<rparr>"

definition data_i :: "riscv_instruction \<Rightarrow> riscv_i_instruction_data" where
  "data_i w = \<lparr>i_opcode = ucast w, i_rd = ucast (drop_bit 7 w), i_funct3 = ucast (drop_bit 12 w),
     i_rs1 = ucast (drop_bit 15 w), i_imm = ucast (drop_bit 20 w)\<rparr>"

definition data_s :: "riscv_instruction \<Rightarrow> riscv_s_instruction_data" where
  "data_s w = \<lparr>s_opcode = ucast w, s_imm2 = ucast (drop_bit 7 w), s_funct3 = ucast (drop_bit 12 w),
     s_rs1 = ucast (drop_bit 15 w), s_rs2 = ucast (drop_bit 20 w), s_imm = ucast (drop_bit 25 w)\<rparr>"

definition data_u :: "riscv_instruction \<Rightarrow> riscv_u_instruction_data" where
  "data_u w = \<lparr>u_opcode = ucast w, u_rd = ucast (drop_bit 7 w), u_imm = ucast (drop_bit 12 w)\<rparr>"

section \<open>Pipeline registers\<close>

record stage_reg_d =
  d_pc :: u64
  d_new_pc :: u64
  d_instruction :: u32
  d_not_stalled :: u8
  d_will_be_stalled :: u8
  d_tlb_stall_status :: u8

record stage_reg_x =
  x_pc :: u64
  x_new_pc :: u64
  x_instruction :: riscv_instruction
  x_not_stalled :: u8
  x_rs1_value :: u64
  x_rs2_value :: u64
  x_rs1 :: u16
  x_rs2 :: u16
  x_rd :: u16

record stage_reg_m =
  m_address :: u64
  m_size :: u8
  m_readWrite :: u8
  m_signExtend :: u8
  m_reg :: u64
  m_value :: u64
  m_tainted_executions :: u8
  m_wasStalled :: u8
  m_stallStatus :: u8
  m_pc :: u64

record stage_reg_w =
  w_reg :: u64
  w_value :: u64
  w_op :: u8
  w_global_memory_stall :: u8
  w_tlb_stall_status :: u8
  w_tainted_executions :: u8
  w_memory_register :: stage_reg_m

text \<open>The registers after \<open>memset\<close> to zero.\<close>

definition zero_d :: stage_reg_d where
  "zero_d = \<lparr>d_pc = 0, d_new_pc = 0, d_instruction = 0, d_not_stalled = 0, d_will_be_stalled = 0,
     d_tlb_stall_status = 0\<rparr>"

definition zero_x :: stage_reg_x where
  "zero_x = \<lparr>x_pc = 0, x_new_pc = 0, x_instruction = 0, x_not_stalled = 0, x_rs1_value = 0,
     x_rs2_value = 0, x_rs1 = 0, x_rs2 = 0, x_rd = 0\<rparr>"

definition zero_m :: stage_reg_m where
  "zero_m = \<lparr>m_address = 0, m_size = 0, m_readWrite = 0, m_signExtend = 0, m_reg = 0, m_value = 0,
     m_tainted_executions = 0, m_wasStalled = 0, m_stallStatus = 0, m_pc = 0\<rparr>"

definition zero_w :: stage_reg_w where
  "zero_w = \<lparr>w_reg = 0, w_value = 0, w_op = 0, w_global_memory_stall = 0, w_tlb_stall_status = 0,
     w_tainted_executions = 0, w_memory_register = zero_m\<rparr>"

end
