(* ===== verification/Riscv_Handlers.thy ===== *)
theory Riscv_Handlers
  imports Riscv_Instruction
begin

text \<open>
  The instruction handlers and dispatch tables of \<open>src/src/riscv_virtualizer.c\<close>. A handler reads
  the current execute register (the operand values) and the instruction word, and changes the
  next program counter and the new memory register, both in the record \<open>exec_ctx\<close>; the messages
  that \<open>riscv_illegal_instruction\<close> prints are collected there too. Operations that C leaves
  undefined for some operands (signed overflow, shift counts out of range, division by zero)
  are faults for those operands.
\<close>

section \<open>Context\<close>

record exec_ctx =
  ctx_pc :: u64
  ctx_m :: stage_reg_m
  ctx_out :: "(u64 \<times> u32) list"

type_synonym handler = "stage_reg_x \<Rightarrow> riscv_instruction \<Rightarrow> exec_ctx \<Rightarrow> exec_ctx result"

definition riscv_illegal_instruction :: handler where
  "riscv_illegal_instruction x instruction c =
     Inr (c\<lparr>ctx_out := ctx_out c @ [(ctx_pc c - 4, instruction)]\<rparr>)"

definition riscv_nop :: handler where
  "riscv_nop x instruction c = Inr c"

definition prepare_register_write :: "u64 \<Rightarrow> u64 \<Rightarrow> stage_reg_m \<Rightarrow> stage_reg_m" where
  "prepare_register_write r v m = m\<lparr>m_readWrite := 3, m_reg := r, m_value := v\<rparr>"

text \<open>\<open>put_reg\<close> is a call of \<open>prepare_register_write\<close> on the new memory register.\<close>

definition put_reg :: "u64 \<Rightarrow> u64 \<Rightarrow> exec_ctx \<Rightarrow> exec_ctx" where
  "put_reg r v c = c\<lparr>ctx_m := prepare_register_write r v (ctx_m c)\<rparr>"

definition put_result :: "u64 \<Rightarrow> u64 result \<Rightarrow> exec_ctx \<Rightarrow> exec_ctx result" where
  "put_result r v c = (case v of Inl e \<Rightarrow> Inl e | Inr v \<Rightarrow> Inr (put_reg r v c))"

text \<open>The destination register number, through the I, R and U views.\<close>

definition i_dest :: "riscv_instruction \<Rightarrow> u64" where "i_dest w = ucast (i_rd (data_i w))"
definition r_dest :: "riscv_instruction \<Rightarrow> u64" where "r_dest w = ucast (r_rd (data_r w))"
definition u_dest :: "riscv_instruction \<Rightarrow> u64" where "u_dest w = ucast (u_rd (data_u w))"

text \<open>
  The two spellings of the sign extension of a 12-bit immediate: by setting the upper bits (the
  loads, the stores and \<open>jalr\<close>), and through \<open>int16_t\<close> (the arithmetic instructions).
\<close>

definition extend_or :: "u64 \<Rightarrow> u64" where
  "extend_or immediate =
     (if immediate AND push_bit 11 1 \<noteq> 0
      then (immediate OR push_bit 12 0b1111) OR 0xFFFFFFFFFFFF0000 else immediate)"

definition extend_i16 :: "u64 \<Rightarrow> u64" where
  "extend_i16 temp =
     (if temp AND push_bit 11 1 \<noteq> 0
      then scast (ucast (temp OR push_bit 12 0b1111) :: u16) else temp)"

section \<open>Upper immediates and jumps\<close>

definition riscv_auipc :: handler where
  "riscv_auipc x instruction c =
     (let temp = ctx_pc c + scast (push_bit 12 (ucast (u_imm (data_u instruction))) :: u32)
      in Inr (put_reg (u_dest instruction) temp c))"

definition riscv_lui :: handler where
  "riscv_lui x instruction c =
     (let temp = scast (push_bit 12 (ucast (u_imm (data_u instruction))) :: u32) :: u64
      in Inr (put_reg (u_dest instruction) (scast (ucast temp :: u32)) c))"

definition jal_immediate :: "u64 \<Rightarrow> u64" where
  "jal_immediate immediate =
     (let mask = 0xFFFFF;
          immediate = push_bit 19 (drop_bit 19 immediate AND 1) OR
            drop_bit 1 (mask AND push_bit 12 immediate) OR
            push_bit 10 (drop_bit 8 immediate AND 1) OR
            drop_bit 10 (mask AND push_bit 1 immediate)
      in if immediate AND push_bit 19 1 \<noteq> 0
         then (immediate OR push_bit 20 0b1111) OR 0xFFFFFFFFFF000000 else immediate)"

definition riscv_jal :: handler where
  "riscv_jal x instruction c =
     (let c = put_reg (u_dest instruction) (ctx_pc c) c;
          offset = push_bit 1 (jal_immediate (ucast (u_imm (data_u instruction))))
      in Inr (c\<lparr>ctx_pc := ctx_pc c - 4 + offset\<rparr>))"

definition riscv_jalr :: handler where
  "riscv_jalr x instruction c =
     (let c1 = (if i_funct3 (data_i instruction) \<noteq> 0
                then c\<lparr>ctx_out := ctx_out c @ [(ctx_pc c - 4, instruction)]\<rparr> else c);
          c2 = put_reg (i_dest instruction) (ctx_pc c1) c1;
          offset = extend_or (ucast (i_imm (data_i instruction)))
      in Inr (c2\<lparr>ctx_pc := offset + x_rs1_value x\<rparr>))"

section \<open>Loads\<close>

text \<open>The body the seven load handlers share: effective address, size and extension.\<close>

definition prepare_load :: "u8 \<Rightarrow> u8 \<Rightarrow> handler" where
  "prepare_load sz sign x instruction c =
     (let offset = extend_or (ucast (i_imm (data_i instruction)))
      in Inr (c\<lparr>ctx_m := (ctx_m c)\<lparr>m_readWrite := 2, m_address := x_rs1_value x + offset,
           m_size := sz, m_reg := i_dest instruction, m_signExtend := sign\<rparr>\<rparr>))"

definition riscv_lb :: handler where "riscv_lb = prepare_load 1 1"
definition riscv_lh :: handler where "riscv_lh = prepare_load 2 1"
definition riscv_lw :: handler where "riscv_lw = prepare_load 4 1"
definition riscv_ld :: handler where "riscv_ld = prepare_load 8 0"
definition riscv_lbu :: handler where "riscv_lbu = prepare_load 1 0"
definition riscv_lhu :: handler where "riscv_lhu = prepare_load 2 0"
definition riscv_lwu :: handler where "riscv_lwu = prepare_load 4 0"

definition riscv_load_dispatch :: handler where
  "riscv_load_dispatch x instruction c =
     (let f = i_funct3 (data_i instruction) in
      if f = 0b000 then riscv_lb x instruction c
      else if f = 0b001 then riscv_lh x instruction c
      else if f = 0b010 then riscv_lw x instruction c
      else if f = 0b011 then riscv_ld x instruction c
      else if f = 0b100 then riscv_lbu x instruction c
      else if f = 0b101 then riscv_lhu x instruction c
      else if f = 0b110 then riscv_lwu x instruction c
      else riscv_illegal_instruction x instruction c)"

section \<open>Branches\<close>

text \<open>
  The displacement that each branch handler computes, with the masks as they are written:
  \<open>raw_range\<close>, \<open>sized_range\<close> and \<open>extended_range\<close>.
\<close>

definition branch_range :: "riscv_instruction \<Rightarrow> u16" where
  "branch_range instruction =
     (let s = data_s instruction;
          raw_range = push_bit 11 (drop_bit 6 (ucast (s_imm s))) OR
            ucast (s_imm2 s AND 1) OR push_bit 5 (ucast (s_imm s AND 0b0111111)) OR
            push_bit 1 (drop_bit 1 (ucast (s_imm2 s))) :: u32;
          sized_range = ucast (raw_range AND 0b111111111110) :: u16
      in sized_range OR (if sized_range AND push_bit 1 11 \<noteq> 0 then push_bit 12 0b1111 else 0))"

definition take_branch :: "bool \<Rightarrow> riscv_instruction \<Rightarrow> exec_ctx \<Rightarrow> exec_ctx result" where
  "take_branch taken instruction c =
     Inr (if taken then c\<lparr>ctx_pc := ctx_pc c - 4 + scast (branch_range instruction)\<rparr> else c)"

definition riscv_beq :: handler where
  "riscv_beq x instruction c = take_branch (x_rs1_value x = x_rs2_value x) instruction c"

definition riscv_bne :: handler where
  "riscv_bne x instruction c = take_branch (x_rs1_value x \<noteq> x_rs2_value x) instruction c"

definition riscv_blt :: handler where
  "riscv_blt x instruction c = take_branch (x_rs1_value x <s x_rs2_value x) instruction c"

definition riscv_bge :: handler where
  "riscv_bge x instruction c = take_branch (x_rs2_value x \<le>s x_rs1_value x) instruction c"

definition riscv_bltu :: handler where
  "riscv_bltu x instruction c = take_branch (x_rs1_value x < x_rs2_value x) instruction c"

definition riscv_bgeu :: handler where
  "riscv_bgeu x instruction c = take_branch (x_rs1_value x \<ge> x_rs2_value x) instruction c"

definition riscv_branch_dispatch :: handler where
  "riscv_branch_dispatch x instruction c =
     (let f = i_funct3 (data_i instruction) in
      if f = 0b000 then riscv_beq x instruction c
      else if f = 0b001 then riscv_bne x instruction c
      else if f = 0b100 then riscv_blt x instruction c
      else if f = 0b101 then riscv_bge x instruction c
      else if f = 0b110 then riscv_bltu x instruction c
      else if f = 0b111 then riscv_bgeu x instruction c
      else riscv_illegal_instruction x instruction c)"

section \<open>Stores\<close>

text \<open>The body the four store handlers share.\<close>

definition prepare_store :: "u8 \<Rightarrow> u64 \<Rightarrow> handler" where
  "prepare_store sz v x instruction c =
     (let s = data_s instruction;
          offset = extend_or (ucast (s_imm2 s) OR push_bit 5 (ucast (s_imm s)))
      in Inr (c\<lparr>ctx_m := (ctx_m c)\<lparr>m_address := x_rs1_value x + offset, m_signExtend := 0,
           m_value := v, m_size := sz, m_readWrite := 1\<rparr>\<rparr>))"

definition riscv_sb :: handler where
  "riscv_sb x = prepare_store 1 (ucast (ucast (x_rs2_value x) :: u8)) x"

definition riscv_sh :: handler where
  "riscv_sh x = prepare_store 2 (ucast (ucast (x_rs2_value x) :: u16)) x"

definition riscv_sw :: handler where
  "riscv_sw x = prepare_store 4 (ucast (ucast (x_rs2_value x) :: u32)) x"

definition riscv_sd :: handler where
  "riscv_sd x = prepare_store 8 (x_rs2_value x) x"

definition riscv_store_dispatch :: handler where
  "riscv_store_dispatch x instruction c =
     (let f = s_funct3 (data_s instruction) in
      if f = 0b000 then riscv_sb x instruction c
      else if f = 0b001 then riscv_sh x instruction c
      else if f = 0b010 then riscv_sw x instruction c
      else if f = 0b011 then riscv_sd x instruction c
      else riscv_illegal_instruction x instruction c)"

section \<open>Arithmetic with an immediate\<close>

text \<open>Signed results are converted to \<open>uint64_t\<close> by sign extension, unsigned ones by zero extension.\<close>

definition of_i32 :: "u32 result \<Rightarrow> u64 result" where
  "of_i32 r = (case r of Inl e \<Rightarrow> Inl e | Inr v \<Rightarrow> Inr (scast v))"

definition of_u32 :: "u32 result \<Rightarrow> u64 result" where
  "of_u32 r = (case r of Inl e \<Rightarrow> Inl e | Inr v \<Rightarrow> Inr (ucast v))"

definition i_temp :: "riscv_instruction \<Rightarrow> u64" where
  "i_temp instruction = ucast (i_imm (data_i instruction))"

abbreviation w1 :: "stage_reg_x \<Rightarrow> u32" where "w1 x \<equiv> ucast (x_rs1_value x)"
abbreviation w2 :: "stage_reg_x \<Rightarrow> u32" where "w2 x \<equiv> ucast (x_rs2_value x)"

definition riscv_addiw :: handler where
  "riscv_addiw x instruction c =
     (let temp = i_temp instruction in
      put_result (i_dest instruction) (of_i32 (c_add (w1 x) (ucast (extend_i16 temp)))) c)"

definition riscv_addi :: handler where
  "riscv_addi x instruction c =
     (let temp = i_temp instruction in
      put_result (i_dest instruction) (c_add (x_rs1_value x) (extend_i16 temp)) c)"

definition riscv_slliw :: handler where
  "riscv_slliw x instruction c =
     (let temp = i_temp instruction in
      put_result (i_dest instruction) (of_u32 (c_shl (w1 x) (ucast temp :: u32))) c)"

definition riscv_slli :: handler where
  "riscv_slli x instruction c =
     (let temp = i_temp instruction in
      put_result (i_dest instruction) (c_shl (x_rs1_value x) temp) c)"

definition riscv_slti :: handler where
  "riscv_slti x instruction c =
     (let temp = i_temp instruction in
      put_result (i_dest instruction) (Inr (if x_rs1_value x <s extend_i16 temp then 1 else 0)) c)"

definition riscv_sltiu :: handler where
  "riscv_sltiu x instruction c =
     (let temp = i_temp instruction in
      put_result (i_dest instruction) (Inr (if x_rs1_value x < temp then 1 else 0)) c)"

definition riscv_xori :: handler where
  "riscv_xori x instruction c =
     (let temp = i_temp instruction in
      put_result (i_dest instruction) (Inr (x_rs1_value x XOR extend_i16 temp)) c)"

definition riscv_srliw :: handler where
  "riscv_srliw x instruction c =
     (let temp = i_temp instruction in
      put_result (i_dest instruction) (of_u32 (c_shr (w1 x) (ucast temp :: u32))) c)"

definition riscv_srli :: handler where
  "riscv_srli x instruction c =
     (let temp = i_temp instruction in
      put_result (i_dest instruction) (c_shr (x_rs1_value x) temp) c)"

definition riscv_sraiw :: handler where
  "riscv_sraiw x instruction c =
     (let temp = i_temp instruction in
      put_result (r_dest instruction) (of_u32 (c_sar (w1 x) (ucast temp :: u32))) c)"

definition riscv_srai :: handler where
  "riscv_srai x instruction c =
     (let temp = i_temp instruction in
      put_result (r_dest instruction) (c_sar (x_rs1_value x) temp) c)"

definition riscv_ori :: handler where
  "riscv_ori x instruction c =
     (let temp = i_temp instruction in
      put_result (i_dest instruction) (Inr (x_rs1_value x OR extend_i16 temp)) c)"

definition riscv_andi :: handler where
  "riscv_andi x instruction c =
     (let temp = i_temp instruction in
      put_result (i_dest instruction) (Inr (x_rs1_value x AND extend_i16 temp)) c)"

definition riscv_arithmetic1_64_dispatch :: handler where
  "riscv_arithmetic1_64_dispatch x instruction c =
     (let f3 = i_funct3 (data_i instruction); f7 = r_funct7 (data_r instruction) in
      if f3 = 0b000 then riscv_addiw x instruction c
      else if f3 = 0b001 then
        (if f7 \<noteq> 0 then riscv_illegal_instruction x instruction c
         else riscv_slliw x instruction c)
      else if f3 = 0b101 then
        (if f7 = 0b0000000 then riscv_srliw x instruction c
         else if f7 = 0b0100000 then riscv_sraiw x instruction c
         else riscv_illegal_instruction x instruction c)
      else riscv_illegal_instruction x instruction c)"

definition riscv_arithmetic1_dispatch :: handler where
  "riscv_arithmetic1_dispatch x instruction c =
     (let f3 = i_funct3 (data_i instruction); f7 = r_funct7 (data_r instruction) in
      if f3 = 0b000 then riscv_addi x instruction c
      else if f3 = 0b001 then
        (if f7 \<noteq> 0 then riscv_illegal_instruction x instruction c
         else riscv_slli x instruction c)
      else if f3 = 0b010 then riscv_slti x instruction c
      else if f3 = 0b011 then riscv_sltiu x instruction c
      else if f3 = 0b100 then riscv_xori x instruction c
      else if f3 = 0b101 then
        (if f7 = 0b0000000 then riscv_srli x instruction c
         else if f7 = 0b0100000 then riscv_srai x instruction c
         else riscv_illegal_instruction x instruction c)
      else if f3 = 0b110 then riscv_ori x instruction c
      else if f3 = 0b111 then riscv_andi x instruction c
      else riscv_illegal_instruction x instruction c)"

section \<open>Arithmetic between registers\<close>

definition riscv_addw :: handler where
  "riscv_addw x instruction c =
     put_result (r_dest instruction)
       (of_i32 (c_add (w1 x) (w2 x))) c"

definition riscv_add :: handler where
  "riscv_add x instruction c =
     put_result (r_dest instruction)
       (of_i32 (c_add (w1 x) (w2 x))) c"

definition riscv_subw :: handler where
  "riscv_subw x instruction c =
     put_result (r_dest instruction)
       (of_i32 (c_sub (w1 x) (w2 x))) c"

definition riscv_sub :: handler where
  "riscv_sub x instruction c =
     put_result (r_dest instruction)
       (c_sub (x_rs1_value x) (x_rs2_value x)) c"

definition riscv_mulw :: handler where
  "riscv_mulw x instruction c =
     put_result (r_dest instruction)
       (case c_mul (x_rs1_value x AND 0xFFFFFFFF) (x_rs2_value x AND 0xFFFFFFFF) of
          Inl e \<Rightarrow> Inl e
        | Inr v \<Rightarrow> Inr (scast (ucast (v AND 0xFFFFFFFF) :: u32))) c"

definition riscv_mul :: handler where
  "riscv_mul x instruction c =
     put_result (r_dest instruction)
       (c_mul (x_rs1_value x) (x_rs2_value x)) c"

definition riscv_sllw :: handler where
  "riscv_sllw x instruction c =
     put_result (r_dest instruction)
       (of_u32 (c_shl (w1 x) (w2 x))) c"

definition riscv_sll :: handler where
  "riscv_sll x instruction c =
     put_result (r_dest instruction)
       (c_shl (x_rs1_value x) (x_rs2_value x)) c"

definition riscv_mulh :: handler where
  "riscv_mulh x instruction c =
     put_result (r_dest instruction)
       (case c_mul (x_rs1_value x) (x_rs2_value x) of Inl e \<Rightarrow> Inl e | Inr v \<Rightarrow> Inr (drop_bit 32 v)) c"

definition riscv_slt :: handler where
  "riscv_slt x instruction c =
     put_result (r_dest instruction)
       (Inr (if x_rs1_value x <s x_rs2_value x then 1 else 0)) c"

definition riscv_mulhsu :: handler where
  "riscv_mulhsu x instruction c =
     put_result (r_dest instruction)
       (Inr (drop_bit 32 (x_rs1_value x * x_rs2_value x))) c"

definition riscv_sltu :: handler where
  "riscv_sltu x instruction c =
     put_result (r_dest instruction)
       (Inr (if x_rs1_value x < x_rs2_value x then 1 else 0)) c"

definition riscv_mulhu :: handler where
  "riscv_mulhu x instruction c =
     put_result (r_dest instruction)
       (Inr (drop_bit 32 (x_rs1_value x * x_rs2_value x))) c"

definition riscv_xor :: handler where
  "riscv_xor x instruction c =
     put_result (r_dest instruction)
       (Inr (ucast (w1 x XOR w2 x))) c"

definition riscv_divw :: handler where
  "riscv_divw x instruction c =
     put_result (r_dest instruction)
       (if x_rs2_value x = 0 \<or> x_rs2_value x = - 1 \<and> x_rs1_value x = 0x8000000000000000
        then Inr (- 1) else of_i32 (c_div (w1 x) (w2 x))) c"

definition riscv_div :: handler where
  "riscv_div x instruction c =
     put_result (r_dest instruction)
       (if x_rs2_value x = 0 \<or> x_rs2_value x = - 1 \<and> x_rs1_value x = 0x8000000000000000
        then Inr (- 1) else c_div (x_rs1_value x) (x_rs2_value x)) c"

definition riscv_srlw :: handler where
  "riscv_srlw x instruction c =
     put_result (r_dest instruction)
       (c_shr (x_rs1_value x) (x_rs2_value x)) c"

definition riscv_srl :: handler where
  "riscv_srl x instruction c =
     put_result (r_dest instruction)
       (of_u32 (c_shr (w1 x) (w2 x))) c"

definition riscv_sraw :: handler where
  "riscv_sraw x instruction c =
     put_result (r_dest instruction)
       (of_u32 (c_sar (w1 x) (w2 x))) c"

definition riscv_sra :: handler where
  "riscv_sra x instruction c =
     put_result (r_dest instruction)
       (c_sar (x_rs1_value x) (x_rs2_value x)) c"

definition riscv_divuw :: handler where
  "riscv_divuw x instruction c =
     put_result (r_dest instruction)
       (if x_rs2_value x = 0 then Inr (- 1)
        else if w2 x = 0 then Inl DivisionByZero else Inr (ucast (w1 x div w2 x))) c"

definition riscv_divu :: handler where
  "riscv_divu x instruction c =
     put_result (r_dest instruction)
       (Inr (if x_rs2_value x = 0 then - 1 else x_rs1_value x div x_rs2_value x)) c"

definition riscv_or :: handler where
  "riscv_or x instruction c =
     put_result (r_dest instruction)
       (Inr (x_rs1_value x OR x_rs2_value x)) c"

definition riscv_remw :: handler where
  "riscv_remw x instruction c =
     put_result (r_dest instruction)
       (if x_rs2_value x = 0 \<or> x_rs2_value x = - 1 \<and> x_rs1_value x = 0x8000000000000000
        then Inr (- 1) else of_i32 (c_mod (w1 x) (w2 x))) c"

definition riscv_rem :: handler where
  "riscv_rem x instruction c =
     put_result (r_dest instruction)
       (if x_rs2_value x = 0 \<or> x_rs2_value x = - 1 \<and> x_rs1_value x = 0x8000000000000000
        then Inr (- 1) else c_mod (x_rs1_value x) (x_rs2_value x)) c"

definition riscv_and :: handler where
  "riscv_and x instruction c =
     put_result (r_dest instruction)
       (Inr (x_rs1_value x AND x_rs2_value x)) c"

definition riscv_remuw :: handler where
  "riscv_remuw x instruction c =
     put_result (r_dest instruction)
       (if x_rs2_value x = 0 then Inr (- 1)
        else if w2 x = 0 then Inl DivisionByZero else Inr (ucast (w1 x mod w2 x))) c"

definition riscv_remu :: handler where
  "riscv_remu x instruction c =
     put_result (r_dest instruction)
       (Inr (if x_rs2_value x = 0 then - 1 else x_rs1_value x mod x_rs2_value x)) c"

definition riscv_arithmetic2_dispatch :: handler where
  "riscv_arithmetic2_dispatch x instruction c =
     (let f3 = r_funct3 (data_r instruction); f7 = r_funct7 (data_r instruction) in
      if f3 = 0b000 then
        (if f7 = 0b0000000 then riscv_add x instruction c
         else if f7 = 0b0100000 then riscv_sub x instruction c
         else if f7 = 0b0000001 then riscv_mul x instruction c
         else riscv_illegal_instruction x instruction c)
      else if f3 = 0b001 then
        (if f7 = 0b0000000 then riscv_sll x instruction c
         else if f7 = 0b0000001 then riscv_mulh x instruction c
         else riscv_illegal_instruction x instruction c)
      else if f3 = 0b010 then
        (if f7 = 0b0000000 then riscv_slt x instruction c
         else if f7 = 0b0000001 then riscv_mulhsu x instruction c
         else riscv_illegal_instruction x instruction c)
      else if f3 = 0b011 then
        (if f7 = 0b0000000 then riscv_sltu x instruction c
         else if f7 = 0b0000001 then riscv_mulhu x instruction c
         else riscv_illegal_instruction x instruction c)
      else if f3 = 0b100 then
        (if f7 = 0b0000000 then riscv_xor x instruction c
         else if f7 = 0b0000001 then riscv_div x instruction c
         else riscv_illegal_instruction x instruction c)
      else if f3 = 0b101 then
        (if f7 = 0b0000000 then riscv_srl x instruction c
         else if f7 = 0b0100000 then riscv_sra x instruction c
         else if f7 = 0b0000001 then riscv_divu x instruction c
         else riscv_illegal_instruction x instruction c)
      else if f3 = 0b110 then
        (if f7 = 0b0000000 then riscv_or x instruction c
         else if f7 = 0b0000001 then riscv_rem x instruction c
         else riscv_illegal_instruction x instruction c)
      else if f3 = 0b111 then
        (if f7 = 0b0000000 then riscv_and x instruction c
         else if f7 = 0b0000001 then riscv_remu x instruction c
         else riscv_illegal_instruction x instruction c)
      else riscv_illegal_instruction x instruction c)"

definition riscv_arithmetic2_64_dispatch :: handler where
  "riscv_arithmetic2_64_dispatch x instruction c =
     (let f3 = r_funct3 (data_r instruction); f7 = r_funct7 (data_r instruction) in
      if f3 = 0b000 then
        (if f7 = 0b0000000 then riscv_addw x instruction c
         else if f7 = 0b0100000 then riscv_subw x instruction c
         else if f7 = 0b0000001 then riscv_mulw x instruction c
         else riscv_illegal_instruction x instruction c)
      else if f3 = 0b001 then
        (if f7 = 0b0000000 then riscv_sllw x instruction c
         else riscv_illegal_instruction x instruction c)
      else if f3 = 0b100 then
        (if f7 = 0b0000001 then riscv_divw x instruction c
         else riscv_illegal_instruction x instruction c)
      else if f3 = 0b101 then
        (if f7 = 0b0000000 then riscv_srlw x instruction c
         else if f7 = 0b0100000 then riscv_sraw x instruction c
         else if f7 = 0b0000001 then riscv_divuw x instruction c
         else riscv_illegal_instruction x instruction c)
      else if f3 = 0b110 then
        (if f7 = 0b0000001 then riscv_remw x instruction c
         else riscv_illegal_instruction x instruction c)
      else if f3 = 0b111 then
        (if f7 = 0b0000001 then riscv_remuw x instruction c
         else riscv_illegal_instruction x instruction c)
      else riscv_illegal_instruction x instruction c)"

section \<open>The major dispatch table\<close>

text \<open>
  The table that \<open>initialise\<close> fills: \<open>riscv_illegal_instruction\<close> everywhere, then thirteen
  opcodes. Every user of the table calls \<open>initialise\<close> first.
\<close>

definition major_dispatch_table :: "7 word \<Rightarrow> handler" where
  "major_dispatch_table opcode =
     (if opcode = 0b0010111 then riscv_auipc
      else if opcode = 0b0110111 then riscv_lui
      else if opcode = 0b1101111 then riscv_jal
      else if opcode = 0b1100111 then riscv_jalr
      else if opcode = 0b0000011 then riscv_load_dispatch
      else if opcode = 0b1100011 then riscv_branch_dispatch
      else if opcode = 0b0100011 then riscv_store_dispatch
      else if opcode = 0b0010011 then riscv_arithmetic1_dispatch
      else if opcode = 0b0011011 then riscv_arithmetic1_64_dispatch
      else if opcode = 0b0110011 then riscv_arithmetic2_dispatch
      else if opcode = 0b0111011 then riscv_arithmetic2_64_dispatch
      else if opcode = 0b0001111 then riscv_nop
      else if opcode = 0b1110011 then riscv_nop
      else riscv_illegal_instruction)"

end
