(* ===== verification/Handler_Correctness.thy ===== *)
theory Handler_Correctness
  imports Riscv_Handlers
begin

text \<open>
  The handlers against the RISC-V instruction set: immediates, effective addresses, results and
  next program counters, with the operands for which they agree.
\<close>

section \<open>Immediates\<close>

lemma bit_scast_iff:
  "bit (scast (w :: 'a::len word) :: 'b::len word) n \<longleftrightarrow>
     n < LENGTH('b) \<and> bit w (min (LENGTH('a) - 1) n)"
  by (auto simp: bit_signed_iff)

lemma and_exp_eq_0: "(w AND push_bit n 1 = 0) \<longleftrightarrow> \<not> bit (w :: 'a::len word) n"
proof
  assume "w AND push_bit n 1 = 0"
  then have "\<not> bit (w AND push_bit n 1) n" by simp
  then show "\<not> bit w n" by (auto simp: bit_simps dest: bit_imp_le_length)
next
  assume "\<not> bit w n"
  then show "w AND push_bit n 1 = 0"
    by (intro bit_word_eqI) (auto simp: bit_and_iff bit_exp_iff)
qed

lemma and_2048: "(w AND 2048 = 0) \<longleftrightarrow> \<not> bit (w :: u64) 11"
  and and_524288: "(w AND 524288 = 0) \<longleftrightarrow> \<not> bit (w :: u64) 19"
  using and_exp_eq_0 [of w 11] and_exp_eq_0 [of w 19] by simp_all

text \<open>The bits of the constants in the handlers.\<close>

lemma bit_61440: "bit (61440 :: int) n \<longleftrightarrow> 12 \<le> n \<and> n < 16"
  using bit_push_mask [of 12 4 n] by (simp add: mask_eq_exp_minus_1)

lemma bit_upper48: "bit (18446744073709486080 :: int) n \<longleftrightarrow> 16 \<le> n \<and> n < 64"
  using bit_push_mask [of 16 48 n] by (simp add: mask_eq_exp_minus_1)

lemma bit_15728640: "bit (15728640 :: int) n \<longleftrightarrow> 20 \<le> n \<and> n < 24"
  using bit_push_mask [of 20 4 n] by (simp add: mask_eq_exp_minus_1)

lemma bit_upper40: "bit (18446744073692774400 :: int) n \<longleftrightarrow> 24 \<le> n \<and> n < 64"
  using bit_push_mask [of 24 40 n] by (simp add: mask_eq_exp_minus_1)

lemma bit_1048575: "bit (1048575 :: int) n \<longleftrightarrow> n < 20"
  using bit_push_mask [of 0 20 n] by (simp add: mask_eq_exp_minus_1)

lemmas bit_const_simps = bit_61440 bit_upper48 bit_15728640 bit_upper40 bit_1048575

lemma min_pred [simp]: "min (11::nat) n = (if n < 12 then n else 11)"
  "min (15::nat) n = (if n < 16 then n else 15)" "min (20::nat) n = (if n < 21 then n else 20)"
  by auto

text \<open>Both spellings of the extension of a 12-bit immediate are sign extension.\<close>

lemma extend_or_scast: "extend_or (ucast (i :: 12 word)) = scast i"
  by (rule bit_word_eqI)
    (auto simp: extend_or_def and_2048 bit_ucast_iff bit_scast_iff bit_or_iff bit_const_simps
      dest: bit_imp_le_length)

lemma extend_i16_scast: "extend_i16 (ucast (i :: 12 word)) = scast i"
  by (rule bit_word_eqI)
    (auto simp: extend_i16_def and_2048 bit_ucast_iff bit_scast_iff bit_or_iff bit_const_simps
      dest: bit_imp_le_length)

text \<open>
  The immediates of the instruction set manual, as signed numbers of their architectural width,
  taken from the bits of the instruction word.
\<close>

definition imm_I :: "u32 \<Rightarrow> 12 word" where
  "imm_I w = ucast (drop_bit 20 w)"

definition imm_S :: "u32 \<Rightarrow> 12 word" where
  "imm_S w = push_bit 5 (ucast (drop_bit 25 w)) OR take_bit 5 (ucast (drop_bit 7 w))"

definition imm_B :: "u32 \<Rightarrow> 13 word" where
  "imm_B w = push_bit 12 (ucast (drop_bit 31 w)) OR push_bit 11 (take_bit 1 (ucast (drop_bit 7 w)))
     OR push_bit 5 (take_bit 6 (ucast (drop_bit 25 w)))
     OR push_bit 1 (take_bit 4 (ucast (drop_bit 8 w)))"

definition imm_U :: "u32 \<Rightarrow> u32" where
  "imm_U w = push_bit 12 (drop_bit 12 w)"

definition imm_J :: "u32 \<Rightarrow> 21 word" where
  "imm_J w = push_bit 20 (ucast (drop_bit 31 w)) OR push_bit 12 (take_bit 8 (ucast (drop_bit 12 w)))
     OR push_bit 11 (take_bit 1 (ucast (drop_bit 20 w)))
     OR push_bit 1 (take_bit 10 (ucast (drop_bit 21 w)))"

lemma bit_u64_consts:
  "bit (0xFFFFF :: u64) n \<longleftrightarrow> n < 20" "bit (0xFFFFFFFFFF000000 :: u64) n \<longleftrightarrow> 24 \<le> n \<and> n < 64"
  "bit (0b1111 :: u64) n \<longleftrightarrow> n < 4"
  by (auto simp: bit_const_simps)
    (use bit_push_mask [of 0 4 n] in \<open>simp add: mask_eq_exp_minus_1\<close>)+

lemmas bit_only =
  bit_or_iff bit_push_bit_iff bit_drop_bit_eq bit_and_iff bit_1_iff bit_take_bit_iff bit_ucast_iff
  o_def

lemma bit_imm_J:
  "bit (imm_J w) n \<longleftrightarrow>
     (if n = 0 then False else if n < 11 then bit w (20 + n) else if n = 11 then bit w 20
      else if n < 20 then bit w n else n = 20 \<and> bit w 31)"
proof -
  have "21 + (n - 1) = 20 + n" if "0 < n" using that by simp
  moreover have "12 + (n - 12) = n" if "12 \<le> n" using that by simp
  ultimately show ?thesis
    unfolding imm_J_def bit_only by (cases "n = 20") (auto dest: bit_imp_le_length)
qed

lemma bit_jal_immediate:
  "bit (jal_immediate w) n \<longleftrightarrow> n < 64 \<and>
     (if n < 10 then bit w (9 + n) else if n = 10 then bit w 8
      else if n < 19 then bit w (n - 11) else bit w 19)"
  unfolding jal_immediate_def Let_def if_distrib [of "\<lambda>x. bit x n"] and_exp_eq_0 bit_only
    bit_u64_consts
  by (cases "n = 19") (auto dest: bit_imp_le_length)

lemma jal_immediate_imm_J:
  "push_bit 1 (jal_immediate (ucast (u_imm (data_u w)))) = (scast (imm_J w) :: u64)"
proof (rule bit_word_eqI)
  fix n assume "n < LENGTH(64)"
  then show "bit (push_bit 1 (jal_immediate (ucast (u_imm (data_u w))))) n = bit (scast (imm_J w) :: u64) n"
    unfolding bit_push_bit_iff bit_scast_iff bit_jal_immediate bit_imm_J data_u_def
    by (cases n; cases "n = 11"; cases "n = 20")
      (auto simp: bit_ucast_iff bit_drop_bit_eq dest: bit_imp_le_length)
qed

lemma bit_small_consts:
  "bit (0b111111111110 :: u32) n \<longleftrightarrow> 1 \<le> n \<and> n < 12"
  "bit (0b0111111 :: 7 word) n \<longleftrightarrow> n < 6"
  "bit (0b1111 :: u16) n \<longleftrightarrow> n < 4"
  using bit_push_mask [of 1 11 n] bit_push_mask [of 0 6 n] bit_push_mask [of 0 4 n]
  by (auto simp: mask_eq_exp_minus_1)

lemma and_22: "(w AND push_bit 1 11 = 0) \<longleftrightarrow> \<not> bit (w :: u16) 1 \<and> \<not> bit w 2 \<and> \<not> bit w 4"
proof -
  have "push_bit 1 11 = (push_bit 1 1 OR push_bit 2 1 OR push_bit 4 1 :: u16)"
    by simp
  then have "w AND push_bit 1 11 = (w AND push_bit 1 1) OR (w AND push_bit 2 1) OR (w AND push_bit 4 1)"
    by (simp only: bit.conj_disj_distrib)
  moreover have "(a OR b = 0) \<longleftrightarrow> a = 0 \<and> b = 0" for a b :: u16
    by (auto simp: bit_eq_iff bit_or_iff)
  ultimately show ?thesis
    by (simp only: and_exp_eq_0 simp_thms)
qed

lemma bit_imm_B:
  "bit (imm_B w) n \<longleftrightarrow>
     (if n = 0 then False else if n < 5 then bit w (7 + n) else if n < 11 then bit w (20 + n)
      else if n = 11 then bit w 7 else n = 12 \<and> bit w 31)"
proof -
  have "8 + (n - 1) = 7 + n" if "0 < n" using that by simp
  moreover have "25 + (n - 5) = 20 + n" if "5 \<le> n" using that by simp
  ultimately show ?thesis
    unfolding imm_B_def bit_only by (cases "n = 12") (auto dest: bit_imp_le_length)
qed

lemma bit_branch_range:
  "bit (branch_range w) n \<longleftrightarrow> n < 16 \<and>
     (if n < 11 then bit (imm_B w) n else if n = 11 then bit w 31
      else bit (imm_B w) 1 \<or> bit (imm_B w) 2 \<or> bit (imm_B w) 4)"
proof -
  define raw :: u32 where "raw = push_bit 11 (drop_bit 6 (ucast (s_imm (data_s w)))) OR
            ucast (s_imm2 (data_s w) AND 1) OR push_bit 5 (ucast (s_imm (data_s w) AND 0b0111111)) OR
            push_bit 1 (drop_bit 1 (ucast (s_imm2 (data_s w))))"
  have raw: "bit (ucast (raw AND 0b111111111110) :: u16) n \<longleftrightarrow>
     (if n < 11 then bit (imm_B w) n else n = 11 \<and> bit w 31)" for n
    unfolding raw_def bit_imm_B data_s_def bit_only bit_small_consts riscv_s_instruction_data.simps 
    by (cases "n = 11") (auto dest: bit_imp_le_length)
  show ?thesis
    unfolding branch_range_def Let_def raw_def [symmetric] bit_or_iff and_22 if_distrib [of "\<lambda>x. bit x n"] raw
     bit_push_bit_iff bit_small_consts bit_0
    by (auto dest: bit_imp_le_length)
qed
lemma branch_range_iff:
  "(scast (branch_range w) :: u64) = scast (imm_B w) \<longleftrightarrow>
     (bit (imm_B w) 11 \<longleftrightarrow> bit (imm_B w) 12) \<and>
     (bit (imm_B w) 12 \<longleftrightarrow> bit (imm_B w) 1 \<or> bit (imm_B w) 2 \<or> bit (imm_B w) 4)"
proof -
  let ?e = "bit (imm_B w) 1 \<or> bit (imm_B w) 2 \<or> bit (imm_B w) 4"
  have l: "bit (scast (branch_range w) :: u64) n \<longleftrightarrow> n < 64 \<and>
     (if n < 11 then bit (imm_B w) n else if n = 11 then bit (imm_B w) 12 else ?e)" for n
    unfolding bit_scast_iff bit_branch_range by (auto simp: bit_imm_B)
  have r: "bit (scast (imm_B w) :: u64) n \<longleftrightarrow> n < 64 \<and> 
      (if n < 11 then bit (imm_B w) n else if n = 11 then bit (imm_B w) 11 else bit (imm_B w) 12)" for n
    unfolding bit_scast_iff by (cases "n = 11") (auto simp: min_def)
  show ?thesis
  proof
    assume eq: "(scast (branch_range w) :: u64) = scast (imm_B w)"
    have "bit (scast (branch_range w) :: u64) n = bit (scast (imm_B w) :: u64) n" for n
      by (simp add: eq)
    from this [of 11] this [of 12] show "(bit (imm_B w) 11 \<longleftrightarrow> bit (imm_B w) 12) \<and> (bit (imm_B w) 12 \<longleftrightarrow> ?e)"
      unfolding l r by auto
  next
    assume "(bit (imm_B w) 11 \<longleftrightarrow> bit (imm_B w) 12) \<and> (bit (imm_B w) 12 \<longleftrightarrow> ?e)"
    then show "(scast (branch_range w) :: u64) = scast (imm_B w)"
      by (intro bit_word_eqI) (unfold l r, auto)
  qed
qed

section \<open>Control transfer\<close>

text \<open>The condition a branch tests, by its \<open>funct3\<close>; \<open>None\<close> for the two unused codes.\<close>

definition branch_cond :: "3 word \<Rightarrow> u64 \<Rightarrow> u64 \<Rightarrow> bool option" where
  "branch_cond f a b =
     (if f = 0 then Some (a = b) else if f = 1 then Some (a \<noteq> b)
      else if f = 4 then Some (sint a < sint b) else if f = 5 then Some (sint a \<ge> sint b)
      else if f = 6 then Some (unat a < unat b) else if f = 7 then Some (unat a \<ge> unat b)
      else None)"

lemmas branch_handler_defs =
  riscv_beq_def riscv_bne_def riscv_blt_def riscv_bge_def riscv_bltu_def riscv_bgeu_def

lemma branch_dispatch_eq:
  "riscv_branch_dispatch x w c =
     (case branch_cond (i_funct3 (data_i w)) (x_rs1_value x) (x_rs2_value x) of
        None \<Rightarrow> riscv_illegal_instruction x w c
      | Some False \<Rightarrow> Inr c
      | Some True \<Rightarrow> Inr (c\<lparr>ctx_pc := ctx_pc c - 4 + scast (branch_range w)\<rparr>))"
  by (simp add: riscv_branch_dispatch_def branch_cond_def Let_def branch_handler_defs
      take_branch_def word_sless_alt word_sle_eq word_less_nat_alt word_le_nat_alt)

lemma jal_eq:
  "riscv_jal x w c =
     Inr ((put_reg (u_dest w) (ctx_pc c) c)\<lparr>ctx_pc := ctx_pc c - 4 + scast (imm_J w)\<rparr>)"
  unfolding riscv_jal_def Let_def jal_immediate_imm_J by (simp add: put_reg_def)

lemma jalr_eq:
  "riscv_jalr x w c =
     Inr ((put_reg (i_dest w) (ctx_pc c) c)\<lparr>ctx_pc := x_rs1_value x + scast (imm_I w),
            ctx_out := ctx_out c @ (if i_funct3 (data_i w) = 0 then [] else [(ctx_pc c - 4, w)])\<rparr>)"
  by (simp add: riscv_jalr_def Let_def extend_or_scast put_reg_def imm_I_def data_i_def add.commute)

text \<open>
  Property C15: branches. The dispatcher tests the condition of the instruction set on the full
  64-bit operands, signed or unsigned as the code says; a branch that is not taken leaves the
  context alone, and a taken one moves only the program counter, to the address of the branch
  plus \<open>branch_range\<close>. That displacement is the immediate of the instruction set exactly when
  its bits 11 and 12 agree and its sign equals the disjunction of its bits 1, 2 and 4.
\<close>
theorem branch_dispatch_correct:
  "riscv_branch_dispatch x w c =
     (case branch_cond (i_funct3 (data_i w)) (x_rs1_value x) (x_rs2_value x) of
        None \<Rightarrow> riscv_illegal_instruction x w c
      | Some False \<Rightarrow> Inr c
      | Some True \<Rightarrow> Inr (c\<lparr>ctx_pc := ctx_pc c - 4 + scast (branch_range w)\<rparr>)) \<and>
   (ctx_pc c - 4 + scast (branch_range w) = ctx_pc c - 4 + scast (imm_B w) \<longleftrightarrow>
     (bit (imm_B w) 11 \<longleftrightarrow> bit (imm_B w) 12) \<and>
     (bit (imm_B w) 12 \<longleftrightarrow> bit (imm_B w) 1 \<or> bit (imm_B w) 2 \<or> bit (imm_B w) 4))"
  by (rule conjI [OF branch_dispatch_eq]) (simp only: add_left_cancel branch_range_iff)

text \<open>
  Property C23: jumps. \<open>jal\<close> and \<open>jalr\<close> write the address of the next instruction to the
  destination register; \<open>jal\<close> continues at its own address plus the J immediate, \<open>jalr\<close> at the
  first operand plus the I immediate (with bit 0 kept), and an unused \<open>funct3\<close> of \<open>jalr\<close> is
  reported without stopping the jump.
\<close>
theorem jumps_correct:
  "riscv_jal x w c =
     Inr ((put_reg (u_dest w) (ctx_pc c) c)\<lparr>ctx_pc := ctx_pc c - 4 + scast (imm_J w)\<rparr>) \<and>
   riscv_jalr x w c =
     Inr ((put_reg (i_dest w) (ctx_pc c) c)\<lparr>ctx_pc := x_rs1_value x + scast (imm_I w),
            ctx_out := ctx_out c @ (if i_funct3 (data_i w) = 0 then [] else [(ctx_pc c - 4, w)])\<rparr>)"
  by (rule conjI [OF jal_eq jalr_eq])

section \<open>Loads and stores\<close>

lemma store_immediate:
  "ucast (s_imm2 (data_s w)) OR push_bit 5 (ucast (s_imm (data_s w))) = (ucast (imm_S w) :: u64)"
proof (rule bit_word_eqI)
  fix n assume "n < LENGTH(64)"
  have "25 + (n - 5) = 20 + n" if "5 \<le> n" using that by simp
  then show "bit (ucast (s_imm2 (data_s w)) OR push_bit 5 (ucast (s_imm (data_s w))) :: u64) n =
      bit (ucast (imm_S w) :: u64) n"
    unfolding imm_S_def data_s_def riscv_s_instruction_data.simps bit_only
    by (auto dest: bit_imp_le_length)
qed

text \<open>Size in bytes and sign extension of a load, by \<open>funct3\<close>; size of a store.\<close>

definition load_kind :: "3 word \<Rightarrow> (u8 \<times> bool) option" where
  "load_kind f = (if f = 7 then None else Some (2 ^ unat (take_bit 2 f), f < 3))"

definition store_size :: "3 word \<Rightarrow> u8 option" where
  "store_size f = (if f < 4 then Some (2 ^ unat f) else None)"

lemma cases_3word:
  "(f :: 3 word) = 0 \<or> f = 1 \<or> f = 2 \<or> f = 3 \<or> f = 4 \<or> f = 5 \<or> f = 6 \<or> f = 7"
proof -
  have "unat f < 8" using unsigned_less [of f, where 'a = nat] by simp
  then have "unat f \<in> {0, 1, 2, 3, 4, 5, 6, 7}" by auto
  then show ?thesis by (auto simp: word_unat_eq_iff)
qed

lemmas load_handler_defs =
  riscv_lb_def riscv_lh_def riscv_lw_def riscv_ld_def riscv_lbu_def riscv_lhu_def riscv_lwu_def
lemmas store_handler_defs = riscv_sb_def riscv_sh_def riscv_sw_def riscv_sd_def

lemma load_dispatch_eq:
  "riscv_load_dispatch x w c =
     (case load_kind (i_funct3 (data_i w)) of
        None \<Rightarrow> riscv_illegal_instruction x w c
      | Some (sz, sign) \<Rightarrow>
          Inr (c\<lparr>ctx_m := (ctx_m c)\<lparr>m_readWrite := 2,
                 m_address := x_rs1_value x + scast (imm_I w), m_size := sz,
                 m_reg := i_dest w, m_signExtend := of_bool sign\<rparr>\<rparr>))"
  using cases_3word [of "i_funct3 (data_i w)"]
  by (elim disjE)
    (simp_all add: riscv_load_dispatch_def load_kind_def Let_def load_handler_defs
      prepare_load_def extend_or_scast imm_I_def data_i_def)

lemma truncated_value:
  fixes v :: u64
  shows "ucast (ucast v :: u8) = take_bit 8 v" "ucast (ucast v :: u16) = take_bit 16 v"
    "ucast (ucast v :: u32) = take_bit 32 v" "take_bit 64 v = v"
  by (auto simp: bit_eq_iff bit_ucast_iff bit_take_bit_iff dest: bit_imp_le_length)

lemma store_dispatch_eq:
  "riscv_store_dispatch x w c =
     (case store_size (s_funct3 (data_s w)) of
        None \<Rightarrow> riscv_illegal_instruction x w c
      | Some sz \<Rightarrow>
          Inr (c\<lparr>ctx_m := (ctx_m c)\<lparr>m_address := x_rs1_value x + scast (imm_S w),
                 m_signExtend := 0, m_value := take_bit (8 * unat sz) (x_rs2_value x),
                 m_size := sz, m_readWrite := 1\<rparr>\<rparr>))"
proof -
  have imm: "extend_or (ucast (s_imm2 (data_s w)) OR push_bit 5 (ucast (s_imm (data_s w)))) =
      scast (imm_S w)"
    unfolding store_immediate by (rule extend_or_scast)
  show ?thesis
    using cases_3word [of "s_funct3 (data_s w)"]
    by (elim disjE)
      (simp_all add: riscv_store_dispatch_def store_size_def Let_def store_handler_defs
        prepare_store_def imm truncated_value)
qed

text \<open>
  Property C24: loads and stores prepare the access of the instruction set: the effective address
  is the first operand plus the sign-extended immediate, the size and the extension follow
  \<open>funct3\<close>, a load names its destination register and a store carries the low bytes of the
  second operand; the unused codes are reported and prepare nothing.
\<close>
theorem load_store_dispatch_correct:
  "riscv_load_dispatch x w c =
     (case load_kind (i_funct3 (data_i w)) of
        None \<Rightarrow> riscv_illegal_instruction x w c
      | Some (sz, sign) \<Rightarrow>
          Inr (c\<lparr>ctx_m := (ctx_m c)\<lparr>m_readWrite := 2,
                 m_address := x_rs1_value x + scast (imm_I w), m_size := sz,
                 m_reg := i_dest w, m_signExtend := of_bool sign\<rparr>\<rparr>)) \<and>
   riscv_store_dispatch x w c =
     (case store_size (s_funct3 (data_s w)) of
        None \<Rightarrow> riscv_illegal_instruction x w c
      | Some sz \<Rightarrow>
          Inr (c\<lparr>ctx_m := (ctx_m c)\<lparr>m_address := x_rs1_value x + scast (imm_S w),
                 m_signExtend := 0, m_value := take_bit (8 * unat sz) (x_rs2_value x),
                 m_size := sz, m_readWrite := 1\<rparr>\<rparr>))"
  by (rule conjI [OF load_dispatch_eq store_dispatch_eq])

section \<open>Arithmetic\<close>

text \<open>The result of the instruction set for OP-IMM, by \<open>funct3\<close> and the top seven bits.\<close>

definition isa_op_imm :: "3 word \<Rightarrow> 7 word \<Rightarrow> u64 \<Rightarrow> 12 word \<Rightarrow> u64 option" where
  "isa_op_imm f3 f7 a imm =
     (let shamt = unat (take_bit 6 imm) in
      if f3 = 0 then Some (a + scast imm)
      else if f3 = 1 then (if drop_bit 1 f7 = 0 then Some (push_bit shamt a) else None)
      else if f3 = 2 then Some (of_bool (a <s scast imm))
      else if f3 = 3 then Some (of_bool (a < scast imm))
      else if f3 = 4 then Some (a XOR scast imm)
      else if f3 = 5 then
        (if drop_bit 1 f7 = 0 then Some (drop_bit shamt a)
         else if drop_bit 1 f7 = 0b010000 then Some (signed_drop_bit shamt a) else None)
      else if f3 = 6 then Some (a OR scast imm)
      else Some (a AND scast imm))"

definition no_overflow :: "int \<Rightarrow> bool" where
  "no_overflow r \<longleftrightarrow> - (2 ^ 63) \<le> r \<and> r < 2 ^ 63"

lemma c_add_u64: "no_overflow (sint a + sint b) \<Longrightarrow> c_add (a :: u64) b = Inr (a + b)"
  by (simp add: c_add_def c_signed_def no_overflow_def)

lemma c_sub_u64: "no_overflow (sint a - sint b) \<Longrightarrow> c_sub (a :: u64) b = Inr (a - b)"
  by (simp add: c_sub_def c_signed_def no_overflow_def)

lemma c_mul_u64: "no_overflow (sint a * sint b) \<Longrightarrow> c_mul (a :: u64) b = Inr (a * b)"
  by (simp add: c_mul_def c_signed_def no_overflow_def)

text \<open>With \<open>funct7\<close> zero the immediate is the five-bit shift amount.\<close>

lemma shift_immediate:
  assumes "r_funct7 (data_r w) = 0"
  shows "unat (i_temp w) = unat (take_bit 6 (imm_I w))" "unat (i_temp w) < 32"
proof -
  have hi: "\<not> bit w (25 + n)" if "n < 7" for n
    using assms that by (auto simp: data_r_def bit_eq_iff bit_ucast_iff bit_drop_bit_eq)
  have "i_temp w = ucast (take_bit 5 (imm_I w))"
  proof (rule bit_word_eqI)
    fix n assume "n < LENGTH(64)"
    show "bit (i_temp w) n = bit (ucast (take_bit 5 (imm_I w)) :: u64) n"
      using hi [of "n - 5"] unfolding i_temp_def imm_I_def data_i_def
      by (cases "n < 5") (auto simp: bit_ucast_iff bit_drop_bit_eq bit_take_bit_iff)
  qed
  moreover have "take_bit 6 (imm_I w) = take_bit 5 (imm_I w)"
  proof (rule bit_word_eqI)
    fix n
    show "bit (take_bit 6 (imm_I w)) n = bit (take_bit 5 (imm_I w)) n"
      using hi [of 0] unfolding imm_I_def
      by (cases "n = 5") (auto simp: bit_ucast_iff bit_drop_bit_eq bit_take_bit_iff)
  qed
  moreover have "unat (take_bit 5 (imm_I w)) < 32"
    by (simp add: unsigned_take_bit_eq take_bit_nat_less_exp [of 5, simplified])
  ultimately show "unat (i_temp w) = unat (take_bit 6 (imm_I w))" "unat (i_temp w) < 32"
    by (simp_all add: unat_ucast_up)
qed

lemma i_temp_imm: "i_temp w = ucast (imm_I w)" "extend_i16 (i_temp w) = scast (imm_I w)"
  by (simp_all add: i_temp_def imm_I_def data_i_def extend_i16_scast)

lemma ucast_eq_scast_nonneg:
  "\<not> bit (i :: 12 word) 11 \<Longrightarrow> (ucast i :: u64) = scast i"
  by (intro bit_word_eqI) (auto simp: bit_ucast_iff bit_scast_iff dest: bit_imp_le_length)

lemmas op_imm_handler_defs =
  riscv_addi_def riscv_slli_def riscv_slti_def riscv_sltiu_def riscv_xori_def riscv_srli_def
  riscv_srai_def riscv_ori_def riscv_andi_def

lemma op_imm_eq:
  assumes "f3 = i_funct3 (data_i w)" "f7 = r_funct7 (data_r w)"
    and "isa_op_imm f3 f7 (x_rs1_value x) (imm_I w) = Some v"
    and "f3 = 0 \<longrightarrow> no_overflow (sint (x_rs1_value x) + sint (imm_I w))"
    and "f3 = 3 \<longrightarrow> \<not> bit (imm_I w) 11" and "f3 \<in> {1, 5} \<longrightarrow> f7 = 0"
  shows "riscv_arithmetic1_dispatch x w c = Inr (put_reg (i_dest w) v c)"
proof -
  have sint_scast: "sint (scast (i :: 12 word) :: u64) = sint i" for i
    by (simp add: signed_scast_eq signed_take_bit_int_eq_self_iff order_less_le_trans
        [OF sint_lt] order_trans [OF _ sint_ge])
  show ?thesis
    using cases_3word [of f3] assms(3-6) shift_immediate [of w]
    by (elim disjE)
      (auto simp: riscv_arithmetic1_dispatch_def assms(1,2) [symmetric] isa_op_imm_def Let_def
        op_imm_handler_defs put_result_def i_temp_imm extend_i16_scast c_add_u64 sint_scast c_shl_def c_shr_def
        ucast_eq_scast_nonneg)
qed

text \<open>
  Property C22: register-immediate arithmetic computes the result of the instruction set and
  prepares its write to the destination register: for every operand of \<open>slti\<close>, \<open>xori\<close>, \<open>ori\<close>
  and \<open>andi\<close>, for \<open>addi\<close> whenever the sum does not overflow, for \<open>sltiu\<close> with a non-negative
  immediate, and for \<open>slli\<close> and \<open>srli\<close> by amounts below 32.
\<close>
theorem op_imm_correct:
  assumes "f3 = i_funct3 (data_i w)" "f7 = r_funct7 (data_r w)"
    and "isa_op_imm f3 f7 (x_rs1_value x) (imm_I w) = Some v"
    and "f3 = 0 \<longrightarrow> no_overflow (sint (x_rs1_value x) + sint (imm_I w))"
    and "f3 = 3 \<longrightarrow> \<not> bit (imm_I w) 11" and "f3 \<in> {1, 5} \<longrightarrow> f7 = 0"
  shows "riscv_arithmetic1_dispatch x w c = Inr (put_reg (i_dest w) v c)"
  by (rule op_imm_eq [OF assms])

definition fresh_ctx :: exec_ctx where
  "fresh_ctx = \<lparr>ctx_pc = 4, ctx_m = zero_m, ctx_out = []\<rparr>"

text \<open>\<open>addi x5, x1, -3\<close> with 10 in x1.\<close>

theorem op_imm_correct_witness:
  "riscv_arithmetic1_dispatch (zero_x\<lparr>x_rs1_value := 10\<rparr>) 0xFFD08293 fresh_ctx =
     Inr (put_reg 5 7 fresh_ctx)"
proof -
  have f: "0 = i_funct3 (data_i 0xFFD08293)" "0x7F = r_funct7 (data_r 0xFFD08293)"
    "i_dest 0xFFD08293 = 5" "imm_I 0xFFD08293 = 0xFFD"
    by (simp_all add: data_i_def data_r_def i_dest_def imm_I_def)
  have imm: "sint (0xFFD :: 12 word) = - 3" "(scast (0xFFD :: 12 word) :: u64) = - 3" by simp_all
  show ?thesis
    using op_imm_correct [OF f(1,2), of "zero_x\<lparr>x_rs1_value := 10\<rparr>" 7 fresh_ctx]
    by (simp add: f(3,4) isa_op_imm_def Let_def no_overflow_def imm)
qed

text \<open>The result of the instruction set for OP, with its conventions for division by zero.\<close>

definition isa_op :: "3 word \<Rightarrow> 7 word \<Rightarrow> u64 \<Rightarrow> u64 \<Rightarrow> u64 option" where
  "isa_op f3 f7 a b =
     (let shamt = unat (take_bit 6 b); overflow = (b = - 1 \<and> a = 0x8000000000000000) in
      if f7 = 0 then Some
        (if f3 = 0 then a + b else if f3 = 1 then push_bit shamt a
         else if f3 = 2 then of_bool (a <s b) else if f3 = 3 then of_bool (a < b)
         else if f3 = 4 then a XOR b else if f3 = 5 then drop_bit shamt a
         else if f3 = 6 then a OR b else a AND b)
      else if f7 = 0b0100000 then
        (if f3 = 0 then Some (a - b) else if f3 = 5 then Some (signed_drop_bit shamt a) else None)
      else if f7 = 1 then Some
        (if f3 = 0 then a * b
         else if f3 = 1 then word_of_int (sint a * sint b div 2 ^ 64)
         else if f3 = 2 then word_of_int (sint a * uint b div 2 ^ 64)
         else if f3 = 3 then word_of_int (uint a * uint b div 2 ^ 64)
         else if f3 = 4 then (if b = 0 then - 1 else if overflow then a
                              else word_of_int (sint a sdiv sint b))
         else if f3 = 5 then (if b = 0 then - 1 else a div b)
         else if f3 = 6 then (if b = 0 then a else if overflow then 0
                              else word_of_int (sint a smod sint b))
         else (if b = 0 then a else a mod b))
      else None)"

text \<open>
  The operands for which a handler of this group follows the instruction set. \<open>add\<close>, \<open>xor\<close> and \<open>srl\<close>
  are computed on the low halves of their operands: \<open>add\<close> is right for operands and a sum that are
  32-bit signed numbers, \<open>xor\<close> and \<open>srl\<close> for operands whose upper half is zero. The difference and the
  product must not overflow in 64 bits, shift counts must be below the width, and the divisor is not 0
  where the code answers \<open>-1\<close> and the instruction set does not. \<open>mulh\<close>, \<open>mulhsu\<close> and \<open>mulhu\<close> are left
  out altogether: they return the product shifted by 32.
\<close>

definition small_32 :: "int \<Rightarrow> bool" where
  "small_32 i \<longleftrightarrow> - (2 ^ 31) \<le> i \<and> i < 2 ^ 31"

definition op_agrees :: "3 word \<Rightarrow> 7 word \<Rightarrow> u64 \<Rightarrow> u64 \<Rightarrow> bool" where
  "op_agrees f3 f7 a b \<longleftrightarrow>
     (let overflow = (b = - 1 \<and> a = 0x8000000000000000); halves = (a < 2 ^ 32 \<and> b < 2 ^ 32) in
      f7 = 0 \<and> (f3 = 0 \<and> small_32 (sint a) \<and> small_32 (sint b) \<and> small_32 (sint a + sint b) \<or>
        f3 = 1 \<and> b < 64 \<or> f3 = 2 \<or> f3 = 3 \<or> f3 = 4 \<and> halves \<or> f3 = 5 \<and> halves \<and> b < 32 \<or>
        f3 = 6 \<or> f3 = 7) \<or>
      f7 = 0b0100000 \<and> (f3 = 0 \<and> no_overflow (sint a - sint b) \<or> f3 = 5 \<and> b < 64) \<or>
      f7 = 1 \<and> (f3 = 0 \<and> no_overflow (sint a * sint b) \<or> f3 = 4 \<and> \<not> overflow \<or> f3 = 5 \<or>
        f3 = 6 \<and> b \<noteq> 0 \<and> \<not> overflow \<or> f3 = 7 \<and> b \<noteq> 0))"

text \<open>The three operations on the low halves.\<close>

lemma unat_take_bit_6: "b < 64 \<Longrightarrow> unat (take_bit 6 (b :: u64)) = unat b"
  by (simp add: unsigned_take_bit_eq take_bit_nat_eq_self_iff word_less_nat_alt)

lemma sint_low:
  assumes "small_32 (sint (a :: u64))"
  shows "sint (ucast a :: u32) = sint a"
proof -
  have "sint (ucast a :: u32) = signed_take_bit 31 (sint a)"
    by (rule bit_eqI) (auto simp: bit_signed_iff bit_signed_take_bit_iff bit_ucast_iff min_def)
  with assms show ?thesis by (simp add: small_32_def signed_take_bit_int_eq_self_iff)
qed

lemma add_low:
  assumes "small_32 (sint a)" "small_32 (sint b)" "small_32 (sint a + sint b)"
  shows "of_i32 (c_add (ucast a) (ucast (b :: u64))) = Inr (a + b)"
proof -
  have "sint (word_of_int i :: u32) = i" if "small_32 i" for i
    using that by (simp add: sint_sbintrunc' small_32_def signed_take_bit_int_eq_self_iff)
  from this [OF assms(3)] have "sint (word_of_int (sint a + sint b) :: u32) = sint a + sint b" .
  then have "(scast (word_of_int (sint a + sint b) :: u32) :: u64) = a + b"
    unfolding scast_eq by simp
  with assms show ?thesis
    by (simp add: of_i32_def c_add_def c_signed_def sint_low small_32_def)
qed

lemma low_half: "a < 2 ^ 32 \<Longrightarrow> ucast (ucast a :: u32) = (a :: u64)"
  by (simp add: word_unat_eq_iff unsigned_ucast_eq unsigned_take_bit_eq take_bit_nat_eq_self_iff word_less_nat_alt)

lemma xor_low: "a < 2 ^ 32 \<Longrightarrow> b < 2 ^ 32 \<Longrightarrow> ucast (ucast a XOR ucast b :: u32) = (a XOR b :: u64)"
  using low_half [of a] low_half [of b] by (metis unsigned_xor_eq)

lemma srl_low:
  assumes "a < 2 ^ 32" "b < (32 :: u64)"
  shows "of_u32 (c_shr (ucast a :: u32) (ucast b :: u32)) = Inr (drop_bit (unat (take_bit 6 b)) (a :: u64))"
proof -
  have b: "unat (ucast b :: u32) = unat b" "unat b < 32"
    using assms(2) by (simp_all add: unsigned_ucast_eq take_bit_nat_eq_self_iff word_less_nat_alt)
  have "ucast (drop_bit (unat b) (ucast a :: u32)) = drop_bit (unat b) (ucast (ucast a :: u32) :: u64)"
    by (rule bit_word_eqI) (auto simp: bit_ucast_iff bit_drop_bit_eq dest: bit_imp_le_length)
  then have "ucast (drop_bit (unat b) (ucast a :: u32)) = drop_bit (unat b) a"
    unfolding low_half [OF assms(1)] .
  moreover have "b < 64" using b(2) by (simp add: word_less_nat_alt)
  ultimately show ?thesis using b by (simp add: of_u32_def c_shr_def unat_take_bit_6)
qed

lemma c_div_u64:
  fixes a b :: u64
  assumes "b \<noteq> 0" "\<not> (b = - 1 \<and> a = 0x8000000000000000)"
  shows "c_div a b = Inr (word_of_int (sint a sdiv sint b))"
    and "c_mod a b = Inr (word_of_int (sint a smod sint b))"
  using c_div_value [of b a] assms sint_min(1) [of a] by simp_all

lemmas op_handler_defs =
  riscv_add_def riscv_sub_def riscv_mul_def riscv_sll_def riscv_mulh_def riscv_slt_def
  riscv_mulhsu_def riscv_sltu_def riscv_mulhu_def riscv_xor_def riscv_div_def riscv_srl_def
  riscv_sra_def riscv_divu_def riscv_or_def riscv_rem_def riscv_and_def riscv_remu_def

lemma op_eq:
  assumes "f3 = r_funct3 (data_r w)" "f7 = r_funct7 (data_r w)"
    and "op_agrees f3 f7 (x_rs1_value x) (x_rs2_value x)"
  shows "\<exists>v. isa_op f3 f7 (x_rs1_value x) (x_rs2_value x) = Some v \<and>
    (\<forall>c. riscv_arithmetic2_dispatch x w c = Inr (put_reg (r_dest w) v c))"
  using assms(3)
  unfolding op_agrees_def Let_def
  by (elim disjE conjE)
    (auto simp: riscv_arithmetic2_dispatch_def assms(1,2) [symmetric] isa_op_def Let_def
      op_handler_defs put_result_def c_sub_u64 c_mul_u64 c_div_u64 c_shl_def c_sar_def
      add_low xor_low srl_low unat_take_bit_6 word_less_nat_alt)

text \<open>
  Property C13: register-register arithmetic. On the operands of \<open>op_agrees\<close> (\<open>add\<close>, \<open>xor\<close> and \<open>srl\<close>
  on 32-bit operands only, \<open>mulh\<close>, \<open>mulhsu\<close> and \<open>mulhu\<close> not at all) the handler selected
  by \<open>funct3\<close> and \<open>funct7\<close> computes the result of the instruction set, including the special
  results of a division by zero, and prepares its write to the destination register.
\<close>
theorem op_correct:
  assumes "f3 = r_funct3 (data_r w)" "f7 = r_funct7 (data_r w)"
    and "op_agrees f3 f7 (x_rs1_value x) (x_rs2_value x)"
  shows "\<exists>v. isa_op f3 f7 (x_rs1_value x) (x_rs2_value x) = Some v \<and>
    riscv_arithmetic2_dispatch x w c = Inr (put_reg (r_dest w) v c)"
  using op_eq [OF assms] by blast

text \<open>\<open>sub x3, x1, x2\<close> with 10 in x1 and 4 in x2.\<close>

theorem op_correct_witness:
  "riscv_arithmetic2_dispatch (zero_x\<lparr>x_rs1_value := 10, x_rs2_value := 4\<rparr>) 0x402081B3 fresh_ctx =
     Inr (put_reg 3 6 fresh_ctx)"
proof -
  have f: "0 = r_funct3 (data_r 0x402081B3)" "0b0100000 = r_funct7 (data_r 0x402081B3)"
    "r_dest 0x402081B3 = 3"
    by (simp_all add: data_r_def r_dest_def)
  show ?thesis
    using op_correct [OF f(1,2), of "zero_x\<lparr>x_rs1_value := 10, x_rs2_value := 4\<rparr>" fresh_ctx]
    by (auto simp: f(3) isa_op_def op_agrees_def Let_def no_overflow_def)
qed

section \<open>Where the handlers leave the instruction set\<close>

text \<open>
  The arithmetic right shifts by an immediate pass the whole immediate, with the
  \<open>funct7\<close> marker still in it, as the shift count. The count is at least 1024 for every operand,
  so the C shift is undefined for every \<open>srai\<close> and every \<open>sraiw\<close>.
\<close>
lemma shift_right_arithmetic_immediate_undefined:
  assumes "i_funct3 (data_i w) = 5" "r_funct7 (data_r w) = 0b0100000"
  shows "riscv_arithmetic1_dispatch x w c = Inl ShiftOutOfRange \<and>
    riscv_arithmetic1_64_dispatch x w c = Inl ShiftOutOfRange"
proof -
  have "bit (r_funct7 (data_r w)) 5"
    using assms(2) by simp
  then have "bit w 30"
    by (simp add: data_r_def bit_ucast_iff bit_drop_bit_eq)
  then have b: "bit (i_temp w) 10"
    by (simp add: i_temp_def data_i_def bit_ucast_iff bit_drop_bit_eq)
  have big: "64 \<le> unat v" if "bit v 10" for v :: "'a::len word"
  proof -
    from that have "bit (unat v) 10" by (simp add: bit_unsigned_iff)
    then have "2 ^ 10 \<le> unat v" by (metis bit_nat_def div_less dvd_0_right not_less)
    then show ?thesis by simp
  qed
  have "bit (ucast (i_temp w) :: u32) 10"
    using b by (simp add: bit_ucast_iff)
  with big [OF b] big [OF this] assms show ?thesis
    by (simp add: riscv_arithmetic1_dispatch_def riscv_arithmetic1_64_dispatch_def
        riscv_srai_def riscv_sraiw_def put_result_def of_u32_def c_sar_def Let_def)
qed

lemma shift_right_arithmetic_immediate_undefined_example:
  "riscv_arithmetic1_dispatch zero_x 0x40115093 \<lparr>ctx_pc = 4, ctx_m = zero_m, ctx_out = []\<rparr> =
     Inl ShiftOutOfRange"
proof -
  have "i_funct3 (data_i 0x40115093) = 5" "r_funct7 (data_r 0x40115093) = 0b0100000"
    by (simp_all add: data_i_def data_r_def)
  then show ?thesis
    using shift_right_arithmetic_immediate_undefined by blast
qed

text \<open>
  Property C33: \<open>add\<close> is computed in 32 bits. The handler overflows, an undefined signed overflow,
  exactly when the sum of the signed low halves of the operands leaves 32 bits. Otherwise the
  destination receives the sign-extended low half of the 64-bit sum, which is the sum that the
  instruction set asks for exactly when that sum fits in 32 signed bits.
\<close>
theorem add_computes_in_32_bits:
  "let a = x_rs1_value x; b = x_rs2_value x; s = sint (ucast a :: u32) + sint (ucast b :: u32);
       v = scast (ucast (a + b) :: u32) :: u64
   in riscv_add x w c =
        (if - (2 ^ 31) \<le> s \<and> s < 2 ^ 31 then Inr (put_reg (r_dest w) v c) else Inl SignedOverflow) \<and>
      (v = a + b \<longleftrightarrow> - (2 ^ 31) \<le> sint (a + b) \<and> sint (a + b) < 2 ^ 31)"
proof -
  let ?s = "x_rs1_value x + x_rs2_value x"
  have "ucast ?s = w1 x + w2 x" by (rule ucast_add_u32)
  moreover have "sint (scast (ucast ?s :: u32) :: u64) = signed_take_bit 31 (sint ?s)"
    by (rule bit_eqI)
      (auto simp: bit_signed_take_bit_iff bit_signed_iff bit_ucast_iff min_def)
  then have "(scast (ucast ?s :: u32) :: u64) = ?s \<longleftrightarrow> signed_take_bit 31 (sint ?s) = sint ?s"
    by (metis signed_word_eqI)
  ultimately show ?thesis
    by (simp add: riscv_add_def put_result_def of_i32_def c_add_def c_signed_def Let_def
        signed_take_bit_int_eq_self_iff)
qed

text \<open>\<open>add x3, x1, x2\<close> with \<open>2 ^ 31\<close> in x1 and x2 zero: the result is negative.\<close>

theorem add_computes_in_32_bits_witness:
  "riscv_add (zero_x\<lparr>x_rs1_value := 0x80000000\<rparr>) 0x002081B3 fresh_ctx =
     Inr (put_reg 3 (- 0x80000000) fresh_ctx)"
proof -
  have "r_dest 0x002081B3 = 3" by (simp add: r_dest_def data_r_def)
  then show ?thesis
    using add_computes_in_32_bits [of "zero_x\<lparr>x_rs1_value := 0x80000000\<rparr>" "0x002081B3" fresh_ctx]
    by (simp add: zero_x_def)
qed

section \<open>Frame of the dispatch table\<close>

text \<open>What a handler did to its context: reported the instruction, or prepared a write.\<close>

lemma put_result_Inr: "put_result r v c = Inr c' \<Longrightarrow> \<exists>u. c' = put_reg r u c"
  by (auto simp: put_result_def split: sum.splits)

lemma illegal_Inr:
  "riscv_illegal_instruction x w c = Inr c' \<longleftrightarrow> c' = c\<lparr>ctx_out := ctx_out c @ [(ctx_pc c - 4, w)]\<rparr>"
  by (auto simp: riscv_illegal_instruction_def)

definition alu_outcome :: "u32 \<Rightarrow> exec_ctx \<Rightarrow> exec_ctx \<Rightarrow> bool" where
  "alu_outcome w c c' \<longleftrightarrow>
     (\<exists>v. c' = put_reg (r_dest w) v c) \<or> c' = c\<lparr>ctx_out := ctx_out c @ [(ctx_pc c - 4, w)]\<rparr>"

lemma dest_views: "i_dest w = r_dest w" "u_dest w = r_dest w"
  by (simp_all add: i_dest_def r_dest_def u_dest_def data_i_def data_r_def data_u_def)

lemmas op_imm_32_handler_defs =
  riscv_addiw_def riscv_slliw_def riscv_srliw_def riscv_sraiw_def
lemmas op_32_handler_defs =
  riscv_addw_def riscv_subw_def riscv_mulw_def riscv_sllw_def riscv_divw_def riscv_srlw_def
  riscv_sraw_def riscv_divuw_def riscv_remw_def riscv_remuw_def

lemma arithmetic_outcome:
  assumes "riscv_arithmetic1_dispatch x w c = Inr c' \<or> riscv_arithmetic1_64_dispatch x w c = Inr c' \<or>
    riscv_arithmetic2_dispatch x w c = Inr c' \<or> riscv_arithmetic2_64_dispatch x w c = Inr c'"
  shows "alu_outcome w c c'"
  using assms
  unfolding riscv_arithmetic1_dispatch_def riscv_arithmetic1_64_dispatch_def
    riscv_arithmetic2_dispatch_def riscv_arithmetic2_64_dispatch_def alu_outcome_def
    op_imm_handler_defs op_imm_32_handler_defs op_handler_defs op_32_handler_defs Let_def dest_views
  by (auto simp: illegal_Inr split: if_splits dest!: put_result_Inr)

lemma dispatch_effects:
  assumes "major_dispatch_table (u_opcode (data_u w)) x w c = Inr c'"
    and "opcode = u_opcode (data_u w)"
  shows "m_pc (ctx_m c') = m_pc (ctx_m c) \<and>
    m_tainted_executions (ctx_m c') = m_tainted_executions (ctx_m c) \<and>
    m_wasStalled (ctx_m c') = m_wasStalled (ctx_m c) \<and>
    m_stallStatus (ctx_m c') = m_stallStatus (ctx_m c) \<and>
    (opcode \<notin> {0b1101111, 0b1100111, 0b1100011} \<longrightarrow> ctx_pc c' = ctx_pc c) \<and>
    (m_readWrite (ctx_m c') \<noteq> m_readWrite (ctx_m c) \<longrightarrow>
      m_readWrite (ctx_m c') =
        (if opcode = 0b0000011 then 2 else if opcode = 0b0100011 then 1 else 3)) \<and>
    (m_readWrite (ctx_m c') = 3 \<and> m_readWrite (ctx_m c) \<noteq> 3 \<longrightarrow>
      opcode \<in> {0b0010111, 0b0110111, 0b1101111, 0b1100111, 0b0010011, 0b0011011, 0b0110011,
        0b0111011} \<and> m_reg (ctx_m c') = r_dest w) \<and>
    (ctx_out c' = ctx_out c \<or> ctx_out c' = ctx_out c @ [(ctx_pc c - 4, w)])"
proof -
  have alu: "alu_outcome w c c'" if "opcode \<in> {0b0010011, 0b0011011, 0b0110011, 0b0111011}"
    using assms that by (auto simp: major_dispatch_table_def intro: arithmetic_outcome)
  show ?thesis
  proof (cases "opcode \<in> {0b0010011, 0b0011011, 0b0110011, 0b0111011}")
    case True
    with alu [OF this] show ?thesis
      by (auto simp: alu_outcome_def put_reg_def prepare_register_write_def)
  next
    case False
    with assms show ?thesis
      by (auto simp: major_dispatch_table_def load_dispatch_eq store_dispatch_eq branch_dispatch_eq
          riscv_auipc_def riscv_lui_def riscv_nop_def jal_eq jalr_eq illegal_Inr put_reg_def
          prepare_register_write_def dest_views Let_def split: if_splits option.splits bool.splits)
  qed
qed

text \<open>
  Property C21: what an instruction can do. Through the dispatch table no handler touches the
  stall and flush fields or the recorded address of the memory register; the program counter
  moves only for jumps and branches; a register write is prepared only by the upper-immediate,
  jump and arithmetic opcodes, a memory read only by loads, a memory write only by stores; and a
  message is printed at most once, with the address and the word of the instruction.
\<close>
theorem dispatch_frame:
  assumes "major_dispatch_table (u_opcode (data_u w)) x w c = Inr c'"
    and "opcode = u_opcode (data_u w)"
  shows "m_pc (ctx_m c') = m_pc (ctx_m c) \<and>
    m_tainted_executions (ctx_m c') = m_tainted_executions (ctx_m c) \<and>
    m_wasStalled (ctx_m c') = m_wasStalled (ctx_m c) \<and>
    m_stallStatus (ctx_m c') = m_stallStatus (ctx_m c) \<and>
    (opcode \<notin> {0b1101111, 0b1100111, 0b1100011} \<longrightarrow> ctx_pc c' = ctx_pc c) \<and>
    (m_readWrite (ctx_m c') \<noteq> m_readWrite (ctx_m c) \<longrightarrow>
      m_readWrite (ctx_m c') =
        (if opcode = 0b0000011 then 2 else if opcode = 0b0100011 then 1 else 3)) \<and>
    (m_readWrite (ctx_m c') = 3 \<and> m_readWrite (ctx_m c) \<noteq> 3 \<longrightarrow>
      opcode \<in> {0b0010111, 0b0110111, 0b1101111, 0b1100111, 0b0010011, 0b0011011, 0b0110011,
        0b0111011} \<and> m_reg (ctx_m c') = r_dest w) \<and>
    (ctx_out c' = ctx_out c \<or> ctx_out c' = ctx_out c @ [(ctx_pc c - 4, w)])"
  by (rule dispatch_effects [OF assms])

theorem dispatch_frame_witness:
  "\<exists>c'. major_dispatch_table 0b0010011 (zero_x\<lparr>x_rs1_value := 10\<rparr>) 0xFFD08293 fresh_ctx = Inr c' \<and>
    ctx_pc c' = 4 \<and> m_pc (ctx_m c') = 0"
proof -
  have o: "u_opcode (data_u 0xFFD08293) = 0b0010011" by (simp add: data_u_def)
  have f: "0 = i_funct3 (data_i 0xFFD08293)" "0x7F = r_funct7 (data_r 0xFFD08293)"
    "imm_I 0xFFD08293 = 0xFFD"
    by (simp_all add: data_i_def data_r_def imm_I_def)
  obtain c' where c: "major_dispatch_table (u_opcode (data_u 0xFFD08293))
      (zero_x\<lparr>x_rs1_value := 10\<rparr>) 0xFFD08293 fresh_ctx = Inr c'"
    using op_imm_eq [OF f(1,2), of "zero_x\<lparr>x_rs1_value := 10\<rparr>" 7 fresh_ctx]
    by (simp add: o f(3) major_dispatch_table_def isa_op_imm_def Let_def no_overflow_def)
  then show ?thesis
    using dispatch_frame [OF c refl] by (auto simp: o fresh_ctx_def zero_m_def)
qed

section \<open>Well-formed accesses\<close>

text \<open>
  What the memory stage may find in its register: nothing, a store, a load or a register write;
  a register number below 32 where one is used, one of the four access sizes, and no sign extension
  of a full doubleword. Every handler keeps it.
\<close>

definition wf_m :: "stage_reg_m \<Rightarrow> bool" where
  "wf_m m \<longleftrightarrow>
     m_readWrite m \<in> {0, 1, 2, 3} \<and> (m_readWrite m \<in> {2, 3} \<longrightarrow> m_reg m < 32) \<and>
     (m_readWrite m \<in> {1, 2} \<longrightarrow> m_size m \<in> {1, 2, 4, 8}) \<and>
     (m_readWrite m = 2 \<and> m_size m = 8 \<longrightarrow> m_signExtend m = 0)"

lemma r_dest_small: "r_dest w < 32"
proof -
  have "unat (r_rd (data_r w)) < 32" using unsigned_less [of "r_rd (data_r w)", where 'a = nat] by simp
  then show ?thesis by (simp add: r_dest_def word_less_nat_alt unat_ucast_up)
qed

lemma load_kind_sizes: "load_kind f = Some (sz, sign) \<Longrightarrow> sz \<in> {1, 2, 4, 8} \<and> (sz = 8 \<longrightarrow> \<not> sign)"
  using cases_3word [of f] by (elim disjE) (auto simp: load_kind_def)

lemma store_size_sizes: "store_size f = Some sz \<Longrightarrow> sz \<in> {1, 2, 4, 8}"
  using cases_3word [of f] by (elim disjE) (auto simp: store_size_def)

lemma wf_m_put_reg: "wf_m (ctx_m (put_reg (r_dest w) v c))"
  by (simp add: wf_m_def put_reg_def prepare_register_write_def r_dest_small)

lemma load_wf_m:
  assumes "riscv_load_dispatch x w c = Inr c'" "wf_m (ctx_m c)"
  shows "wf_m (ctx_m c')"
proof (cases "load_kind (i_funct3 (data_i w))")
  case None
  with assms show ?thesis by (auto simp: load_dispatch_eq illegal_Inr)
next
  case (Some k)
  then obtain sz sign where k: "load_kind (i_funct3 (data_i w)) = Some (sz, sign)" by (cases k) simp
  with assms(1) have "ctx_m c' = (ctx_m c)\<lparr>m_readWrite := 2,
      m_address := x_rs1_value x + scast (imm_I w), m_size := sz, m_reg := r_dest w,
      m_signExtend := of_bool sign\<rparr>"
    by (auto simp: load_dispatch_eq dest_views)
  with load_kind_sizes [OF k] show ?thesis by (simp add: wf_m_def r_dest_small)
qed

lemma store_wf_m:
  assumes "riscv_store_dispatch x w c = Inr c'" "wf_m (ctx_m c)"
  shows "wf_m (ctx_m c')"
proof (cases "store_size (s_funct3 (data_s w))")
  case None
  with assms show ?thesis by (auto simp: store_dispatch_eq illegal_Inr)
next
  case (Some sz)
  with assms(1) have "ctx_m c' = (ctx_m c)\<lparr>m_address := x_rs1_value x + scast (imm_S w),
      m_signExtend := 0, m_value := take_bit (8 * unat sz) (x_rs2_value x), m_size := sz,
      m_readWrite := 1\<rparr>"
    by (auto simp: store_dispatch_eq)
  with store_size_sizes [OF Some] show ?thesis by (simp add: wf_m_def)
qed

lemma dispatch_wf_m:
  assumes "major_dispatch_table opcode x w c = Inr c'" "wf_m (ctx_m c)"
  shows "wf_m (ctx_m c')"
proof -
  consider (alu) "alu_outcome w c c'" | (load) "riscv_load_dispatch x w c = Inr c'"
    | (store) "riscv_store_dispatch x w c = Inr c'"
    | (reg) v where "ctx_m c' = ctx_m (put_reg (r_dest w) v c)" | (none) "ctx_m c' = ctx_m c"
    using assms(1)
    unfolding major_dispatch_table_def
    by (auto simp: branch_dispatch_eq riscv_auipc_def riscv_lui_def riscv_nop_def jal_eq jalr_eq
        illegal_Inr dest_views Let_def intro: arithmetic_outcome
        split: if_splits option.splits bool.splits)
  then show ?thesis
    by cases (use assms(2) wf_m_put_reg in \<open>auto simp: alu_outcome_def intro: load_wf_m store_wf_m\<close>)
qed
end
