(* ===== verification/TLB.thy ===== *)
theory TLB
  imports Framework_Memory
begin

text \<open>
  The translation lookaside buffers of \<open>src/src/TLB.c\<close>: eight direct-mapped entries for 16 KB
  superpages and a two-level page-table walk that issues at most one memory access per call and
  reports its progress as a status byte (0 and 1: waiting for the first and second level, 2: first
  level read, 0x80: invalid entry, 0xFF: translated by a walk, 0xFE: translated by an entry).
\<close>

section \<open>State and operations\<close>

record tlb_entry =
  te_valid :: bool
  te_physical_page :: "18 word"
  te_virtual_page :: "15 word"

record tlb =
  entries :: "tlb_entry list"
  cached_second_index :: u32

definition empty_tlb :: tlb where
  "empty_tlb =
     \<lparr>entries = replicate 8 \<lparr>te_valid = False, te_physical_page = 0, te_virtual_page = 0\<rparr>,
      cached_second_index = 0\<rparr>"

definition first_level_index :: "framework \<Rightarrow> u32 \<Rightarrow> u32" where
  "first_level_index f virtual_page =
     (let virtual_superpage = drop_bit 2 virtual_page
      in ucast (ucast (push_bit 2 (drop_bit 8 virtual_superpage)) + get_ptbr f))"

definition second_level_address :: "u32 \<Rightarrow> u32 \<Rightarrow> u32" where
  "second_level_address second_level_index virtual_page =
     push_bit 12 (drop_bit 1 (push_bit 1 second_level_index)) + push_bit 2 (virtual_page AND 0xFF)"

text \<open>What the uninitialised local of the walk holds in this call.\<close>

definition local_buffer :: "framework \<Rightarrow> u8 list" where
  "local_buffer f = le_bytes 4 (uninit f (cycle_counter f) (current_stage f))"

text \<open>The end of the walk, from the second-level entry on.\<close>

definition finish_walk :: "tlb \<Rightarrow> u32 \<Rightarrow> u32 \<Rightarrow> u32 \<Rightarrow> u32 \<Rightarrow> (u8 \<times> u32 \<times> tlb) result" where
  "finish_walk cache tlb_index virtual_page ret_physical_page physical_page =
     (let virtual_superpage = drop_bit 2 virtual_page in
      if drop_bit 31 physical_page = 0 then Inr (0x80, ret_physical_page, cache)
      else if drop_bit 3 virtual_superpage \<noteq> tlb_index then Inl SuperpageIndexMismatch
      else let e = \<lparr>te_valid = True,
                    te_physical_page = ucast (drop_bit 3 (push_bit 1 physical_page)),
                    te_virtual_page = ucast (drop_bit 3 virtual_superpage)\<rparr>
           in Inr (0xFF, ucast (te_physical_page e),
                   cache\<lparr>entries := (entries cache)[unat tlb_index := e]\<rparr>))"

definition update_tlb_entry :: "framework \<Rightarrow> tlb \<Rightarrow> u32 \<Rightarrow> u32 \<Rightarrow> u32 \<Rightarrow> u8 \<Rightarrow>
    (u8 \<times> u32 \<times> tlb \<times> framework) result" where
  "update_tlb_entry f cache tlb_index virtual_page ret_physical_page status =
     (let first = ucast (first_level_index f virtual_page) :: u64 in
      if status = 0 then
        (case memory_status f first (Some (local_buffer f)) of
           Inl e \<Rightarrow> Inl e
         | Inr (memory_direct_status, v, f1) \<Rightarrow>
             if \<not> memory_direct_status then Inr (0, ret_physical_page, cache, f1)
             else Inr (2, ret_physical_page, cache\<lparr>cached_second_index := le_word (the v)\<rparr>, f1))
      else if status = 0xFF then
        (case memory_read f first (local_buffer f) 4 of
           Inl e \<Rightarrow> Inl e
         | Inr (memory_direct_status, v, f1) \<Rightarrow>
             if \<not> memory_direct_status then Inr (0, ret_physical_page, cache, f1)
             else Inr (2, ret_physical_page, cache\<lparr>cached_second_index := le_word v\<rparr>, f1))
      else
        let second_level_index = cached_second_index cache in
        if drop_bit 31 second_level_index \<noteq> 1 then Inr (0x80, ret_physical_page, cache, f)
        else
          let second = ucast (second_level_address second_level_index virtual_page) :: u64 in
          (case (if status \<noteq> 1
                 then (case memory_read f second (local_buffer f) 4 of
                         Inl e \<Rightarrow> Inl e
                       | Inr (d, v, f1) \<Rightarrow> Inr (d, v, f1))
                 else (case memory_status f second (Some (local_buffer f)) of
                         Inl e \<Rightarrow> Inl e
                       | Inr (d, v, f1) \<Rightarrow> Inr (d, the v, f1))) of
             Inl e \<Rightarrow> Inl e
           | Inr (d, v, f1) \<Rightarrow>
               if \<not> d then Inr (1, ret_physical_page, cache, f1)
               else (case finish_walk cache tlb_index virtual_page ret_physical_page (le_word v) of
                       Inl e \<Rightarrow> Inl e
                     | Inr (s, r, c) \<Rightarrow> Inr (s, r, c, f1))))"

definition page_offset :: "u32 \<Rightarrow> u32" where
  "page_offset virtual_address = drop_bit 18 (push_bit 18 virtual_address)"

definition tlb_slot :: "u32 \<Rightarrow> u32" where
  "tlb_slot virtual_address = drop_bit 14 virtual_address AND 0b111"

text \<open>
  \<open>get_address\<close> returns the status, the output word (its argument when it was not assigned), the
  TLB and the framework. The uninitialised \<open>ret_physical_page\<close> is only read after a walk has
  assigned it.
\<close>

definition get_address :: "framework \<Rightarrow> tlb \<Rightarrow> u32 \<Rightarrow> u32 \<Rightarrow> u8 \<Rightarrow>
    (u8 \<times> u32 \<times> tlb \<times> framework) result" where
  "get_address f cache virtual_address out status =
     (let index = tlb_slot virtual_address;
          e = entries cache ! unat index;
          walk = (\<lambda>st. case update_tlb_entry f cache index (drop_bit 12 virtual_address)
                          (uninit f (cycle_counter f) (current_stage f)) st of
                    Inl e \<Rightarrow> Inl e
                  | Inr (new_status, ret_physical_page, c, f1) \<Rightarrow>
                      if new_status \<noteq> 0xFF then Inr (new_status, out, c, f1)
                      else Inr (0xFF, push_bit 14 ret_physical_page OR page_offset virtual_address,
                                c, f1))
      in if status = 0xFF
         then if drop_bit 17 virtual_address = ucast (te_virtual_page e) \<and> te_valid e
              then Inr (0xFE, push_bit 14 (ucast (te_physical_page e)) OR page_offset virtual_address,
                        cache, f)
              else walk 0xFF
         else walk status)"

section \<open>The entries as a lookaside table\<close>

text \<open>The key is the 18-bit superpage number; its low three bits are the slot.\<close>

definition superpage :: "u32 \<Rightarrow> 18 word" where
  "superpage va = ucast (drop_bit 14 va)"

definition sp_slot :: "18 word \<Rightarrow> nat" where
  "sp_slot sp = unat (sp AND 7)"

definition tlb_lookup :: "tlb \<Rightarrow> 18 word \<Rightarrow> 18 word option" where
  "tlb_lookup t sp =
     (let e = entries t ! sp_slot sp in
      if te_valid e \<and> te_virtual_page e = ucast (drop_bit 3 sp) then Some (te_physical_page e)
      else None)"

definition tlb_fill :: "tlb \<Rightarrow> 18 word \<Rightarrow> 18 word \<Rightarrow> tlb" where
  "tlb_fill t sp pp =
     t\<lparr>entries := (entries t)[sp_slot sp :=
        \<lparr>te_valid = True, te_physical_page = pp, te_virtual_page = ucast (drop_bit 3 sp)\<rparr>]\<rparr>"

definition wf_tlb :: "tlb \<Rightarrow> bool" where
  "wf_tlb t \<longleftrightarrow> length (entries t) = 8"

lemma bit_7: "bit (7 :: int) n \<longleftrightarrow> n < 3"
  using bit_push_mask [of 0 3 n] by (simp add: mask_eq_exp_minus_1)

lemma sp_slot_less [simp]: "sp_slot sp < 8"
proof -
  have "sp AND 7 \<le> 7" by (rule word_and_le1)
  then show ?thesis by (simp add: sp_slot_def word_le_nat_alt)
qed

lemma superpage_split:
  assumes "sp_slot j = sp_slot k" "(ucast (drop_bit 3 j) :: 15 word) = ucast (drop_bit 3 k)"
  shows "j = k"
proof (rule bit_word_eqI)
  fix n assume n: "n < LENGTH(18)"
  show "bit j n = bit k n"
  proof (cases "n < 3")
    case True
    from assms(1) have "j AND 7 = k AND 7" by (simp add: sp_slot_def word_unat_eq_iff)
    then have "bit (j AND 7) n = bit (k AND 7) n" by simp
    with True n show ?thesis by (simp add: bit_and_iff bit_7)
  next
    case False
    from assms(2) have "bit (ucast (drop_bit 3 j) :: 15 word) (n - 3) =
        bit (ucast (drop_bit 3 k) :: 15 word) (n - 3)"
      by simp
    moreover from n False have "n - 3 < 15" "3 + (n - 3) = n" by simp_all
    ultimately show ?thesis by (simp add: bit_ucast_iff bit_drop_bit_eq)
  qed
qed

interpretation tlb_table: lookaside tlb_lookup tlb_fill sp_slot wf_tlb
proof
  show "tlb_lookup (tlb_fill c k v) k = Some v" if "wf_tlb c" for c k v
    using that by (simp add: tlb_lookup_def tlb_fill_def wf_tlb_def Let_def)
  show "tlb_lookup (tlb_fill c k v) j = None" if "wf_tlb c" "sp_slot j = sp_slot k" "j \<noteq> k" for c j k v
    using that superpage_split [of j k]
    by (auto simp: tlb_lookup_def tlb_fill_def wf_tlb_def Let_def)
  show "tlb_lookup (tlb_fill c k v) j = tlb_lookup c j" if "sp_slot j \<noteq> sp_slot k" for c j k v
    using that by (simp add: tlb_lookup_def tlb_fill_def Let_def)
  show "wf_tlb (tlb_fill c k v)" if "wf_tlb c" for c k v
    using that by (simp add: tlb_fill_def wf_tlb_def)
qed

lemma tlb_slot_superpage: "unat (tlb_slot va) = sp_slot (superpage va)"
proof -
  have "tlb_slot va = ucast (superpage va AND 7)"
    by (rule bit_word_eqI)
      (auto simp: tlb_slot_def superpage_def bit_and_iff bit_7 bit_ucast_iff bit_drop_bit_eq)
  then show ?thesis by (simp add: sp_slot_def unat_ucast_up)
qed

lemma virtual_page_match:
  "drop_bit 17 va = ucast (v :: 15 word) \<longleftrightarrow> v = ucast (drop_bit 3 (superpage va))"
proof -
  have up: "drop_bit 17 va = ucast (ucast (drop_bit 3 (superpage va)) :: 15 word)"
    by (rule bit_word_eqI)
      (auto simp: superpage_def bit_ucast_iff bit_drop_bit_eq dest: bit_imp_le_length)
  have "(ucast a :: u32) = ucast b \<longleftrightarrow> a = b" for a b :: "15 word"
    by (simp add: word_unat_eq_iff unat_ucast_up)
  then show ?thesis unfolding up by auto
qed

lemma unat_bits: "unat (drop_bit n (w :: 'a::len word)) = unat w div 2 ^ n" "unat (take_bit n w) = unat w mod 2 ^ n"
  using drop_bit_eq_div [of n "unat w"] take_bit_eq_mod [of n "unat w"]
  by (simp_all add: unat_drop_bit_eq unsigned_take_bit_eq)

lemma of_nat_bits: "drop_bit n (w :: 'a::len word) = of_nat (unat w div 2 ^ n)"
  "take_bit n w = of_nat (unat w mod 2 ^ n)"
  by (simp_all only: unat_bits [symmetric] of_nat_unat ucast_id)

text \<open>The physical address: the number of the physical superpage, and the low 14 bits.\<close>

definition translated_address :: "18 word \<Rightarrow> u32 \<Rightarrow> u32" where
  "translated_address pp va = of_nat (unat pp * 2 ^ 14 + unat va mod 2 ^ 14)"

lemma translated_address_code: "push_bit 14 (ucast pp) OR page_offset va = translated_address pp va"
proof -
  have off: "page_offset va = take_bit 14 va"
    by (rule bit_word_eqI) (auto simp: page_offset_def bit_push_bit_iff bit_drop_bit_eq bit_take_bit_iff)
  have "push_bit 14 (ucast pp) OR take_bit 14 va = push_bit 14 (ucast pp) + take_bit 14 va"
    by (rule disjunctive_add [symmetric]) (auto simp: bit_push_bit_iff bit_take_bit_iff)
  moreover have "push_bit 14 (ucast pp :: u32) = of_nat (unat pp * 2 ^ 14)"
    by (simp add: push_bit_eq_mult)
  moreover have "take_bit 14 va = of_nat (unat va mod 2 ^ 14)"
    by (rule of_nat_bits(2))
  ultimately show ?thesis by (simp add: off translated_address_def)
qed

lemma superpage_check: "drop_bit 17 va = tlb_slot va \<longleftrightarrow> unat va div 2 ^ 17 = unat va div 2 ^ 14 mod 8"
proof -
  have "tlb_slot va = take_bit 3 (drop_bit 14 va)"
    by (simp add: tlb_slot_def take_bit_eq_mask mask_eq_exp_minus_1)
  then show ?thesis by (simp only: word_unat_eq_iff unat_bits) simp
qed

section \<open>The page walk\<close>

text \<open>
  The page tables, in terms of entry numbers. A table is an array of 4-byte entries whose top bit says
  that the entry is valid. The first-level table is at the page table base and is indexed by the top
  ten bits of the address; the low bits of its entries are the page number of a second-level table,
  which is indexed by bits 12 to 19. The rest of a second-level entry is the number of a 4 KB page,
  four of which make a superpage. (The design document leaves the low two bits of the page number out
  of the second-level index; the code uses them, and does not use bits 20 and 21.)
\<close>

definition table_entry :: "u32 \<Rightarrow> nat \<Rightarrow> u64" where
  "table_entry base i = ucast (base + of_nat (4 * i))"

definition pte1_address :: "framework \<Rightarrow> u32 \<Rightarrow> u64" where
  "pte1_address f va = table_entry (ucast (ptbr f)) (unat va div 2 ^ 22)"

definition pte1 :: "framework \<Rightarrow> u32 \<Rightarrow> u32" where
  "pte1 f va = le_word (fetch_bytes (riscv_mem f) (pte1_address f va) 4)"

definition pte2_address :: "framework \<Rightarrow> u32 \<Rightarrow> u64" where
  "pte2_address f va = table_entry (4096 * pte1 f va) (unat va div 2 ^ 12 mod 2 ^ 8)"

definition pte2 :: "framework \<Rightarrow> u32 \<Rightarrow> u32" where
  "pte2 f va = le_word (fetch_bytes (riscv_mem f) (pte2_address f va) 4)"

definition physical_superpage :: "u32 \<Rightarrow> 18 word" where
  "physical_superpage e = of_nat (unat e mod 2 ^ 31 div 4)"

definition walk :: "framework \<Rightarrow> u32 \<Rightarrow> 18 word option" where
  "walk f va =
     (if bit (pte1 f va) 31 \<and> bit (pte2 f va) 31 then Some (physical_superpage (pte2 f va)) else None)"

text \<open>The addresses and the page number that the code computes by shifts and masks.\<close>

lemma first_level_entry: "ucast (first_level_index f (drop_bit 12 va)) = pte1_address f va"
proof -
  have "push_bit 2 (drop_bit 22 va) = of_nat (4 * (unat va div 2 ^ 22))"
    by (simp add: of_nat_bits(1) push_bit_eq_mult)
  moreover have "ucast (ucast a :: u64) = a" for a :: u32
    by (rule bit_word_eqI) (simp add: bit_ucast_iff)
  then have "ucast (ucast a + b :: u64) = a + ucast b" for a :: u32 and b
    by (simp add: ucast_add_u32)
  ultimately show ?thesis
    by (simp add: first_level_index_def pte1_address_def table_entry_def get_ptbr_def Let_def
        drop_bit_drop_bit add.commute)
qed

lemma second_level_entry: "ucast (second_level_address (pte1 f va) (drop_bit 12 va)) = pte2_address f va"
proof -
  have "push_bit 12 (drop_bit k (push_bit k e)) = push_bit 12 e" if "k \<le> 12" for k and e :: u32
    using that by (intro bit_word_eqI) (auto simp: bit_push_bit_iff bit_drop_bit_eq)
  from this [of 1] have "push_bit 12 (drop_bit 1 (push_bit 1 e)) = 4096 * e" for e :: u32
    by (simp add: push_bit_eq_mult)
  moreover have "push_bit 2 (drop_bit 12 va AND 0xFF) = of_nat (4 * (unat va div 2 ^ 12 mod 2 ^ 8))"
  proof -
    have "drop_bit 12 va AND 0xFF = take_bit 8 (drop_bit 12 va)"
      by (simp add: take_bit_eq_mask mask_eq_exp_minus_1)
    also have "\<dots> = of_nat (unat va div 2 ^ 12 mod 2 ^ 8)"
      by (simp only: of_nat_bits(2) unat_bits(1))
    finally show ?thesis by (simp add: push_bit_eq_mult)
  qed
  ultimately show ?thesis by (simp only: second_level_address_def pte2_address_def table_entry_def)
qed

lemma superpage_of_entry: "ucast (drop_bit 3 (push_bit 1 e)) = physical_superpage (e :: u32)"
proof -
  have "drop_bit 3 (push_bit 1 e) = drop_bit 2 (take_bit 31 e)"
  proof (rule bit_word_eqI)
    fix n assume "n < LENGTH(32)"
    show "bit (drop_bit 3 (push_bit 1 e)) n = bit (drop_bit 2 (take_bit 31 e)) n"
      unfolding bit_drop_bit_eq bit_take_bit_iff bit_push_bit_iff
      by (auto simp: bit_drop_bit_eq bit_take_bit_iff bit_push_bit_iff)
  qed
  then have "unat (drop_bit 3 (push_bit 1 e)) = unat e mod 2 ^ 31 div 2 ^ 2"
    by (simp only: unat_bits)
  moreover have "ucast w = (of_nat (unat w) :: 18 word)" for w :: u32
    by (rule of_nat_unat [symmetric])
  ultimately show ?thesis
    unfolding physical_superpage_def by (simp only:) simp
qed

text \<open>Every entry answers what a walk would answer, for every address of its superpage.\<close>

definition tlb_coherent :: "framework \<Rightarrow> tlb \<Rightarrow> bool" where
  "tlb_coherent f t \<longleftrightarrow>
     (\<forall>va pp. tlb_lookup t (superpage va) = Some pp \<longrightarrow> walk f va = Some pp)"

lemma get_address_fresh:
  "get_address f t va out 0xFF =
     (case tlb_lookup t (superpage va) of
        Some pp \<Rightarrow> Inr (0xFE, translated_address pp va, t, f)
      | None \<Rightarrow>
          (case memory_read f (pte1_address f va) (local_buffer f) 4 of
             Inl e \<Rightarrow> Inl e
           | Inr (d, v, f1) \<Rightarrow>
               Inr (if d then 2 else 0, out,
                    if d then t\<lparr>cached_second_index := le_word v\<rparr> else t, f1)))"
  by (auto simp: get_address_def update_tlb_entry_def tlb_lookup_def Let_def tlb_slot_superpage
      virtual_page_match first_level_entry translated_address_code split: sum.splits prod.splits)

lemma top_bit: "drop_bit 31 (w :: u32) = (if bit w 31 then 1 else 0)"
proof (rule bit_word_eqI)
  fix n assume "n < LENGTH(32)"
  show "bit (drop_bit 31 w) n = bit (if bit w 31 then 1 else 0 :: u32) n"
    using bit_imp_le_length [of w "31 + n"]
    by (cases n) (auto simp: bit_drop_bit_eq bit_1_iff)
qed

lemma superpage_tag: "(ucast (drop_bit 3 (superpage va)) :: 15 word) = ucast (drop_bit 17 va)"
  by (rule bit_word_eqI)
    (auto simp: superpage_def bit_ucast_iff bit_drop_bit_eq)

lemma finish_walk_eq:
  "finish_walk t (tlb_slot va) (drop_bit 12 va) r p =
     (if \<not> bit p 31 then Inr (0x80, r, t)
      else if drop_bit 17 va \<noteq> tlb_slot va then Inl SuperpageIndexMismatch
      else Inr (0xFF, ucast (physical_superpage p), tlb_fill t (superpage va) (physical_superpage p)))"
  unfolding finish_walk_def Let_def superpage_of_entry
  by (simp add: top_bit tlb_fill_def tlb_slot_superpage superpage_tag drop_bit_drop_bit)

lemma get_address_second:
  assumes "cached_second_index t = pte1 f va" "st = 2 \<or> st = 0x80"
  shows "get_address f t va out st =
    (if \<not> bit (pte1 f va) 31 then Inr (0x80, out, t, f)
     else (case memory_read f (pte2_address f va) (local_buffer f) 4 of
             Inl e \<Rightarrow> Inl e
           | Inr (d, v, f1) \<Rightarrow>
               if \<not> d then Inr (1, out, t, f1)
               else if \<not> bit (le_word v :: u32) 31 then Inr (0x80, out, t, f1)
               else if drop_bit 17 va \<noteq> tlb_slot va then Inl SuperpageIndexMismatch
               else let pp = physical_superpage (le_word v) in
                    Inr (0xFF, translated_address pp va, tlb_fill t (superpage va) pp, f1)))"
proof -
  have st: "st \<noteq> 0" "st \<noteq> 0xFF" "st \<noteq> 1" using assms(2) by auto
  show ?thesis
  proof (cases "bit (pte1 f va) 31")
    case False
    then show ?thesis
      using assms(1) st by (simp add: get_address_def update_tlb_entry_def Let_def top_bit)
  next
    case True
    show ?thesis
    proof (cases "memory_read f (pte2_address f va) (local_buffer f) 4")
      case (Inl e)
      then show ?thesis
        using True assms(1) st
        by (simp add: get_address_def update_tlb_entry_def Let_def top_bit second_level_entry)
    next
      case (Inr r)
      obtain d v f1 where "r = (d, v, f1)" by (cases r)
      with Inr show ?thesis
        using True assms(1) st
        by (simp add: get_address_def update_tlb_entry_def Let_def top_bit second_level_entry
            finish_walk_eq translated_address_code)
    qed
  qed
qed

text \<open>
  Filling in a translation keeps the TLB coherent when the four page table entries of the superpage
  agree on the physical superpage.
\<close>

lemma tlb_fill_coherent:
  assumes "wf_tlb t" "tlb_coherent f t" "\<And>va. superpage va = sp \<Longrightarrow> walk f va = Some pp"
  shows "tlb_coherent f (tlb_fill t sp pp)"
  unfolding tlb_coherent_def
proof (intro allI impI)
  fix va q
  assume "tlb_lookup (tlb_fill t sp pp) (superpage va) = Some q"
  then show "walk f va = Some q"
    using assms by (auto simp: tlb_table.lookup_fill [OF assms(1)] tlb_coherent_def split: if_splits)
qed

text \<open>The call after the first-level read: the second level, in the next cycle.\<close>

lemma walk_second_step:
  fixes t :: tlb
  assumes "memory_read_latency f = 0" "bit (pte1 f va) 31 \<Longrightarrow> proper f (pte2_address f va) 4"
    and "st \<in> {STAGE_F_BIT, STAGE_M_BIT}"
  defines "t1 \<equiv> t\<lparr>cached_second_index := pte1 f va\<rparr>"
  shows "\<exists>f2. get_address (next_stage st (read_issued f 4)) t1 va out 2 =
    (case walk f va of
       None \<Rightarrow> Inr (0x80, out, t1, f2)
     | Some pp \<Rightarrow>
         if unat va div 2 ^ 17 \<noteq> unat va div 2 ^ 14 mod 8 then Inl SuperpageIndexMismatch
         else Inr (0xFF, translated_address pp va, tlb_fill t1 (superpage va) pp, f2))"
proof -
  let ?g = "next_stage st (read_issued f 4)"
  have same: "riscv_mem ?g = riscv_mem f" "memory_read_latency ?g = 0"
    "riscv_mem_size ?g = riscv_mem_size f" "ptbr ?g = ptbr f"
    using assms(1) by (simp_all add: read_issued_def next_stage_def memory_retire_completed_def)
  have pt: "pte1 ?g va = pte1 f va" "pte2_address ?g va = pte2_address f va"
    using same by (simp_all add: pte1_def pte1_address_def pte2_address_def)
  show ?thesis
  proof (cases "bit (pte1 f va) 31")
    case False
    then show ?thesis by (simp add: get_address_second pt walk_def t1_def)
  next
    case True
    then have "proper ?g (pte2_address f va) 4"
      using assms(2) same proper_cong [of ?g f] by simp
    then have "memory_read ?g (pte2_address f va) (local_buffer ?g) 4 =
        Inr (True, fetch_bytes (riscv_mem f) (pte2_address f va) 4, read_issued ?g 4)"
      using assms(3) same by (simp add: memory_read_now local_buffer_def)
    then show ?thesis using True
      by (simp add: get_address_second pt walk_def pte2_def Let_def t1_def superpage_check)
  qed
qed

text \<open>
  Property C8: the page walk. With a memory that answers at once, a lookup that misses reads the
  first-level entry, indexed by the top ten bits of the address, and answers 2; the call of the next
  cycle reads the second-level entry, indexed by bits 12 to 19, and either reports an invalid entry
  (0x80), ends the simulation because bits 17 to 31 of the address are not equal to bits 14 to 16, or
  delivers the physical address (0xFF) and fills the TLB with the physical superpage. From then on
  every lookup of an address in the superpage hits (0xFE) and keeps its low 14 bits. The TLB stays
  coherent with the page tables when the four entries of the superpage agree; nothing in the code
  checks that they do. The second-level index is the code's: the design document leaves the low two
  bits of the page number out of it.
\<close>
theorem page_walk_correct:
  assumes "wf_tlb t" "tlb_coherent f t" "tlb_lookup t (superpage va) = None"
    and "may_read f" "memory_read_latency f = 0" "proper f (pte1_address f va) 4"
    and "bit (pte1 f va) 31 \<Longrightarrow> proper f (pte2_address f va) 4"
    and "st \<in> {STAGE_F_BIT, STAGE_M_BIT}"
  shows "\<exists>t1 f1 f2. get_address f t va out 0xFF = Inr (2, out, t1, f1) \<and>
    get_address (next_stage st f1) t1 va out 2 =
      (case walk f va of
         None \<Rightarrow> Inr (0x80, out, t1, f2)
       | Some pp \<Rightarrow>
           if unat va div 2 ^ 17 \<noteq> unat va div 2 ^ 14 mod 8 then Inl SuperpageIndexMismatch
           else Inr (0xFF, translated_address pp va, tlb_fill t1 (superpage va) pp, f2)) \<and>
    (\<forall>pp va' g out'. superpage va' = superpage va \<longrightarrow>
       get_address g (tlb_fill t1 (superpage va) pp) va' out' 0xFF =
         Inr (0xFE, translated_address pp va', tlb_fill t1 (superpage va) pp, g)) \<and>
    (\<forall>pp. (\<forall>va'. superpage va' = superpage va \<longrightarrow> walk f va' = Some pp) \<longrightarrow>
       tlb_coherent f (tlb_fill t1 (superpage va) pp))"
proof -
  let ?t1 = "t\<lparr>cached_second_index := pte1 f va\<rparr>"
  have "tlb_lookup ?t1 = tlb_lookup t" by (simp add: tlb_lookup_def fun_eq_iff)
  then have wf1: "wf_tlb ?t1" and co1: "tlb_coherent f ?t1"
    using assms(1,2) by (simp_all add: wf_tlb_def tlb_coherent_def)
  have "get_address f t va out 0xFF = Inr (2, out, ?t1, read_issued f 4)"
    using assms by (simp add: get_address_fresh memory_read_now local_buffer_def pte1_def)
  moreover note walk_second_step [OF assms(5,7,8), of t out]
  moreover have "tlb_coherent f (tlb_fill ?t1 (superpage va) pp)"
    if "\<forall>va'. superpage va' = superpage va \<longrightarrow> walk f va' = Some pp" for pp
    using that by (intro tlb_fill_coherent [OF wf1 co1]) blast
  moreover have "get_address g (tlb_fill ?t1 (superpage va) pp) va' out' 0xFF =
      Inr (0xFE, translated_address pp va', tlb_fill ?t1 (superpage va) pp, g)"
    if "superpage va' = superpage va" for pp va' g out'
    using wf1 by (simp add: get_address_fresh that tlb_table.lookup_fill_same)
  ultimately show ?thesis by blast
qed

text \<open>
  Only superpages whose upper 15 bits equal their slot number are ever filled in: an entry's
  virtual page is its own index.
\<close>

definition tlb_inv :: "tlb \<Rightarrow> bool" where
  "tlb_inv t \<longleftrightarrow> wf_tlb t \<and>
     (\<forall>i < 8. te_valid (entries t ! i) \<longrightarrow> te_virtual_page (entries t ! i) = of_nat i)"

lemma tlb_inv_empty: "tlb_inv empty_tlb"
  by (simp add: tlb_inv_def wf_tlb_def empty_tlb_def)

lemma tlb_inv_cached [simp]: "tlb_inv (t\<lparr>cached_second_index := x\<rparr>) = tlb_inv t"
  by (simp add: tlb_inv_def wf_tlb_def)

lemma tlb_inv_fill:
  assumes "tlb_inv t" "drop_bit 17 va = tlb_slot va"
  shows "tlb_inv (tlb_fill t (superpage va) pp)"
proof -
  have "(ucast (drop_bit 3 (superpage va)) :: 15 word) = of_nat (sp_slot (superpage va))"
    using assms(2) by (simp add: superpage_tag tlb_slot_superpage [symmetric])
  with assms(1) show ?thesis
    by (auto simp: tlb_inv_def wf_tlb_def tlb_fill_def nth_list_update)
qed

lemma finish_walk_inv:
  assumes "finish_walk t (tlb_slot va) (drop_bit 12 va) r p = Inr (s, q, t')" "tlb_inv t"
  shows "tlb_inv t' \<and> s \<noteq> 0xFE \<and> (s = 0xFF \<longrightarrow> drop_bit 17 va = tlb_slot va)"
  using assms tlb_inv_fill [of t va] by (auto simp: finish_walk_eq split: if_splits)

lemma update_tlb_entry_inv:
  assumes "update_tlb_entry f t (tlb_slot va) (drop_bit 12 va) r st = Inr (s, q, t', g)" "tlb_inv t"
  shows "tlb_inv t' \<and> s \<noteq> 0xFE \<and> (s = 0xFF \<longrightarrow> drop_bit 17 va = tlb_slot va) \<and>
    port_frame f g \<and> riscv_mem g = riscv_mem f"
  using assms
  by (auto simp: update_tlb_entry_def Let_def split: if_splits sum.splits
      dest: finish_walk_inv memory_read_frame memory_status_frame)

lemma page_offset_bits: "bit (page_offset va) n \<longleftrightarrow> n < 14 \<and> bit va n"
  using bit_imp_le_length [of va n]
  by (auto simp: page_offset_def bit_drop_bit_eq bit_push_bit_iff)

lemma bit_16383: "bit (0x3FFF :: int) n \<longleftrightarrow> n < 14"
  using bit_push_mask [of 0 14 n] by (simp add: mask_eq_exp_minus_1)

lemma translated_address_offset: "translated_address pp va AND 0x3FFF = va AND 0x3FFF"
  by (rule bit_word_eqI)
    (auto simp: translated_address_code [symmetric] bit_and_iff bit_or_iff page_offset_bits bit_push_bit_iff
      bit_16383)

lemma tlb_hit_diagonal:
  assumes "tlb_inv t" "tlb_lookup t (superpage va) = Some pp"
  shows "drop_bit 17 va = tlb_slot va"
proof -
  let ?e = "entries t ! sp_slot (superpage va)"
  from assms(2) have hit: "te_valid ?e" "te_virtual_page ?e = ucast (drop_bit 3 (superpage va))"
    by (auto simp: tlb_lookup_def Let_def split: if_splits)
  moreover from hit(1) assms(1) have "te_virtual_page ?e = of_nat (sp_slot (superpage va))"
    by (simp add: tlb_inv_def)
  ultimately have "drop_bit 17 va = ucast (of_nat (sp_slot (superpage va)) :: 15 word)"
    by (simp add: virtual_page_match)
  moreover have "sp_slot (superpage va) < 2 ^ 15"
    using sp_slot_less [of "superpage va"] by (rule order_less_trans) simp
  then have "unat (ucast (of_nat (sp_slot (superpage va)) :: 15 word) :: u32) =
      sp_slot (superpage va)"
    by (subst unat_ucast_up) (simp_all add: unsigned_of_nat take_bit_nat_eq_self)
  ultimately show ?thesis
    by (simp add: word_unat_eq_iff tlb_slot_superpage)
qed

lemma get_address_frame:
  assumes "get_address f t va out st = Inr (s, pa, t', g)" "tlb_inv t"
  shows "tlb_inv t' \<and> port_frame f g \<and> riscv_mem g = riscv_mem f"
  using assms
  by (auto simp: get_address_def Let_def split: if_splits sum.splits dest: update_tlb_entry_inv)

text \<open>
  Property C27: what a TLB can translate. Whatever the page tables hold, every translation the
  simulator obtains, from an entry or from a walk, is of an address whose upper 15 bits equal its
  slot number (the superpages 0, 9, 18, ..., 63); it keeps the offset within the superpage; when
  there is no translation the output is untouched; and a call never changes the memory.
\<close>
theorem translations_are_diagonal:
  assumes "tlb_inv t" "get_address f t va out st = Inr (s, pa, t', g)"
  shows "tlb_inv t' \<and> riscv_mem g = riscv_mem f \<and>
    (if s = 0xFF \<or> s = 0xFE
     then drop_bit 17 va = tlb_slot va \<and> pa AND 0x3FFF = va AND 0x3FFF
     else pa = out)"
proof (cases "st = 0xFF \<and> tlb_lookup t (superpage va) \<noteq> None")
  case True
  with assms show ?thesis
    using tlb_hit_diagonal [OF assms(1), of va] translated_address_offset [of _ va]
    by (auto simp: get_address_fresh)
next
  case False
  then have "\<not> (st = 0xFF \<and> drop_bit 17 va = ucast (te_virtual_page (entries t ! unat (tlb_slot va))) \<and>
      te_valid (entries t ! unat (tlb_slot va)))"
    by (auto simp: tlb_lookup_def Let_def virtual_page_match tlb_slot_superpage split: if_splits)
  with assms(2) obtain q where
    walk: "update_tlb_entry f t (tlb_slot va) (drop_bit 12 va)
      (uninit f (cycle_counter f) (current_stage f)) st = Inr (s, q, t', g)"
    and pa: "pa = (if s = 0xFF then push_bit 14 q OR page_offset va else out)"
    by (auto simp: get_address_def Let_def split: if_splits sum.splits)
  have "(push_bit 14 q OR page_offset va) AND 0x3FFF = va AND 0x3FFF"
    by (rule bit_word_eqI)
      (auto simp: bit_and_iff bit_or_iff page_offset_bits bit_push_bit_iff bit_16383)
  with update_tlb_entry_inv [OF walk assms(1)] pa show ?thesis by auto
qed

text \<open>
  A page table for the witnesses: the first level at 0x1000 points to the table at 0x2000, whose four
  entries for the superpage of 0x24010 map it to the superpage at 0x10000.
\<close>

definition paged_framework :: framework where
  "paged_framework = boot_framework\<lparr>ptbr := 0x1000, current_stage := STAGE_M_BIT,
     riscv_mem := (\<lambda>a. if a = 0x1000 then 2 else if a = 0x1003 then 0x80
                      else if 0x2090 \<le> a \<and> a < 0x20A0
                        then [0x10 + ucast (drop_bit 2 a AND 3), 0, 0, 0x80] ! unat (a AND 3) else 0)\<rparr>"

lemma paged_first:
  "unat va div 2 ^ 22 = 0 \<Longrightarrow> pte1_address paged_framework va = 0x1000 \<and> pte1 paged_framework va = 0x80000002"
  by (simp add: pte1_def pte1_address_def table_entry_def paged_framework_def
      boot_framework_def fetch_bytes_def upt_rec)

lemma paged_second: "pte2_address paged_framework 0x24010 = 0x2090" "pte2 paged_framework 0x24010 = 0x80000010"
  by (simp_all add: pte2_def pte2_address_def paged_first table_entry_def)
    (simp add: paged_framework_def fetch_bytes_def upt_rec)

lemma paged_walk:
  assumes "superpage va = superpage 0x24010"
  shows "walk paged_framework va = Some 4"
proof -
  have "unat va div 2 ^ 14 < 2 ^ 18" using unsigned_less [of va, where 'a = nat] by simp
  then have "unat va div 2 ^ 14 = unat (superpage va)"
    by (simp add: superpage_def unsigned_ucast_eq unat_bits take_bit_nat_eq_self)
  then have nine: "unat va div 2 ^ 14 = 9" unfolding assms by (simp add: superpage_def)
  then have pages: "unat va div 2 ^ 12 \<in> {36, 37, 38, 39}" and low: "unat va div 2 ^ 22 = 0" by auto
  show ?thesis
    using pages paged_first [OF low] unfolding walk_def pte2_def pte2_address_def table_entry_def
    by (elim insertE)
      (simp_all add: paged_framework_def fetch_bytes_def upt_rec bit_iff_odd physical_superpage_def)
qed

theorem page_walk_correct_witness:
  "\<exists>t1 f1 f2. get_address paged_framework empty_tlb 0x24010 0 0xFF = Inr (2, 0, t1, f1) \<and>
    get_address (next_stage STAGE_M_BIT f1) t1 0x24010 0 2 =
      Inr (0xFF, 0x10010, tlb_fill t1 (superpage 0x24010) 4, f2) \<and>
    tlb_coherent paged_framework (tlb_fill t1 (superpage 0x24010) 4)"
proof -
  have lk: "tlb_lookup empty_tlb sp = None" for sp
    by (simp add: tlb_lookup_def empty_tlb_def Let_def)
  have a: "wf_tlb empty_tlb" "tlb_coherent paged_framework empty_tlb"
    by (simp_all add: wf_tlb_def empty_tlb_def tlb_coherent_def lk [unfolded empty_tlb_def])
  have b: "may_read paged_framework" "memory_read_latency paged_framework = 0"
    "proper paged_framework 0x1000 4" "proper paged_framework 0x2090 4"
    by (simp_all add: may_read_def port_free_def proper_def in_block_def paged_framework_def
        boot_framework_def fw_defs)
  have c: "drop_bit 17 (0x24010 :: u32) = tlb_slot 0x24010" "translated_address 4 0x24010 = 0x10010"
    by (simp_all add: tlb_slot_def translated_address_def)
  show ?thesis
    using page_walk_correct [of empty_tlb paged_framework "0x24010" STAGE_M_BIT 0] a b c lk
    by (auto simp: paged_first paged_second paged_walk)
qed

theorem translations_are_diagonal_witness:
  "\<exists>g. get_address paged_framework (tlb_fill empty_tlb (superpage 0x24010) 4) 0x24010 0 0xFF =
      Inr (0xFE, 0x10010, tlb_fill empty_tlb (superpage 0x24010) 4, g) \<and>
    drop_bit 17 (0x24010 :: u32) = tlb_slot 0x24010"
proof -
  let ?t = "tlb_fill empty_tlb (superpage 0x24010) 4"
  have inv: "tlb_inv ?t"
    by (rule tlb_inv_fill [OF tlb_inv_empty]) (simp add: tlb_slot_def)
  have "wf_tlb empty_tlb" by (simp add: wf_tlb_def empty_tlb_def)
  then have hit: "get_address paged_framework ?t 0x24010 0 0xFF =
      Inr (0xFE, 0x10010, ?t, paged_framework)"
    by (simp add: get_address_fresh tlb_table.lookup_fill_same translated_address_def)
  show ?thesis
    using translations_are_diagonal [OF inv hit] hit by simp
qed

end
