(* ===== verification/Allocation.thy ===== *)
theory Allocation
  imports Framework_Memory
begin

text \<open>
  The allocation wrappers of \<open>src/src/mem.c\<close> over the allocator of the C library. A block is the
  list of its bytes and \<open>None\<close> the null pointer. Whether the library can serve a request is
  \<open>heap_alloc\<close> of the environment, also for requests of no bytes, where the C standard leaves the
  choice between a null pointer and an empty block; the contents of fresh bytes are the argument
  \<open>junk\<close>. A wrapper returns a null pointer only for a request of no bytes, and ends the program
  otherwise.
\<close>

section \<open>Operations\<close>

type_synonym block = "u8 list option"

definition c_malloc :: "framework \<Rightarrow> (nat \<Rightarrow> u8) \<Rightarrow> u64 \<Rightarrow> block" where
  "c_malloc f junk n = (if heap_alloc f n then Some (map junk [0..<unat n]) else None)"

definition c_calloc :: "framework \<Rightarrow> u64 \<Rightarrow> block" where
  "c_calloc f n = (if heap_alloc f n then Some (replicate (unat n) 0) else None)"

definition c_realloc :: "framework \<Rightarrow> (nat \<Rightarrow> u8) \<Rightarrow> block \<Rightarrow> u64 \<Rightarrow> block" where
  "c_realloc f junk original n =
     (case original of
        None \<Rightarrow> c_malloc f junk n
      | Some b \<Rightarrow>
          if heap_alloc f n then Some (take (unat n) b @ map junk [length b..<unat n]) else None)"

definition smalloc :: "framework \<Rightarrow> (nat \<Rightarrow> u8) \<Rightarrow> u64 \<Rightarrow> block result" where
  "smalloc f junk n =
     (let raw = c_malloc f junk n in if n > 0 \<and> raw = None then Inl OutOfMemory else Inr raw)"

definition scalloc :: "framework \<Rightarrow> u64 \<Rightarrow> block result" where
  "scalloc f n =
     (let raw = c_calloc f n in if n > 0 \<and> raw = None then Inl OutOfMemory else Inr raw)"

definition srealloc :: "framework \<Rightarrow> (nat \<Rightarrow> u8) \<Rightarrow> block \<Rightarrow> u64 \<Rightarrow> block result" where
  "srealloc f junk original n =
     (let raw = c_realloc f junk original n in
      if n > 0 \<and> raw = None then Inl OutOfMemory else Inr raw)"

section \<open>What the wrappers promise\<close>

text \<open>
  The contract of a wrapper as an interface: a request of at least one byte never yields a null
  pointer, a block that is returned has the requested length, and the only failure is running out
  of memory.
\<close>

locale checked_allocation =
  fixes alloc :: "u64 \<Rightarrow> block result"
  assumes alloc_length: "alloc n = Inr (Some b) \<Longrightarrow> length b = unat n"
    and alloc_null: "alloc n = Inr None \<Longrightarrow> n = 0"
    and alloc_fault: "alloc n = Inl e \<Longrightarrow> e = OutOfMemory"
begin

lemma alloc_served:
  assumes "n \<noteq> 0" "alloc n = Inr raw"
  obtains b where "raw = Some b" "length b = unat n"
  using assms alloc_null alloc_length by (cases raw) auto

end

interpretation smalloc: checked_allocation "smalloc f junk" for f junk
  by unfold_locales
    (auto simp: smalloc_def c_malloc_def Let_def word_gt_0 split: if_splits)

interpretation scalloc: checked_allocation "scalloc f" for f
  by unfold_locales
    (auto simp: scalloc_def c_calloc_def Let_def word_gt_0 split: if_splits)

interpretation srealloc: checked_allocation "srealloc f junk original" for f junk original
  by unfold_locales
    (auto simp: srealloc_def c_realloc_def c_malloc_def Let_def word_gt_0 split: if_splits option.splits)

lemma scalloc_fails_iff: "scalloc f n = Inl e \<longleftrightarrow> e = OutOfMemory \<and> n \<noteq> 0 \<and> \<not> heap_alloc f n"
  by (auto simp: scalloc_def c_calloc_def Let_def word_gt_0)

lemma scalloc_zeroed: "scalloc f n = Inr (Some b) \<Longrightarrow> b = replicate (unat n) 0"
  by (auto simp: scalloc_def c_calloc_def Let_def split: if_splits)

text \<open>Reallocation keeps the bytes both blocks have.\<close>

lemma srealloc_keeps:
  assumes "srealloc f junk (Some a) n = Inr (Some b)"
  shows "take (min (length a) (unat n)) b = take (unat n) a"
  using assms by (auto simp: srealloc_def c_realloc_def Let_def min_def split: if_splits)

end
