(* ===== verification/Cache.thy ===== *)
theory Cache
  imports Allocation
begin

text \<open>
  The caches of \<open>src/src/cache.c\<close>: a direct-mapped instruction cache with 16-byte lines and a
  two-way write-back data cache with 8-byte lines (\<open>TWOWAY\<close> and \<open>WRITEBACK\<close> are both defined in
  \<open>cache.h\<close>). The two members of \<open>union cache_row\<close> are two records; a table uses only the member
  of its type, so it carries one list of rows per member. Indexing outside an array and copying
  past a line are \<open>OutOfBounds\<close>, the two \<open>exit(1)\<close> calls are faults of their own.
\<close>

section \<open>State\<close>

definition CACHE_INSTRUCTION :: u8 where "CACHE_INSTRUCTION = 0"
definition CACHE_DATA :: u8 where "CACHE_DATA = 1"

lemma cache_types [simp]: "CACHE_INSTRUCTION \<noteq> CACHE_DATA" "CACHE_DATA \<noteq> CACHE_INSTRUCTION"
  by (simp_all add: CACHE_INSTRUCTION_def CACHE_DATA_def)

record cache_row_i =
  ri_tag :: "51 word"
  ri_data :: "u8 list"
  ri_valid :: bool

record cache_row_d =
  rd_tag :: "50 word"
  rd_data :: "u8 list"
  rd_dirty :: bool
  rd_valid :: bool

record cache_table =
  num_blocks :: u64
  index_length :: u8
  cache_type :: u8
  block_size :: u8
  rows_i :: "cache_row_i list"
  rows_d :: "cache_row_d list"

definition zero_row_i :: cache_row_i where
  "zero_row_i = \<lparr>ri_tag = 0, ri_data = replicate 16 0, ri_valid = False\<rparr>"

definition zero_row_d :: cache_row_d where
  "zero_row_d = \<lparr>rd_tag = 0, rd_data = replicate 8 0, rd_dirty = False, rd_valid = False\<rparr>"

text \<open>\<open>sizeof(union cache_row)\<close>: an 8-byte tag unit, 16 data bytes and a flag byte, 8-aligned.\<close>

definition sizeof_cache_row :: u64 where "sizeof_cache_row = 32"

text \<open>
  \<open>(uint8_t) (log(num_blocks) / log(2))\<close>: the number of binary digits below the leading one. For
  the two table sizes of the program, \<open>2 ^ 9\<close> and \<open>2 ^ 11\<close>, the quotient of the doubles is exact.
  For 0 blocks the quotient is infinite and its conversion undefined.
\<close>

fun ilog2 :: "nat \<Rightarrow> nat" where
  "ilog2 n = (if n < 2 then 0 else Suc (ilog2 (n div 2)))"

declare ilog2.simps [simp del]

section \<open>Operations\<close>

text \<open>
  The rows are the zeroed block of \<open>scalloc\<close>, read as rows of the type the table has.
\<close>

definition construct_cache :: "framework \<Rightarrow> u64 \<Rightarrow> u8 \<Rightarrow> cache_table result" where
  "construct_cache f blocks type =
     (let rows = blocks * (if type = CACHE_DATA then 2 else 1) in
      if blocks = 0 then Inl BadConversion
      else case scalloc f (blocks * sizeof_cache_row * (if type = CACHE_DATA then 2 else 1)) of
        Inl e \<Rightarrow> Inl e
      | Inr _ \<Rightarrow>
          Inr \<lparr>num_blocks = blocks, index_length = of_nat (ilog2 (unat blocks)),
               cache_type = type, block_size = (if type = CACHE_INSTRUCTION then 4 else 3),
               rows_i = (if type = CACHE_DATA then [] else replicate (unat rows) zero_row_i),
               rows_d = (if type = CACHE_DATA then replicate (unat rows) zero_row_d else [])\<rparr>)"

definition row_i :: "cache_table \<Rightarrow> u64 \<Rightarrow> cache_row_i result" where
  "row_i c index =
     (if unat index < length (rows_i c) then Inr (rows_i c ! unat index) else Inl OutOfBounds)"

definition row_d :: "cache_table \<Rightarrow> u64 \<Rightarrow> cache_row_d result" where
  "row_d c index =
     (if unat index < length (rows_d c) then Inr (rows_d c ! unat index) else Inl OutOfBounds)"

definition put_row_i :: "cache_table \<Rightarrow> u64 \<Rightarrow> cache_row_i \<Rightarrow> cache_table" where
  "put_row_i c index r = c\<lparr>rows_i := (rows_i c)[unat index := r]\<rparr>"

definition put_row_d :: "cache_table \<Rightarrow> u64 \<Rightarrow> cache_row_d \<Rightarrow> cache_table" where
  "put_row_d c index r = c\<lparr>rows_d := (rows_d c)[unat index := r]\<rparr>"

text \<open>
  The index, the tag and the offset of an address. The shift counts are computed from the table;
  a count outside 0..63 is undefined.
\<close>

definition cache_fields :: "cache_table \<Rightarrow> u64 \<Rightarrow> (u64 \<times> u64 \<times> u64) result" where
  "cache_fields c address =
     (let bs = unat (block_size c); il = unat (index_length c) in
      if bs = 0 \<or> il = 0 \<or> bs + il > 63 then Inl ShiftOutOfRange
      else Inr (drop_bit (64 - il) (push_bit (64 - bs - il) address),
                drop_bit (bs + il) address,
                drop_bit (64 - bs) (push_bit (64 - bs) address)))"

text \<open>The way that a fill of the data cache replaces.\<close>

definition select_way :: "cache_table \<Rightarrow> u64 \<Rightarrow> u64 result" where
  "select_way c index =
     (case row_d c index of
        Inl e \<Rightarrow> Inl e
      | Inr r0 \<Rightarrow>
          if \<not> rd_valid r0 then Inr index
          else (case row_d c (index + num_blocks c) of
                  Inl e \<Rightarrow> Inl e
                | Inr r1 \<Rightarrow>
                    if \<not> rd_valid r1 \<or> (rd_dirty r0 \<and> \<not> rd_dirty r1)
                    then Inr (index + num_blocks c) else Inr index))"

text \<open>The address that the write-back of a row uses.\<close>

definition old_address :: "cache_table \<Rightarrow> u64 \<Rightarrow> cache_row_d \<Rightarrow> u64" where
  "old_address c index r =
     push_bit (unat (index_length c) + unat (block_size c)) (ucast (rd_tag r)) OR
     push_bit (unat (block_size c)) index"

text \<open>
  The write-back half of \<open>evict_read\<close>: \<open>None\<close> when the caller returns \<open>NULL\<close>, otherwise the stall
  flag, the row (its dirty bit cleared when the write-back is over) and the framework.
\<close>

definition write_back :: "framework \<Rightarrow> cache_table \<Rightarrow> u64 \<Rightarrow> cache_row_d \<Rightarrow> bool \<Rightarrow>
    (bool option \<times> cache_row_d \<times> framework) result" where
  "write_back f c index r is_followup =
     (if \<not> rd_dirty r then Inr (Some False, r, f)
      else if is_followup
      then (case memory_status f (old_address c index r) None of
              Inl e \<Rightarrow> Inl e
            | Inr (done, _, f1) \<Rightarrow>
                if \<not> done then Inr (None, r, f1)
                else Inr (Some False, r\<lparr>rd_dirty := False\<rparr>, f1))
      else (case memory_write f (old_address c index r) (le_word (rd_data r)) 8 of
              Inl e \<Rightarrow> Inl e
            | Inr (done, f1) \<Rightarrow>
                if \<not> done then Inr (Some True, r, f1)
                else Inr (Some False, r\<lparr>rd_dirty := False\<rparr>, f1)))"

text \<open>
  The line fill: a first call issues the read into the line's bytes, a follow-up call polls it.
  The Boolean is whether the line is complete.
\<close>

definition fill_line :: "framework \<Rightarrow> u64 \<Rightarrow> u8 list \<Rightarrow> u64 \<Rightarrow> bool \<Rightarrow> bool \<Rightarrow>
    (bool \<times> u8 list \<times> framework) result" where
  "fill_line f address data sz is_followup needs_stall =
     (if is_followup
      then (case memory_status f address (Some data) of
              Inl e \<Rightarrow> Inl e
            | Inr (done, v, f1) \<Rightarrow> Inr (done, the v, f1))
      else (case memory_read f address data sz of
              Inl e \<Rightarrow> Inl e
            | Inr (done, v, f1) \<Rightarrow> Inr (done \<and> \<not> needs_stall, v, f1)))"

text \<open>\<open>evict_read\<close> returns the index of the filled row, or \<open>None\<close> for \<open>NULL\<close>.\<close>

definition evict_read :: "framework \<Rightarrow> cache_table \<Rightarrow> u64 \<Rightarrow> u64 \<Rightarrow> u64 \<Rightarrow> bool \<Rightarrow>
    (u64 option \<times> cache_table \<times> framework) result" where
  "evict_read f c address index tag is_followup =
     (if cache_type c = CACHE_DATA
      then (case select_way c index of
              Inl e \<Rightarrow> Inl e
            | Inr i \<Rightarrow>
          (case row_d c i of
              Inl e \<Rightarrow> Inl e
            | Inr r \<Rightarrow>
          (case write_back f c i r is_followup of
              Inl e \<Rightarrow> Inl e
            | Inr (None, r1, f1) \<Rightarrow> Inr (None, put_row_d c i r1, f1)
            | Inr (Some needs_stall, r1, f1) \<Rightarrow>
          (case fill_line f1 address (rd_data r1) 8 is_followup needs_stall of
              Inl e \<Rightarrow> Inl e
            | Inr (done, v, f2) \<Rightarrow>
                if \<not> done then Inr (None, put_row_d c i (r1\<lparr>rd_data := v\<rparr>), f2)
                else Inr (Some i,
                       put_row_d c i \<lparr>rd_tag = ucast tag, rd_data = v, rd_dirty = False,
                                      rd_valid = True\<rparr>, f2)))))
      else (case row_i c index of
              Inl e \<Rightarrow> Inl e
            | Inr r \<Rightarrow>
          (case fill_line f address (ri_data r) 16 is_followup False of
              Inl e \<Rightarrow> Inl e
            | Inr (done, v, f1) \<Rightarrow>
                if \<not> done then Inr (None, put_row_i c index (r\<lparr>ri_data := v\<rparr>), f1)
                else Inr (Some index,
                       put_row_i c index \<lparr>ri_tag = ucast tag, ri_data = v, ri_valid = True\<rparr>, f1))))"

text \<open>\<open>data[subindex]\<close>, and the two words of an 8-byte access.\<close>

definition line_word :: "u8 list \<Rightarrow> nat \<Rightarrow> u32 result" where
  "line_word data k =
     (if 4 * k + 4 \<le> length data then Inr (le_word (take 4 (drop (4 * k) data)))
      else Inl OutOfBounds)"

definition line_value :: "u8 list \<Rightarrow> nat \<Rightarrow> u64 \<Rightarrow> u64 result" where
  "line_value data k sz =
     (case line_word data k of
        Inl e \<Rightarrow> Inl e
      | Inr w \<Rightarrow>
          if sz \<noteq> 8 then Inr (ucast w)
          else (case line_word data (k + 1) of
                  Inl e \<Rightarrow> Inl e
                | Inr w1 \<Rightarrow> Inr (ucast w OR push_bit 32 (ucast w1))))"

definition find_hit :: "cache_table \<Rightarrow> u64 \<Rightarrow> u64 \<Rightarrow> nat \<Rightarrow> u64 \<Rightarrow> u64 option result" where
  "find_hit c index tag sub sz =
     (if cache_type c = CACHE_INSTRUCTION
      then (case row_i c index of
              Inl e \<Rightarrow> Inl e
            | Inr r \<Rightarrow>
                if ri_valid r \<and> ucast (ri_tag r) = tag \<and> (sz \<noteq> 8 \<or> sub \<noteq> 3)
                then map_sum id Some (line_value (ri_data r) sub sz) else Inr None)
      else (case row_d c index of
              Inl e \<Rightarrow> Inl e
            | Inr r0 \<Rightarrow>
                if rd_valid r0 \<and> ucast (rd_tag r0) = tag
                then map_sum id Some (line_value (rd_data r0) sub sz)
                else (case row_d c (index + num_blocks c) of
                        Inl e \<Rightarrow> Inl e
                      | Inr r1 \<Rightarrow>
                          if rd_valid r1 \<and> ucast (rd_tag r1) = tag
                          then map_sum id Some (line_value (rd_data r1) sub sz)
                          else Inr None)))"

definition put_value :: "u8 list \<Rightarrow> u64 \<Rightarrow> u64 \<Rightarrow> u8 list result" where
  "put_value value sz w =
     (if sz \<in> {1, 2, 4, 8} then buf_put value (le_bytes (unat sz) w)
      else Inl IllegalCacheAccessSize)"

definition row_data :: "cache_table \<Rightarrow> u64 \<Rightarrow> u8 list result" where
  "row_data c i =
     (if cache_type c = CACHE_INSTRUCTION then map_sum id ri_data (row_i c i)
      else map_sum id rd_data (row_d c i))"

definition read_access :: "framework \<Rightarrow> cache_table \<Rightarrow> u64 \<Rightarrow> u64 \<Rightarrow> u8 list \<Rightarrow> bool \<Rightarrow> bool \<Rightarrow>
    (u8 \<times> u8 list \<times> cache_table \<times> framework) result" where
  "read_access f c address sz value is_followup memory_read_available =
     (case cache_fields c address of
        Inl e \<Rightarrow> Inl e
      | Inr (index, tag, subindex) \<Rightarrow>
          if subindex AND 0b11 \<noteq> 0 then Inl MisalignedCacheAccess
          else let sub = unat (drop_bit 2 subindex) in
          (case find_hit c index tag sub sz of
             Inl e \<Rightarrow> Inl e
           | Inr (Some cache_hit) \<Rightarrow>
               map_sum id (\<lambda>v. (0, v, c, f)) (put_value value sz cache_hit)
           | Inr None \<Rightarrow>
               if \<not> memory_read_available then Inr (2, value, c, f)
               else (case evict_read f c address index tag is_followup of
                       Inl e \<Rightarrow> Inl e
                     | Inr (None, c1, f1) \<Rightarrow> Inr (1, value, c1, f1)
                     | Inr (Some i, c1, f1) \<Rightarrow>
                         (case row_data c1 i of
                            Inl e \<Rightarrow> Inl e
                          | Inr data \<Rightarrow>
                              (case line_value data sub sz of
                                 Inl e \<Rightarrow> Inl e
                               | Inr cache_hit \<Rightarrow>
                                   map_sum id (\<lambda>v. (0, v, c1, f1))
                                     (put_value value sz cache_hit))))))"

text \<open>\<open>memcpy((uint8_t*) row->d.data + subindex, &data, size)\<close>\<close>

definition copy_into_line :: "u8 list \<Rightarrow> u64 \<Rightarrow> u64 \<Rightarrow> u8 \<Rightarrow> u8 list result" where
  "copy_into_line line subindex data sz =
     (if unat sz > 8 then Inl OutOfBounds
      else buf_splice line (unat subindex) (le_bytes (unat sz) data))"

definition finish_write :: "framework \<Rightarrow> cache_table \<Rightarrow> u64 \<Rightarrow> u64 \<Rightarrow> u64 \<Rightarrow> u64 \<Rightarrow> u8 \<Rightarrow>
    (u8 \<times> cache_table \<times> framework) result" where
  "finish_write f c i tag data subindex sz =
     (case row_d c i of
        Inl e \<Rightarrow> Inl e
      | Inr r \<Rightarrow>
          (case copy_into_line (rd_data r) subindex data sz of
             Inl e \<Rightarrow> Inl e
           | Inr line \<Rightarrow>
               Inr (0, put_row_d c i \<lparr>rd_tag = ucast tag, rd_data = line, rd_dirty = True,
                                      rd_valid = True\<rparr>, f)))"

definition evict_write :: "framework \<Rightarrow> cache_table \<Rightarrow> u64 \<Rightarrow> u64 \<Rightarrow> u64 \<Rightarrow> u64 \<Rightarrow> u64 \<Rightarrow> u8 \<Rightarrow>
    bool \<Rightarrow> bool \<Rightarrow> (u8 \<times> cache_table \<times> framework) result" where
  "evict_write f c address index tag data subindex sz is_followup memory_read_available =
     (if cache_type c \<noteq> CACHE_DATA then Inr (2, c, f)
      else (case select_way c index of
        Inl e \<Rightarrow> Inl e
      | Inr i \<Rightarrow>
          if sz \<noteq> 8
          then if \<not> memory_read_available then Inr (2, c, f)
               else (case evict_read f c address i tag is_followup of
                       Inl e \<Rightarrow> Inl e
                     | Inr (None, c1, f1) \<Rightarrow> Inr (1, c1, f1)
                     | Inr (Some j, c1, f1) \<Rightarrow> finish_write f1 c1 j tag data subindex sz)
          else (case row_d c i of
                  Inl e \<Rightarrow> Inl e
                | Inr r \<Rightarrow>
                    if \<not> rd_dirty r then finish_write f c i tag data subindex sz
                    else if \<not> memory_read_available then Inr (2, c, f)
                    else (case (if is_followup
                                then (case memory_status f (old_address c i r) None of
                                        Inl e \<Rightarrow> Inl e
                                      | Inr (done, _, f1) \<Rightarrow> Inr (done, f1))
                                else memory_write f (old_address c i r) (le_word (rd_data r)) 8) of
                            Inl e \<Rightarrow> Inl e
                          | Inr (done, f1) \<Rightarrow>
                              if \<not> done then Inr (1, c, f1)
                              else finish_write f1 (put_row_d c i (r\<lparr>rd_dirty := False\<rparr>)) i tag data
                                     subindex sz))))"

definition write_access :: "framework \<Rightarrow> cache_table \<Rightarrow> u64 \<Rightarrow> u64 \<Rightarrow> u8 \<Rightarrow> bool \<Rightarrow> bool \<Rightarrow>
    (u8 \<times> cache_table \<times> framework) result" where
  "write_access f c address data sz is_followup memory_read_available =
     (if cache_type c \<noteq> CACHE_DATA then Inr (1, c, f)
      else (case cache_fields c address of
        Inl e \<Rightarrow> Inl e
      | Inr (index, tag, subindex) \<Rightarrow>
          (case row_d c index of
             Inl e \<Rightarrow> Inl e
           | Inr r0 \<Rightarrow>
               let hit = (case copy_into_line (rd_data r0) subindex data sz of
                            Inl e \<Rightarrow> Inl e
                          | Inr line \<Rightarrow> Inr (0, put_row_d c index (r0\<lparr>rd_data := line\<rparr>), f))
               in if rd_valid r0 \<and> ucast (rd_tag r0) = tag then hit
                  else (case row_d c (index + num_blocks c) of
                          Inl e \<Rightarrow> Inl e
                        | Inr r1 \<Rightarrow>
                            if rd_valid r1 \<and> ucast (rd_tag r1) = tag then hit
                            else evict_write f c address index tag data subindex sz is_followup
                                   memory_read_available))))"

section \<open>The two tables of the program\<close>

definition icache :: "cache_table \<Rightarrow> bool" where
  "icache c \<longleftrightarrow>
     cache_type c = CACHE_INSTRUCTION \<and> num_blocks c = 512 \<and> index_length c = 9 \<and>
     block_size c = 4 \<and> length (rows_i c) = 512 \<and> (\<forall>r \<in> set (rows_i c). length (ri_data r) = 16)"

definition dcache :: "cache_table \<Rightarrow> bool" where
  "dcache c \<longleftrightarrow>
     cache_type c = CACHE_DATA \<and> num_blocks c = 2048 \<and> index_length c = 11 \<and>
     block_size c = 3 \<and> length (rows_d c) = 4096 \<and> (\<forall>r \<in> set (rows_d c). length (rd_data r) = 8)"

lemma ilog2_512: "ilog2 512 = 9" and ilog2_2048: "ilog2 2048 = 11"
  by (simp_all add: ilog2.simps)

lemma construct_icache:
  "construct_cache f 512 CACHE_INSTRUCTION = Inr c \<Longrightarrow> icache c"
  by (auto simp: construct_cache_def icache_def ilog2_512 zero_row_i_def split: if_splits sum.splits)

lemma construct_dcache:
  "construct_cache f 2048 CACHE_DATA = Inr c \<Longrightarrow> dcache c"
  by (auto simp: construct_cache_def dcache_def ilog2_2048 zero_row_d_def split: if_splits sum.splits)

definition i_index :: "u64 \<Rightarrow> u64" where "i_index a = drop_bit 55 (push_bit 51 a)"
definition d_index :: "u64 \<Rightarrow> u64" where "d_index a = drop_bit 53 (push_bit 50 a)"

lemma fields_icache:
  "icache c \<Longrightarrow> cache_fields c a = Inr (i_index a, drop_bit 13 a, take_bit 4 a)"
  by (simp add: icache_def cache_fields_def Let_def i_index_def)
    (auto intro!: bit_word_eqI simp: bit_simps dest: bit_imp_le_length)

lemma fields_dcache:
  "dcache c \<Longrightarrow> cache_fields c a = Inr (d_index a, drop_bit 14 a, take_bit 3 a)"
  by (simp add: dcache_def cache_fields_def Let_def d_index_def)
    (auto intro!: bit_word_eqI simp: bit_simps dest: bit_imp_le_length)

lemma i_index_take: "i_index a = take_bit 9 (drop_bit 4 a)"
  by (auto intro!: bit_word_eqI simp: i_index_def bit_simps dest: bit_imp_le_length)

lemma d_index_take: "d_index a = take_bit 11 (drop_bit 3 a)"
  by (auto intro!: bit_word_eqI simp: d_index_def bit_simps dest: bit_imp_le_length)

lemma unat_take_bit_less: "n < 64 \<Longrightarrow> unat (take_bit n (w :: u64)) < 2 ^ n"
  by (simp add: unsigned_take_bit_eq)

lemma i_index_less: "unat (i_index a) < 512"
  using unat_take_bit_less [of 9 "drop_bit 4 a"] by (simp add: i_index_take)

lemma d_index_less: "unat (d_index a) < 2048"
  using unat_take_bit_less [of 11 "drop_bit 3 a"] by (simp add: d_index_take)

lemma d_index_way: "unat (d_index a + 2048) = unat (d_index a) + 2048"
  using d_index_less [of a] by (simp add: unat_word_ariths)

lemma tag_i_exact: "(ucast (ucast (drop_bit 13 a) :: 51 word) :: u64) = drop_bit 13 a"
proof (rule bit_word_eqI)
  fix n assume "n < LENGTH(64)"
  then show "bit (ucast (ucast (drop_bit 13 a) :: 51 word) :: u64) n = bit (drop_bit 13 a) n"
    using bit_imp_le_length [of a "13 + n"] by (auto simp: bit_simps)
qed

lemma tag_d_exact: "(ucast (ucast (drop_bit 14 a) :: 50 word) :: u64) = drop_bit 14 a"
proof (rule bit_word_eqI)
  fix n assume "n < LENGTH(64)"
  then show "bit (ucast (ucast (drop_bit 14 a) :: 50 word) :: u64) n = bit (drop_bit 14 a) n"
    using bit_imp_le_length [of a "14 + n"] by (auto simp: bit_simps)
qed

lemma tag_i_match: "ucast (t :: 51 word) = drop_bit 13 (a :: u64) \<longleftrightarrow> t = ucast (drop_bit 13 a)"
proof
  assume "ucast t = drop_bit 13 a"
  then have "(ucast (ucast t :: u64) :: 51 word) = ucast (drop_bit 13 a)" by simp
  then show "t = ucast (drop_bit 13 a)" by (simp add: unsigned_ucast_eq take_bit_word_eq_self)
qed (simp add: tag_i_exact)

lemma tag_d_match: "ucast (t :: 50 word) = drop_bit 14 (a :: u64) \<longleftrightarrow> t = ucast (drop_bit 14 a)"
proof
  assume "ucast t = drop_bit 14 a"
  then have "(ucast (ucast t :: u64) :: 50 word) = ucast (drop_bit 14 a)" by simp
  then show "t = ucast (drop_bit 14 a)" by (simp add: unsigned_ucast_eq take_bit_word_eq_self)
qed (simp add: tag_d_exact)

text \<open>
  Property C29: how an address is split. For both tables of the program the index stays inside the
  table, the offset inside the line, the tag fits its bit-field without loss, and the three
  fields together are the address.
\<close>
theorem cache_address_split:
  assumes "icache c \<or> dcache c" "cache_fields c a = Inr (index, tag, subindex)"
  shows "index < num_blocks c \<and> unat subindex < 2 ^ unat (block_size c) \<and>
    (if cache_type c = CACHE_DATA then (ucast (ucast tag :: 50 word) :: u64) = tag
     else (ucast (ucast tag :: 51 word) :: u64) = tag) \<and>
    a = push_bit (unat (index_length c) + unat (block_size c)) tag OR
        push_bit (unat (block_size c)) index OR subindex"
  using assms(1)
proof
  assume i: "icache c"
  with assms(2) have "index = i_index a" "tag = drop_bit 13 a" "subindex = take_bit 4 a"
    by (simp_all add: fields_icache)
  moreover have "a = push_bit 13 (drop_bit 13 a) OR push_bit 4 (i_index a) OR take_bit 4 a"
  proof (rule bit_word_eqI)
    fix n assume "n < LENGTH(64)"
    then show "bit a n =
        bit (push_bit 13 (drop_bit 13 a) OR push_bit 4 (i_index a) OR take_bit 4 a) n"
      by (cases "n < 4"; cases "n < 13") (auto simp: i_index_take bit_simps)
  qed
  ultimately show ?thesis
    using i i_index_less [of a] unat_take_bit_less [of 4 a] tag_i_exact [of a]
    by (simp add: icache_def word_less_nat_alt)
next
  assume d: "dcache c"
  with assms(2) have "index = d_index a" "tag = drop_bit 14 a" "subindex = take_bit 3 a"
    by (simp_all add: fields_dcache)
  moreover have "a = push_bit 14 (drop_bit 14 a) OR push_bit 3 (d_index a) OR take_bit 3 a"
  proof (rule bit_word_eqI)
    fix n assume "n < LENGTH(64)"
    then show "bit a n =
        bit (push_bit 14 (drop_bit 14 a) OR push_bit 3 (d_index a) OR take_bit 3 a) n"
      by (cases "n < 3"; cases "n < 14") (auto simp: d_index_take bit_simps)
  qed
  ultimately show ?thesis
    using d d_index_less [of a] unat_take_bit_less [of 3 a] tag_d_exact [of a]
    by (simp add: dcache_def word_less_nat_alt)
qed

definition boot_icache :: cache_table where
  "boot_icache = \<lparr>num_blocks = 512, index_length = 9, cache_type = CACHE_INSTRUCTION,
     block_size = 4, rows_i = replicate 512 zero_row_i, rows_d = []\<rparr>"

definition boot_dcache :: cache_table where
  "boot_dcache = \<lparr>num_blocks = 2048, index_length = 11, cache_type = CACHE_DATA,
     block_size = 3, rows_i = [], rows_d = replicate 4096 zero_row_d\<rparr>"

lemma boot_caches: "icache boot_icache" "dcache boot_dcache"
  by (simp_all add: boot_icache_def boot_dcache_def icache_def dcache_def zero_row_i_def zero_row_d_def)

lemma construct_boot_caches:
  "construct_cache boot_framework 512 CACHE_INSTRUCTION = Inr boot_icache"
  "construct_cache boot_framework 2048 CACHE_DATA = Inr boot_dcache"
  by (simp_all add: construct_cache_def scalloc_def c_calloc_def boot_framework_def boot_icache_def
      boot_dcache_def ilog2_512 ilog2_2048)

theorem cache_address_split_witness:
  "cache_fields boot_dcache 0x12345678 = Inr (0x2CF, 0x48D1, 0) \<and>
   (0x12345678 :: u64) = push_bit 14 0x48D1 OR push_bit 3 0x2CF OR 0"
proof -
  have f: "cache_fields boot_dcache 0x12345678 = Inr (0x2CF, 0x48D1, 0)"
    by (simp add: fields_dcache boot_caches d_index_take take_bit_eq_mask mask_eq_exp_minus_1)
  show ?thesis
    using cache_address_split [OF disjI2 [OF boot_caches(2)] f] f by (simp add: boot_dcache_def)
qed

section \<open>The instruction cache as a lookaside table\<close>

text \<open>The key is the number of the 16-byte line; its low nine bits are the slot.\<close>

definition line_of :: "u64 \<Rightarrow> 60 word" where "line_of a = ucast (drop_bit 4 a)"
definition line_slot :: "60 word \<Rightarrow> 9 word" where "line_slot k = ucast k"
definition line_tag :: "60 word \<Rightarrow> 51 word" where "line_tag k = ucast (drop_bit 9 k)"

definition icache_lookup :: "cache_table \<Rightarrow> 60 word \<Rightarrow> u8 list option" where
  "icache_lookup c k =
     (let r = rows_i c ! unat (line_slot k) in
      if ri_valid r \<and> ri_tag r = line_tag k then Some (ri_data r) else None)"

definition icache_fill :: "cache_table \<Rightarrow> 60 word \<Rightarrow> u8 list \<Rightarrow> cache_table" where
  "icache_fill c k line =
     c\<lparr>rows_i := (rows_i c)[unat (line_slot k) :=
         \<lparr>ri_tag = line_tag k, ri_data = line, ri_valid = True\<rparr>]\<rparr>"

lemma line_split:
  assumes "line_slot j = line_slot k" "line_tag j = line_tag k"
  shows "j = k"
proof (rule bit_word_eqI)
  fix n assume n: "n < LENGTH(60)"
  show "bit j n = bit k n"
  proof (cases "n < 9")
    case True
    from assms(1) have "bit (ucast j :: 9 word) n = bit (ucast k :: 9 word) n"
      by (simp add: line_slot_def)
    with True show ?thesis by (simp add: bit_ucast_iff)
  next
    case False
    from assms(2) have "bit (line_tag j) (n - 9) = bit (line_tag k) (n - 9)" by simp
    moreover from n False have "n - 9 < 51" "9 + (n - 9) = n" by simp_all
    ultimately show ?thesis by (simp add: line_tag_def bit_ucast_iff bit_drop_bit_eq)
  qed
qed

lemma line_slot_less [simp]: "unat (line_slot k) < 512"
  using unsigned_less [of "line_slot k", where 'a = nat] by simp

interpretation icache_table: lookaside icache_lookup icache_fill line_slot
    "\<lambda>c. length (rows_i c) = 512"
proof
  show "icache_lookup (icache_fill c k v) k = Some v" if "length (rows_i c) = 512" for c k v
    using that by (simp add: icache_lookup_def icache_fill_def Let_def)
  show "icache_lookup (icache_fill c k v) j = None"
    if "length (rows_i c) = 512" "line_slot j = line_slot k" "j \<noteq> k" for c j k v
    using that line_split [of j k] by (auto simp: icache_lookup_def icache_fill_def Let_def)
  show "icache_lookup (icache_fill c k v) j = icache_lookup c j"
    if "line_slot j \<noteq> line_slot k" for c j k v
    using that by (simp add: icache_lookup_def icache_fill_def Let_def word_unat_eq_iff)
  show "length (rows_i (icache_fill c k v)) = 512" if "length (rows_i c) = 512" for c k v
    using that by (simp add: icache_fill_def)
qed

lemma line_slot_of: "unat (line_slot (line_of a)) = unat (i_index a)"
proof -
  have "i_index a = ucast (line_slot (line_of a))"
    by (rule bit_word_eqI) (auto simp: i_index_take line_slot_def line_of_def bit_simps)
  then show ?thesis by (simp add: unat_ucast_up)
qed

lemma line_tag_of: "line_tag (line_of a) = ucast (drop_bit 13 a)"
  by (rule bit_word_eqI) (auto simp: line_tag_def line_of_def bit_simps)

section \<open>Instruction fetches\<close>

lemma fill_line_frame:
  assumes "fill_line f a d sz fu ns = Inr (done, v, g)"
  shows "port_frame f g \<and> riscv_mem g = riscv_mem f \<and> length v = length d"
  using assms
  by (auto simp: fill_line_def dest: memory_read_frame memory_status_frame
      split: if_splits sum.splits)

lemma offset_aligned:
  assumes "take_bit 2 (a :: u64) = 0"
  shows "take_bit m a AND 3 = 0" "4 * unat (drop_bit 2 (take_bit m a)) = unat (take_bit m a)"
proof -
  have low: "\<not> bit a 0" "\<not> bit a 1"
    using arg_cong [OF assms, of "\<lambda>w. bit w 0"] arg_cong [OF assms, of "\<lambda>w. bit w 1"]
    by (auto simp: bit_take_bit_iff)
  have three: "bit (3 :: int) n \<longleftrightarrow> n < 2" for n
    using bit_push_mask [of 0 2 n] by (simp add: mask_eq_exp_minus_1 numeral_2_eq_2)
  show "take_bit m a AND 3 = 0"
    using low by (auto intro!: bit_word_eqI simp: bit_simps three less_2_cases_iff)
  have "take_bit 2 (take_bit m a) = 0"
    using assms by (simp add: take_bit_take_bit) (metis take_bit_of_0 take_bit_take_bit min.commute)
  then have "unat (take_bit m a) mod 4 = 0"
    by (metis unat_0 unsigned_take_bit_eq take_bit_eq_mod power2_eq_square numeral_Bit0_eq_double mult_2 numeral_plus_numeral)
  moreover have "unat (drop_bit 2 (take_bit m a)) = unat (take_bit m a) div 4"
    by (simp add: unat_drop_bit_eq drop_bit_eq_div unat_div)
  ultimately show "4 * unat (drop_bit 2 (take_bit m a)) = unat (take_bit m a)"
    by (simp add: mod_0_imp_dvd)
qed

definition line_bytes :: "u8 list \<Rightarrow> u64 \<Rightarrow> u8 list" where
  "line_bytes line a = take 4 (drop (unat (take_bit 4 a)) line)"

lemma line_word_le_bytes:
  assumes "unat (take_bit 4 a) + 4 \<le> length line" "take_bit 2 (a :: u64) = 0"
  shows "line_value line (unat (drop_bit 2 (take_bit 4 a))) 4 =
     Inr (ucast (le_word (line_bytes line a) :: u32))"
  using assms by (simp add: line_value_def line_word_def offset_aligned line_bytes_def)

lemma put_line_word:
  assumes "length bs = 4" "4 \<le> length v"
  shows "put_value v 4 (ucast (le_word bs :: u32)) = Inr (bs @ drop 4 v)"
  using assms by (simp add: put_value_def le_bytes_ucast le_bytes_le_word buf_put_ok)

lemma line_offset:
  assumes "take_bit 2 a = 0"
  shows "unat (take_bit 4 (a :: u64)) + 4 \<le> 16"
proof -
  have "y + 4 \<le> 16" if "4 * x = y" "y < 16" for x y :: nat
    using that by auto
  moreover have "unat (take_bit 4 a) < 16"
    using unat_take_bit_less [of 4 a] by simp
  ultimately show ?thesis
    using offset_aligned(2) [OF assms, of 4] by blast
qed

lemma find_hit_icache:
  assumes "icache c" "take_bit 2 a = 0"
  shows "find_hit c (i_index a) (drop_bit 13 a) (unat (drop_bit 2 (take_bit 4 a))) 4 =
    Inr (case icache_lookup c (line_of a) of
           None \<Rightarrow> None
         | Some line \<Rightarrow> Some (ucast (le_word (line_bytes line a) :: u32)))"
proof -
  have "length (ri_data (rows_i c ! unat (i_index a))) = 16"
    using assms(1) i_index_less [of a] by (simp add: icache_def)
  then have "line_value (ri_data (rows_i c ! unat (i_index a))) (unat (drop_bit 2 (take_bit 4 a))) 4 =
      Inr (ucast (le_word (line_bytes (ri_data (rows_i c ! unat (i_index a))) a) :: u32))"
    using assms(2) line_offset by (simp add: line_word_le_bytes)
  then show ?thesis
    using assms(1) i_index_less [of a]
    by (simp add: find_hit_def row_i_def icache_def icache_lookup_def Let_def line_slot_of
        line_tag_of tag_i_match)
qed

lemma icache_fill_row:
  "put_row_i c (i_index a) \<lparr>ri_tag = ucast (drop_bit 13 a), ri_data = line, ri_valid = True\<rparr> =
     icache_fill c (line_of a) line"
  by (simp add: put_row_i_def icache_fill_def line_slot_of line_tag_of)

lemma icache_read:
  assumes "icache c" "take_bit 2 a = 0" "4 \<le> length v"
  shows "read_access f c a 4 v fu av =
    (case icache_lookup c (line_of a) of
       Some line \<Rightarrow> Inr (0, line_bytes line a @ drop 4 v, c, f)
     | None \<Rightarrow>
         let r = rows_i c ! unat (i_index a) in
         if \<not> av then Inr (2, v, c, f)
         else (case fill_line f a (ri_data r) 16 fu False of
                 Inl e \<Rightarrow> Inl e
               | Inr (done, line, f1) \<Rightarrow>
                   if \<not> done then Inr (1, v, put_row_i c (i_index a) (r\<lparr>ri_data := line\<rparr>), f1)
                   else Inr (0, line_bytes line a @ drop 4 v, icache_fill c (line_of a) line, f1)))"
proof -
  have i: "unat (i_index a) < length (rows_i c)" "cache_type c \<noteq> CACHE_DATA"
      "cache_type c = CACHE_INSTRUCTION"
    and len: "length (ri_data (rows_i c ! unat (i_index a))) = 16"
    using assms(1) i_index_less [of a] by (simp_all add: icache_def)
  have lb: "length (line_bytes line a) = 4" if "length line = 16" for line
    using that line_offset [OF assms(2)] by (simp add: line_bytes_def)
  have row: "length line = 16" if "icache_lookup c (line_of a) = Some line" for line
    using that len by (auto simp: icache_lookup_def Let_def line_slot_of split: if_splits)
  show ?thesis
  proof (cases "icache_lookup c (line_of a)")
    case (Some line)
    then show ?thesis
      using assms lb row
      by (simp add: read_access_def fields_icache offset_aligned find_hit_icache Let_def put_line_word)
  next
    case None
    have "line_value line (unat (drop_bit 2 (take_bit 4 a))) 4 =
          Inr (ucast (le_word (line_bytes line a) :: u32)) \<and> length (line_bytes line a) = 4"
      if "fill_line f a (ri_data (rows_i c ! unat (i_index a))) 16 fu False = Inr (d, line, g)" for d line g
      using fill_line_frame [OF that] len lb line_offset [OF assms(2)] assms(2)
      by (simp add: line_word_le_bytes)
    then show ?thesis
      using None assms i
      by (auto simp: read_access_def fields_icache offset_aligned find_hit_icache Let_def
          evict_read_def row_i_def put_line_word row_data_def icache_fill_row [symmetric]
          put_row_i_def split: sum.splits)
  qed
qed

definition line_base :: "60 word \<Rightarrow> u64" where "line_base k = push_bit 4 (ucast k)"

definition icache_coherent :: "framework \<Rightarrow> cache_table \<Rightarrow> bool" where
  "icache_coherent f c \<longleftrightarrow>
     (\<forall>k line. icache_lookup c k = Some line \<longrightarrow> line = fetch_bytes (riscv_mem f) (line_base k) 16)"

lemma line_base_of: "line_base (line_of a) + take_bit 4 a = a"
proof -
  have "line_base (line_of a) AND take_bit 4 a = 0"
    by (rule bit_word_eqI) (auto simp: line_base_def line_of_def bit_simps)
  then have "line_base (line_of a) + take_bit 4 a = line_base (line_of a) OR take_bit 4 a"
    by (simp add: disjunctive_add_eq_or)
  also have "\<dots> = a"
  proof (rule bit_word_eqI)
    fix n assume "n < LENGTH(64)"
    then show "bit (line_base (line_of a) OR take_bit 4 a) n = bit a n"
      by (cases "n < 4") (auto simp: line_base_def line_of_def bit_simps)
  qed
  finally show ?thesis .
qed

lemma take_drop_fetch:
  "i + n \<le> m \<Longrightarrow> take n (drop i (fetch_bytes mem b m)) = fetch_bytes mem (b + of_nat i) n"
  by (rule nth_equalityI) (simp_all add: add.assoc)

lemma line_bytes_fetch:
  assumes "take_bit 2 a = 0"
  shows "line_bytes (fetch_bytes mem (line_base (line_of a)) 16) a = fetch_bytes mem a 4"
  using line_offset [OF assms] line_base_of [of a] by (simp add: line_bytes_def take_drop_fetch)



text \<open>
  A miss inside a line. The fill is asked for at the address itself; when that is
  not 16-aligned the port refuses it, nothing is read from memory, and the row is marked valid
  for the line with the bytes it happened to hold and its first byte cleared.
\<close>
lemma icache_miss_inside_line:
  assumes "icache c" "icache_lookup c (line_of a) = None"
    and "take_bit 2 a = 0" "take_bit 4 a \<noteq> 0" "4 \<le> length v"
  shows "\<exists>stale. stale = 0 # tl (ri_data (rows_i c ! unat (i_index a))) \<and>
    read_access f c a 4 v False True =
      Inr (0, line_bytes stale a @ drop 4 v, icache_fill c (line_of a) stale, f)"
proof -
  have "length (ri_data (rows_i c ! unat (i_index a))) = 16"
    using assms(1) i_index_less [of a] by (simp add: icache_def)
  then have "ri_data (rows_i c ! unat (i_index a)) \<noteq> []" by auto
  moreover have "a mod 16 \<noteq> 0" using assms(4) by (simp add: take_bit_eq_mod)
  ultimately show ?thesis
    using assms by (simp add: icache_read Let_def fill_line_def memory_read_improper)
qed

lemma icache_miss_inside_line_example:
  "\<exists>c1. read_access (boot_framework\<lparr>current_stage := STAGE_F_BIT, riscv_mem := \<lambda>_. 0x13\<rparr>)
      boot_icache 0x44 4 [1, 2, 3, 4] False True =
    Inr (0, [0, 0, 0, 0], c1, boot_framework\<lparr>current_stage := STAGE_F_BIT, riscv_mem := \<lambda>_. 0x13\<rparr>)"
proof -
  have a: "take_bit 2 (0x44 :: u64) = 0"
    by (simp add: take_bit_eq_mod)
  have "icache_lookup boot_icache (line_of 0x44) = None"
    by (simp add: icache_lookup_def boot_icache_def zero_row_i_def Let_def)
  moreover have "rows_i boot_icache ! unat (i_index 0x44) = zero_row_i"
    using i_index_less [of "0x44"] by (simp add: boot_icache_def)
  moreover have "line_bytes (0 # tl (ri_data zero_row_i)) 0x44 = [0, 0, 0, 0]"
    by code_simp
  moreover have "take_bit 4 (0x44 :: u64) \<noteq> 0" by (simp add: take_bit_eq_mod)
  ultimately show ?thesis
    using icache_miss_inside_line [of boot_icache "0x44" "[1, 2, 3, 4]"
        "boot_framework\<lparr>current_stage := STAGE_F_BIT, riscv_mem := \<lambda>_. 0x13\<rparr>"]
      boot_caches(1) a by auto
qed

text \<open>
  A fill that waits. When the memory has a latency, the miss that issues a fill
  clears the bytes of the victim row and leaves its tag and valid bit: until the fill completes,
  a fetch of the victim line hits and delivers zero.
\<close>
lemma pending_fill_clears_victim:
  assumes "icache c" "icache_lookup c (line_of a) = None"
    and "icache_lookup c (line_of b) = Some line" "line_slot (line_of b) = line_slot (line_of a)"
    and "proper f a 16" "may_read f" "memory_read_latency f \<noteq> 0"
    and "take_bit 2 b = 0" "4 \<le> length v"
  shows "\<exists>c1 f1. read_access f c a 4 v False True = Inr (1, v, c1, f1) \<and>
    (\<forall>g fu av. read_access g c1 b 4 v fu av = Inr (0, [0, 0, 0, 0] @ drop 4 v, c1, g))"
proof -
  let ?r = "rows_i c ! unat (i_index a)"
  let ?c1 = "put_row_i c (i_index a) (?r\<lparr>ri_data := replicate 16 0\<rparr>)"
  have len: "length (ri_data ?r) = 16" "unat (i_index a) < length (rows_i c)"
    using assms(1) i_index_less [of a] by (simp_all add: icache_def)
  have a: "take_bit 2 a = 0"
  proof -
    have "take_bit 4 a = 0" using assms(5) by (simp add: proper_def take_bit_eq_mod)
    then have "take_bit 2 (take_bit 4 a) = 0" by simp
    then show ?thesis by (simp add: take_bit_take_bit)
  qed
  have same: "unat (i_index b) = unat (i_index a)"
    using assms(4) by (metis line_slot_of)
  have "icache ?c1"
    using assms(1) by (auto simp: icache_def put_row_i_def dest!: set_update_subset_insert [THEN subsetD])
  moreover have "icache_lookup ?c1 (line_of b) = Some (replicate 16 0)"
    using assms(3) len(2) same
    by (auto simp: icache_lookup_def put_row_i_def Let_def line_slot_of split: if_splits)
  moreover have "line_bytes (replicate 16 0) b = [0, 0, 0, 0]"
  proof -
    have "replicate 4 (0 :: u8) = [0, 0, 0, 0]" by code_simp
    then show ?thesis using line_offset [OF assms(8)] by (simp add: line_bytes_def take_replicate)
  qed
  ultimately have "read_access g ?c1 b 4 v fu av = Inr (0, [0, 0, 0, 0] @ drop 4 v, ?c1, g)"
    for g fu av
    using assms(8,9) by (simp add: icache_read)
  moreover have "read_access f c a 4 v False True = Inr (1, v, ?c1,
      snd (memory_add_pending (read_issued f 16) a 16 MEMORY_OP_READ))"
    using assms a len by (simp add: icache_read Let_def fill_line_def memory_read_later)
  ultimately show ?thesis by blast
qed

lemma pending_fill_clears_victim_example:
  "\<exists>c1 f1. read_access (boot_framework\<lparr>current_stage := STAGE_F_BIT, memory_read_latency := 5\<rparr>)
      (icache_fill boot_icache (line_of 0x40) (replicate 16 0x13)) 0x2040 4 [1, 2, 3, 4] False True =
      Inr (1, [1, 2, 3, 4], c1, f1) \<and>
    read_access f1 c1 0x40 4 [1, 2, 3, 4] False True = Inr (0, [0, 0, 0, 0], c1, f1)"
proof -
  let ?f = "boot_framework\<lparr>current_stage := STAGE_F_BIT, memory_read_latency := 5\<rparr>"
  let ?c = "icache_fill boot_icache (line_of 0x40) (replicate 16 0x13)"
  have len: "length (rows_i boot_icache) = 512" by (simp add: boot_icache_def)
  have "icache ?c"
    using boot_caches(1)
    by (auto simp: icache_def icache_fill_def dest!: set_update_subset_insert [THEN subsetD])
  moreover have "line_slot (line_of 0x40) = line_slot (line_of 0x2040)" "line_of 0x2040 \<noteq> line_of 0x40"
    by (simp_all add: line_slot_def line_of_def)
  moreover from this have "icache_lookup ?c (line_of 0x2040) = None"
    using icache_table.lookup_fill_evicted [OF len] by simp
  moreover have "icache_lookup ?c (line_of 0x40) = Some (replicate 16 0x13)"
    by (rule icache_table.lookup_fill_same [OF len])
  moreover have "proper ?f 0x2040 16" "may_read ?f" "memory_read_latency ?f \<noteq> 0"
    "take_bit 2 (0x40 :: u64) = 0"
    by (simp_all add: proper_def in_block_def may_read_def port_free_def boot_framework_def take_bit_eq_mod)
  ultimately show ?thesis
    using pending_fill_clears_victim [of ?c "0x2040" "0x40" "replicate 16 0x13" ?f "[1, 2, 3, 4]"]
    by auto
qed

section \<open>The data cache\<close>

definition d_row0 :: "cache_table \<Rightarrow> u64 \<Rightarrow> cache_row_d" where
  "d_row0 c a = rows_d c ! unat (d_index a)"

definition d_row1 :: "cache_table \<Rightarrow> u64 \<Rightarrow> cache_row_d" where
  "d_row1 c a = rows_d c ! (unat (d_index a) + 2048)"

definition d_match :: "cache_row_d \<Rightarrow> u64 \<Rightarrow> bool" where
  "d_match r a \<longleftrightarrow> rd_valid r \<and> rd_tag r = ucast (drop_bit 14 a)"

definition dcache_lookup :: "cache_table \<Rightarrow> u64 \<Rightarrow> u8 list option" where
  "dcache_lookup c a =
     (if d_match (d_row0 c a) a then Some (rd_data (d_row0 c a))
      else if d_match (d_row1 c a) a then Some (rd_data (d_row1 c a)) else None)"

text \<open>The accesses that the reading path accepts and that stay inside one line.\<close>

definition d_access :: "u64 \<Rightarrow> u64 \<Rightarrow> bool" where
  "d_access a sz \<longleftrightarrow>
     sz \<in> {1, 2, 4, 8} \<and> take_bit 2 a = 0 \<and> (sz = 8 \<longrightarrow> take_bit 3 a = 0)"

definition access_bytes :: "u8 list \<Rightarrow> u64 \<Rightarrow> u64 \<Rightarrow> u8 list" where
  "access_bytes line a sz = take (unat sz) (drop (unat (take_bit 3 a)) line)"

lemma dcache_rows:
  assumes "dcache c"
  shows "row_d c (d_index a) = Inr (d_row0 c a)"
    "row_d c (d_index a + num_blocks c) = Inr (d_row1 c a)"
    "length (rd_data (d_row0 c a)) = 8" "length (rd_data (d_row1 c a)) = 8"
  using assms d_index_less [of a]
  by (simp_all add: dcache_def row_d_def d_row0_def d_row1_def d_index_way)

lemma d_offset:
  assumes "take_bit 2 a = 0"
  shows "unat (take_bit 3 (a :: u64)) = 0 \<or> unat (take_bit 3 a) = 4"
proof -
  have "y = 0 \<or> y = 4" if "4 * x = y" "y < 8" for x y :: nat
    using that by auto
  moreover have "unat (take_bit 3 a) < 8"
    using unat_take_bit_less [of 3 a] by simp
  ultimately show ?thesis
    using offset_aligned(2) [OF assms, of 3] by blast
qed

lemma le_bytes_line_word:
  assumes "length line = 8" "n \<le> 4" "k \<le> 4"
  shows "le_bytes n (ucast (le_word (take 4 (drop k line)) :: u32) :: u64) = take n (drop k line)"
proof -
  have "le_bytes 4 (ucast (le_word (take 4 (drop k line)) :: u32) :: u64) = take 4 (drop k line)"
    using assms by (simp add: le_bytes_ucast le_bytes_le_word)
  with assms(2) show ?thesis by (simp add: le_bytes_take [of n 4] min_absorb1)
qed

lemma le_bytes_line_double:
  assumes "length line = 8"
  shows "le_bytes 8 (ucast (le_word (take 4 line) :: u32) OR
      push_bit 32 (ucast (le_word (drop 4 line) :: u32) :: u64)) = line"
proof -
  have "(ucast (le_word (take 4 line) :: u32) :: u64) OR
      push_bit 32 (ucast (le_word (drop 4 line) :: u32)) = le_word (take 4 line @ drop 4 line)"
    using assms by (simp only: le_word_append) (simp add: ucast_le_word)
  then show ?thesis using assms by (simp add: le_bytes_le_word)
qed

lemma d_value:
  assumes "d_access a sz" "length line = 8" "unat sz \<le> length v"
  shows "\<exists>w. line_value line (unat (drop_bit 2 (take_bit 3 a))) sz = Inr w \<and>
    put_value v sz w = Inr (access_bytes line a sz @ drop (unat sz) v)"
proof -
  from assms(1) have al: "take_bit 2 a = 0" and sz: "sz \<in> {1, 2, 4, 8}"
    by (simp_all add: d_access_def)
  note off = offset_aligned(2) [OF al, of 3] d_offset [OF al]
  show ?thesis
  proof (cases "sz = 8")
    case True
    with assms(1) have "take_bit 3 a = 0" by (simp add: d_access_def)
    with True assms(2,3) show ?thesis
      using le_bytes_line_double [OF assms(2)]
      by (simp add: line_value_def line_word_def put_value_def buf_put_ok access_bytes_def)
  next
    case False
    have k: "unat (take_bit 3 a) + 4 \<le> 8" using off by auto
    with False assms(2) off(1) have
      "line_value line (unat (drop_bit 2 (take_bit 3 a))) sz =
         Inr (ucast (le_word (take 4 (drop (unat (take_bit 3 a)) line)) :: u32))"
      by (simp add: line_value_def line_word_def)
    moreover have "unat sz \<le> 4" using sz False by auto
    then have "le_bytes (unat sz) (ucast (le_word (take 4 (drop (unat (take_bit 3 a)) line)) :: u32) :: u64) =
        access_bytes line a sz"
      using k assms(2) by (simp add: le_bytes_line_word access_bytes_def)
    moreover have "length (access_bytes line a sz) = unat sz"
      using k assms(2) \<open>unat sz \<le> 4\<close> by (simp add: access_bytes_def)
    ultimately show ?thesis
      using sz assms(3) by (simp add: put_value_def buf_put_ok)
  qed
qed

lemma find_hit_dcache:
  assumes "dcache c"
  shows "find_hit c (d_index a) (drop_bit 14 a) k sz =
    (case dcache_lookup c a of
       None \<Rightarrow> Inr None
     | Some line \<Rightarrow> map_sum id Some (line_value line k sz))"
proof -
  have "cache_type c \<noteq> CACHE_INSTRUCTION" using assms by (simp add: dcache_def)
  then show ?thesis
    by (simp add: find_hit_def dcache_rows [OF assms] dcache_lookup_def d_match_def tag_d_match)
qed

lemma dcache_lookup_length: "dcache c \<Longrightarrow> dcache_lookup c a = Some line \<Longrightarrow> length line = 8"
  by (auto simp: dcache_lookup_def dcache_rows split: if_splits)

lemma dcache_read_hit:
  assumes "dcache c" "d_access a sz" "unat sz \<le> length v" "dcache_lookup c a = Some line"
  shows "read_access f c a sz v fu av = Inr (0, access_bytes line a sz @ drop (unat sz) v, c, f)"
  using assms d_value [OF assms(2) _ assms(3), of line] dcache_lookup_length [OF assms(1,4)]
  by (auto simp: read_access_def fields_dcache offset_aligned d_access_def find_hit_dcache Let_def)

section \<open>The data cache in front of memory\<close>

text \<open>
  The byte a program sees at an address: that of the line in the cache, or that of memory. The
  invariant of the data cache relates the two: a clean line agrees with memory and no line is in
  both ways of its set.
\<close>

definition off :: "u64 \<Rightarrow> nat" where "off x = unat (take_bit 3 x)"

definition same_line :: "u64 \<Rightarrow> u64 \<Rightarrow> bool" where
  "same_line x a \<longleftrightarrow> drop_bit 3 x = drop_bit 3 a"

definition view :: "framework \<Rightarrow> cache_table \<Rightarrow> u64 \<Rightarrow> u8" where
  "view f c x = (case dcache_lookup c x of Some line \<Rightarrow> line ! off x | None \<Rightarrow> riscv_mem f x)"

definition clean_coherent :: "framework \<Rightarrow> cache_table \<Rightarrow> bool" where
  "clean_coherent f c \<longleftrightarrow>
     (\<forall>x. \<forall>r \<in> {d_row0 c x, d_row1 c x}.
        d_match r x \<and> \<not> rd_dirty r \<longrightarrow> rd_data r ! off x = riscv_mem f x)"

definition one_copy :: "cache_table \<Rightarrow> bool" where
  "one_copy c \<longleftrightarrow> (\<forall>x. \<not> (d_match (d_row0 c x) x \<and> d_match (d_row1 c x) x))"

definition dcache_inv :: "framework \<Rightarrow> cache_table \<Rightarrow> bool" where
  "dcache_inv f c \<longleftrightarrow> dcache c \<and> clean_coherent f c \<and> one_copy c"

lemma drop_bit_3_split:
  "drop_bit 3 x = drop_bit 3 (a :: u64) \<longleftrightarrow> d_index x = d_index a \<and> drop_bit 14 x = drop_bit 14 a"
proof
  assume eq: "drop_bit 3 x = drop_bit 3 a"
  then have "drop_bit 11 (drop_bit 3 x) = drop_bit 11 (drop_bit 3 a)" by (rule arg_cong)
  then have "drop_bit 14 x = drop_bit 14 a" by (simp add: drop_bit_drop_bit del: drop_bit_eq_div)
  with eq show "d_index x = d_index a \<and> drop_bit 14 x = drop_bit 14 a"
    by (simp add: d_index_take)
next
  assume r: "d_index x = d_index a \<and> drop_bit 14 x = drop_bit 14 a"
  have "drop_bit 3 w = take_bit 11 (drop_bit 3 w) OR push_bit 11 (drop_bit 14 w)" for w :: u64
  proof (rule bit_word_eqI)
    fix n
    show "bit (drop_bit 3 w) n = bit (take_bit 11 (drop_bit 3 w) OR push_bit 11 (drop_bit 14 w)) n"
    proof (cases "n < 11")
      case False
      then have "14 + (n - 11) = 3 + n" by simp
      with False show ?thesis
        using bit_imp_le_length [of w "3 + n"] by (auto simp: bit_simps)
    qed (auto simp: bit_simps)
  qed
  with r show "drop_bit 3 x = drop_bit 3 a"
    by (metis d_index_take)
qed

lemma d_tag_eq: "(ucast (drop_bit 14 x) :: 50 word) = ucast (drop_bit 14 (a :: u64)) \<longleftrightarrow>
    drop_bit 14 x = drop_bit 14 a"
  by (metis tag_d_exact)

lemma d_match_new:
  assumes "d_index x = d_index a" "rd_valid r" "rd_tag r = ucast (drop_bit 14 a)"
  shows "d_match r x \<longleftrightarrow> same_line x a"
  using assms by (auto simp: d_match_def same_line_def drop_bit_3_split d_tag_eq)

lemma same_line_index: "same_line x a \<Longrightarrow> d_index x = d_index a"
  by (simp add: same_line_def drop_bit_3_split)

lemma d_match_same_line: "same_line x a \<Longrightarrow> d_match r x = d_match r a"
  by (simp add: d_match_def same_line_def drop_bit_3_split)

lemma d_index_unat_eq: "unat (d_index x) = unat (d_index a) \<longleftrightarrow> d_index x = d_index a"
  by (simp add: word_unat_eq_iff)

definition way_of :: "u64 \<Rightarrow> bool \<Rightarrow> u64" where
  "way_of a second = (if second then d_index a + 2048 else d_index a)"

lemma put_row_d_rows:
  assumes "dcache c"
  shows "d_row0 (put_row_d c (way_of a w) r) x =
      (if \<not> w \<and> d_index x = d_index a then r else d_row0 c x)"
    and "d_row1 (put_row_d c (way_of a w) r) x =
      (if w \<and> d_index x = d_index a then r else d_row1 c x)"
  using assms d_index_less [of a] d_index_less [of x] d_index_unat_eq [of x a]
  by (auto simp: put_row_d_def d_row0_def d_row1_def way_of_def d_index_way nth_list_update dcache_def)

lemma put_row_d_dcache:
  assumes "dcache c" "length (rd_data r) = 8"
  shows "dcache (put_row_d c i r)"
  using assms by (auto simp: dcache_def put_row_d_def dest!: set_update_subset_insert [THEN subsetD])

definition d_way :: "cache_table \<Rightarrow> u64 \<Rightarrow> bool \<Rightarrow> cache_row_d" where
  "d_way c a w = (if w then d_row1 c a else d_row0 c a)"

text \<open>Replacing a clean row on a miss, with the line of \<open>a\<close>.\<close>

lemma replace_row:
  assumes inv: "dcache_inv f c" and miss: "dcache_lookup c a = None"
    and victim: "\<not> rd_dirty (d_way c a w)" and len: "length line = 8"
    and mem: "riscv_mem f1 = riscv_mem f"
    and clean: "\<And>x. \<not> d \<Longrightarrow> same_line x a \<Longrightarrow> line ! off x = riscv_mem f x"
  defines "c1 \<equiv> put_row_d c (way_of a w)
      \<lparr>rd_tag = ucast (drop_bit 14 a), rd_data = line, rd_dirty = d, rd_valid = True\<rparr>"
  shows "dcache_inv f1 c1"
    and "view f1 c1 x = (if same_line x a then line ! off x else view f c x)"
    and "dcache_lookup c1 a = Some line"
proof -
  let ?r = "\<lparr>rd_tag = ucast (drop_bit 14 a), rd_data = line, rd_dirty = d, rd_valid = True\<rparr>"
  have dc: "dcache c" and co: "clean_coherent f c" and one: "one_copy c"
    using inv by (simp_all add: dcache_inv_def)
  have new: "d_match ?r x \<longleftrightarrow> same_line x a" if "d_index x = d_index a" for x
    using that by (intro d_match_new) simp_all
  have missx: "\<not> d_match (d_row0 c x) x \<and> \<not> d_match (d_row1 c x) x" if "same_line x a" for x
  proof -
    have "d_row0 c x = d_row0 c a" "d_row1 c x = d_row1 c a"
      using same_line_index [OF that] by (simp_all add: d_row0_def d_row1_def)
    with miss that show ?thesis
      by (auto simp: dcache_lookup_def d_match_same_line split: if_splits)
  qed
  note rows = put_row_d_rows [OF dc, of a w ?r, folded c1_def]
  have "dcache c1" unfolding c1_def using dc len by (intro put_row_d_dcache) simp_all
  moreover have "clean_coherent f1 c1"
    using co clean mem by (auto simp: clean_coherent_def rows new)
  moreover have "one_copy c1"
    using one missx by (auto simp: one_copy_def rows new)
  ultimately show "dcache_inv f1 c1" by (simp add: dcache_inv_def)
  show "dcache_lookup c1 a = Some line"
    using missx [of a] by (cases w) (simp_all add: dcache_lookup_def rows new same_line_def)
  have vic: "rd_data (d_way c x w) ! off x = riscv_mem f x"
    if "d_index x = d_index a" "d_match (d_way c x w) x" for x
  proof -
    have "d_way c x w = d_way c a w" using that(1) by (simp add: d_way_def d_row0_def d_row1_def)
    moreover have "d_match (d_way c x w) x \<and> \<not> rd_dirty (d_way c x w) \<longrightarrow>
        rd_data (d_way c x w) ! off x = riscv_mem f x"
      using co by (simp add: clean_coherent_def d_way_def)
    ultimately show ?thesis using that(2) victim by simp
  qed
  show "view f1 c1 x = (if same_line x a then line ! off x else view f c x)"
  proof (cases "same_line x a")
    case True
    then show ?thesis
      using missx [OF True] same_line_index [OF True]
      by (cases w) (simp_all add: view_def dcache_lookup_def rows new)
  next
    case False
    then show ?thesis
      using vic [of x] one mem
      by (cases w; cases "d_index x = d_index a")
        (auto simp: view_def dcache_lookup_def rows new d_way_def one_copy_def)
  qed
qed

text \<open>Overwriting the bytes of a dirty line in the first way.\<close>

lemma overwrite_row:
  assumes inv: "dcache_inv f c" and hit: "d_match (d_row0 c a) a" and dirty: "rd_dirty (d_row0 c a)"
    and len: "length line = 8"
  defines "c1 \<equiv> put_row_d c (d_index a) ((d_row0 c a)\<lparr>rd_data := line\<rparr>)"
  shows "dcache_inv f c1"
    and "view f c1 x = (if same_line x a then line ! off x else view f c x)"
proof -
  let ?r = "(d_row0 c a)\<lparr>rd_data := line\<rparr>"
  have dc: "dcache c" and co: "clean_coherent f c" and one: "one_copy c"
    using inv by (simp_all add: dcache_inv_def)
  note rows = put_row_d_rows [OF dc, of a False ?r, unfolded way_of_def, simplified, folded c1_def]
  have match: "d_match ?r x = d_match (d_row0 c x) x" "d_match ?r x \<longleftrightarrow> same_line x a"
    if "d_index x = d_index a" for x
    using that d_match_new [OF that, of ?r] hit by (simp_all add: d_match_def d_row0_def)
  have "dcache c1" unfolding c1_def using dc len by (intro put_row_d_dcache) simp_all
  moreover have "clean_coherent f c1"
    using co dirty by (auto simp: clean_coherent_def rows)
  moreover have "one_copy c1"
    using one match(1) by (auto simp: one_copy_def rows)
  ultimately show "dcache_inv f c1" by (simp add: dcache_inv_def)
  show "view f c1 x = (if same_line x a then line ! off x else view f c x)"
    using match [of x] same_line_index [of x a] hit
    by (cases "d_index x = d_index a") (auto simp: view_def dcache_lookup_def rows)
qed

lemma line_start: "push_bit 3 (drop_bit 3 x) + of_nat (off x) = (x :: u64)"
proof -
  have "push_bit 3 (drop_bit 3 x) + take_bit 3 x = x"
    by (simp add: bits_ident)
  then show ?thesis by (simp add: off_def)
qed

lemma off_less: "off x < 8"
  using unat_take_bit_less [of 3 x] by (simp add: off_def)

lemma line_add:
  assumes "m < 8"
  shows "drop_bit 3 (push_bit 3 (drop_bit 3 y) + of_nat m) = drop_bit 3 (y :: u64)"
    and "off (push_bit 3 (drop_bit 3 y) + of_nat m) = m"
proof -
  let ?m = "of_nat m :: u64"
  have small: "take_bit 3 ?m = ?m"
    using assms by (simp add: word_unat_eq_iff unsigned_take_bit_eq unat_of_nat_u64 take_bit_nat_eq_self)
  have bm: "bit ?m n \<Longrightarrow> n < 3" for n
    by (metis small bit_take_bit_iff)
  have "push_bit 3 (drop_bit 3 y) AND ?m = 0"
    by (rule bit_word_eqI) (use bm in \<open>fastforce simp: bit_simps\<close>)
  then have sum: "push_bit 3 (drop_bit 3 y) + ?m = push_bit 3 (drop_bit 3 y) OR ?m"
    by (simp add: disjunctive_add_eq_or)
  show "drop_bit 3 (push_bit 3 (drop_bit 3 y) + ?m) = drop_bit 3 y"
  proof (rule bit_word_eqI)
    fix n assume "n < LENGTH(64)"
    moreover have "\<not> bit ?m (3 + n)" using bm [of "3 + n"] by auto
    ultimately show "bit (drop_bit 3 (push_bit 3 (drop_bit 3 y) + ?m)) n = bit (drop_bit 3 y) n"
      unfolding sum using bit_imp_le_length [of y "3 + n"] by (auto simp: bit_simps)
  qed
  have "take_bit 3 (push_bit 3 (drop_bit 3 y) + ?m) = ?m"
    unfolding sum by (rule bit_word_eqI) (use bm in \<open>fastforce simp: bit_simps\<close>)
  then show "off (push_bit 3 (drop_bit 3 y) + ?m) = m"
    using assms by (simp add: off_def unat_of_nat_u64)
qed

lemma near_same_line:
  assumes "off a + k < 8"
  shows "same_line (a + of_nat k) a" "off (a + of_nat k) = off a + k"
proof -
  have "a + of_nat k = push_bit 3 (drop_bit 3 a) + of_nat (off a) + of_nat k"
    by (simp only: line_start)
  also have "\<dots> = push_bit 3 (drop_bit 3 a) + of_nat (off a + k)"
    by (simp only: of_nat_add add.assoc)
  finally have "a + of_nat k = push_bit 3 (drop_bit 3 a) + of_nat (off a + k)" .
  then show "same_line (a + of_nat k) a" "off (a + of_nat k) = off a + k"
    unfolding same_line_def by (simp_all only: line_add [OF assms, of a])
qed

lemma same_line_diff:
  assumes "same_line x a"
  shows "unat (x - a) < n \<and> n \<le> 8 \<longleftrightarrow> off a \<le> off x \<and> off x < off a + n \<and> n \<le> 8"
    and "off a \<le> off x \<Longrightarrow> unat (x - a) = off x - off a"
proof -
  have "x - a = push_bit 3 (drop_bit 3 x) + of_nat (off x) - (push_bit 3 (drop_bit 3 a) + of_nat (off a))"
    by (simp only: line_start)
  also have "\<dots> = of_nat (off x) - of_nat (off a)"
    using assms unfolding same_line_def by (simp only: add_diff_cancel_left)
  finally have eq: "x - a = of_nat (off x) - of_nat (off a)" .
  show le: "unat (x - a) = off x - off a" if "off a \<le> off x"
  proof -
    have "x - a = of_nat (off x - off a)" using eq that by (simp add: of_nat_diff)
    then show ?thesis using off_less [of x] by (simp add: unat_of_nat_u64)
  qed
  have "\<not> unat (x - a) < n" if "off x < off a" "n \<le> 8"
  proof -
    have "a - x = of_nat (off a - off x)" using eq that(1) by (simp add: of_nat_diff algebra_simps)
    then have d: "unat (a - x) = off a - off x" using off_less [of a] by (simp add: unat_of_nat_u64)
    then have "unat (x - a) = 2 ^ 64 - (off a - off x)"
      using that(1) unat_sub_if_size [of x a] unat_sub_if_size [of a x]
      by (auto simp: word_size split: if_splits)
    then show ?thesis using off_less [of a] that(2) by simp
  qed
  with le show "unat (x - a) < n \<and> n \<le> 8 \<longleftrightarrow> off a \<le> off x \<and> off x < off a + n \<and> n \<le> 8"
    by (cases "off a \<le> off x") auto
qed

lemma view_store:
  assumes v1: "\<And>x. v1 x =
      (if same_line x a then (take (off a) l0 @ bs @ drop (off a + length bs) l0) ! off x else v0 x)"
    and v0: "\<And>x. same_line x a \<Longrightarrow> v0 x = l0 ! off x"
    and fits: "off a + length bs \<le> 8" and len: "length l0 = 8"
  shows "v1 = store_bytes v0 a bs"
proof
  fix x
  show "v1 x = store_bytes v0 a bs x"
  proof (cases "same_line x a")
    case True
    have "unat (x - a) < length bs \<longleftrightarrow> off a \<le> off x \<and> off x < off a + length bs"
      using fits same_line_diff(1) [OF True, of "length bs"] by simp
    then show ?thesis
      using True v1 [of x] v0 [of x] fits len off_less [of x] same_line_diff(2) [OF True]
      by (auto simp: store_bytes_def nth_append not_less add.commute)
  next
    case False
    have "\<not> unat (x - a) < length bs"
    proof
      assume k: "unat (x - a) < length bs"
      have "x = a + of_nat (unat (x - a))" by simp
      moreover have "same_line (a + of_nat (unat (x - a))) a"
        using k fits by (intro near_same_line) simp
      ultimately show False using False by metis
    qed
    with False v1 show ?thesis by (simp add: store_bytes_def)
  qed
qed

text \<open>The way a miss of \<open>a\<close> replaces, and the fill of a clean victim.\<close>

definition victim :: "cache_table \<Rightarrow> u64 \<Rightarrow> bool" where
  "victim c a \<longleftrightarrow> rd_valid (d_row0 c a) \<and>
     (\<not> rd_valid (d_row1 c a) \<or> rd_dirty (d_row0 c a) \<and> \<not> rd_dirty (d_row1 c a))"

lemma select_way_victim:
  assumes c: "dcache c"
  shows "select_way c (d_index a) = Inr (way_of a (victim c a))"
proof -
  from c have nb: "num_blocks c = 2048" by (simp add: dcache_def)
  note rows = dcache_rows(1,2) [OF c, of a, unfolded nb]
  show ?thesis by (simp add: select_way_def rows victim_def way_of_def nb)
qed

lemma row_way: "dcache c \<Longrightarrow> row_d c (way_of a w) = Inr (d_way c a w)"
  using dcache_rows(1,2) [of c a] by (simp add: way_of_def d_way_def dcache_def)

lemma d_way_length: "dcache c \<Longrightarrow> length (rd_data (d_way c a w)) = 8"
  by (simp add: d_way_def dcache_rows)

definition filled :: "u64 \<Rightarrow> u8 list \<Rightarrow> cache_row_d" where
  "filled a line =
     \<lparr>rd_tag = ucast (drop_bit 14 a), rd_data = line, rd_dirty = False, rd_valid = True\<rparr>"

definition stored :: "u64 \<Rightarrow> u8 list \<Rightarrow> cache_row_d" where
  "stored a line =
     \<lparr>rd_tag = ucast (drop_bit 14 a), rd_data = line, rd_dirty = True, rd_valid = True\<rparr>"

lemma evict_read_clean:
  assumes "dcache c" "select_way c i = Inr (way_of a w)" "\<not> rd_dirty (d_way c a w)"
    and "proper f a 8" "may_read f" "memory_read_latency f = 0"
  shows "evict_read f c a i (drop_bit 14 a) False =
    Inr (Some (way_of a w),
         put_row_d c (way_of a w) (filled a (fetch_bytes (riscv_mem f) a 8)), read_issued f 8)"
proof -
  have "cache_type c = CACHE_DATA" using assms(1) by (simp add: dcache_def)
  then show ?thesis
    using assms d_way_length [OF assms(1), of a w]
    by (simp add: evict_read_def row_way write_back_def fill_line_def memory_read_now filled_def)
qed

lemma aligned_line_bytes:
  assumes "take_bit 3 a = 0" "same_line x a"
  shows "fetch_bytes m a 8 ! off x = m x"
proof -
  have "off a = 0" using assms(1) by (simp add: off_def)
  then have "a = push_bit 3 (drop_bit 3 a)" using line_start [of a] by simp
  also have "\<dots> = push_bit 3 (drop_bit 3 x)" using assms(2) by (simp only: same_line_def)
  finally have "a + of_nat (off x) = x" using line_start [of x] by simp
  then show ?thesis using off_less [of x] by simp
qed

lemma lookup_same_line: "same_line x a \<Longrightarrow> dcache_lookup c x = dcache_lookup c a"
  using same_line_index [of x a]
  by (simp add: dcache_lookup_def d_match_same_line d_row0_def d_row1_def)

lemma fill_row:
  assumes "dcache_inv f c" "dcache_lookup c a = None" "\<not> rd_dirty (d_way c a w)" "take_bit 3 a = 0"
    and "riscv_mem f1 = riscv_mem f"
  defines "line \<equiv> fetch_bytes (riscv_mem f) a 8"
  defines "c1 \<equiv> put_row_d c (way_of a w) (filled a line)"
  shows "dcache_inv f1 c1" "view f1 c1 = view f c" "dcache_lookup c1 a = Some line"
proof -
  have len: "length line = 8" by (simp add: line_def)
  have al: "line ! off x = riscv_mem f x" if "same_line x a" for x
    unfolding line_def by (rule aligned_line_bytes [OF assms(4) that])
  note new = replace_row [OF assms(1-3) len assms(5), of False, folded filled_def c1_def, OF al]
  show "dcache_inv f1 c1" "dcache_lookup c1 a = Some line"
    using new(1,3) by blast+
  have "view f1 c1 x = view f c x" for x
    using new(2) [of x] al [of x] lookup_same_line [of x a c] assms(2) by (simp add: view_def)
  then show "view f1 c1 = view f c" by (rule ext)
qed

definition view_bytes :: "framework \<Rightarrow> cache_table \<Rightarrow> u64 \<Rightarrow> nat \<Rightarrow> u8 list" where
  "view_bytes f c a n = fetch_bytes (view f c) a n"

lemma view_hit:
  assumes "dcache_lookup c a = Some line" "length line = 8" "off a + n \<le> 8"
  shows "view_bytes f c a n = take n (drop (off a) line)"
proof (rule nth_equalityI)
  fix k assume "k < length (view_bytes f c a n)"
  then have k: "k < n" by (simp add: view_bytes_def)
  then have near: "same_line (a + of_nat k) a" "off (a + of_nat k) = off a + k"
    using near_same_line [of a k] assms(3) by simp_all
  show "view_bytes f c a n ! k = take n (drop (off a) line) ! k"
    using k assms near(2) lookup_same_line [OF near(1)] by (simp add: view_bytes_def view_def)
qed (use assms in \<open>simp add: view_bytes_def\<close>)

lemma d_access_fits: "d_access a sz \<Longrightarrow> off a + unat sz \<le> 8"
  using d_offset [of a] by (auto simp: d_access_def off_def)

lemma dcache_read_miss:
  assumes dc: "dcache c" and acc: "d_access a sz" "unat sz \<le> length v"
    and miss: "dcache_lookup c a = None" and clean: "\<not> rd_dirty (d_way c a (victim c a))"
    and port: "proper f a 8" "may_read f" "memory_read_latency f = 0"
  defines "line \<equiv> fetch_bytes (riscv_mem f) a 8"
  shows "read_access f c a sz v False True =
    Inr (0, access_bytes line a sz @ drop (unat sz) v,
         put_row_d c (way_of a (victim c a)) (filled a line), read_issued f 8)"
proof -
  let ?w = "victim c a"
  let ?c1 = "put_row_d c (way_of a ?w) (filled a line)"
  note ev = evict_read_clean [OF dc select_way_victim [OF dc] clean port, folded line_def]
  have data: "rd_data (filled a line) = line" "length line = 8" by (simp_all add: filled_def line_def)
  then have dc1: "dcache ?c1" using dc by (intro put_row_d_dcache) simp_all
  have ct: "cache_type ?c1 \<noteq> CACHE_INSTRUCTION" using dc1 by (simp add: dcache_def)
  have "d_way ?c1 a ?w = filled a line"
    using dc by (simp add: d_way_def put_row_d_rows)
  then have "row_data ?c1 (way_of a ?w) = Inr line"
    using ct data by (simp add: row_data_def row_way [OF dc1])
  then show ?thesis
    using d_value [OF acc(1) data(2) acc(2)] acc miss ev dc
    by (auto simp: read_access_def fields_dcache offset_aligned d_access_def find_hit_dcache Let_def)
qed

lemma data_read:
  assumes inv: "dcache_inv f c" and acc: "d_access a sz" and buf: "unat sz \<le> length v"
    and "dcache_lookup c a \<noteq> None \<or>
      proper f a 8 \<and> may_read f \<and> memory_read_latency f = 0 \<and> \<not> rd_dirty (d_way c a (victim c a))"
  shows "\<exists>c1 f1. read_access f c a sz v False True =
      Inr (0, view_bytes f c a (unat sz) @ drop (unat sz) v, c1, f1) \<and>
    dcache_inv f1 c1 \<and> view f1 c1 = view f c"
proof -
  have dc: "dcache c" using inv by (simp add: dcache_inv_def)
  note fits = d_access_fits [OF acc]
  show ?thesis
  proof (cases "dcache_lookup c a")
    case (Some line)
    have "view_bytes f c a (unat sz) = access_bytes line a sz"
      using view_hit [OF Some dcache_lookup_length [OF dc Some] fits]
      by (simp add: access_bytes_def off_def)
    then show ?thesis
      using dcache_read_hit [OF dc acc buf Some] inv by auto
  next
    case None
    let ?line = "fetch_bytes (riscv_mem f) a 8" and ?f1 = "read_issued f 8" and ?w = "victim c a"
    let ?c1 = "put_row_d c (way_of a ?w) (filled a ?line)"
    have prem: "proper f a 8" "may_read f" "memory_read_latency f = 0" "\<not> rd_dirty (d_way c a ?w)"
      using assms(4) None by simp_all
    then have al: "take_bit 3 a = 0" by (simp add: proper_def take_bit_eq_mod)
    have new: "dcache_inv ?f1 ?c1" "view ?f1 ?c1 = view f c" "dcache_lookup ?c1 a = Some ?line"
      using fill_row [OF inv None prem(4) al, of ?f1] by (simp_all add: read_issued_def)
    have "view_bytes f c a (unat sz) = access_bytes ?line a sz"
      using view_hit [OF new(3) _ fits, of ?f1] new(2)
      by (simp add: access_bytes_def off_def view_bytes_def)
    then show ?thesis
      using dcache_read_miss [OF dc acc buf None prem(4,1,2,3)] new(1,2) by auto
  qed
qed

text \<open>
  Property C6: data reads refine the view. Let the address be a multiple of 4 and the access stay
  inside one line (\<open>d_access\<close>; other accesses end the program or leave the row), and let every clean
  line hold what memory holds, no line being in both ways (\<open>dcache_inv\<close>). With a memory that answers at once, such a read that
  hits, or that misses at the start of a line while the way it replaces is clean, delivers the bytes
  the view holds at its address, keeps the invariant and leaves the whole view unchanged.
\<close>
theorem dcache_read_refines:
  assumes inv: "dcache_inv f c" and acc: "d_access a sz" and buf: "unat sz \<le> length v"
    and "dcache_lookup c a \<noteq> None \<or>
      proper f a 8 \<and> may_read f \<and> memory_read_latency f = 0 \<and> \<not> rd_dirty (d_way c a (victim c a))"
  shows "\<exists>c1 f1. read_access f c a sz v False True =
      Inr (0, view_bytes f c a (unat sz) @ drop (unat sz) v, c1, f1) \<and>
    dcache_inv f1 c1 \<and> view f1 c1 = view f c"
  by (rule data_read [OF assms])

definition patched :: "u8 list \<Rightarrow> u64 \<Rightarrow> u8 list \<Rightarrow> u8 list" where
  "patched line a bs = take (off a) line @ bs @ drop (off a + length bs) line"

lemma copy_patched:
  assumes "length line = 8" "off a + unat sz \<le> 8"
  shows "copy_into_line line (take_bit 3 a) w sz = Inr (patched line a (le_bytes (unat sz) w))"
  using assms by (simp add: copy_into_line_def buf_splice_ok patched_def off_def)

lemma patched_length: "length line = 8 \<Longrightarrow> off a + length bs \<le> 8 \<Longrightarrow> length (patched line a bs) = 8"
  by (simp add: patched_def)

lemma finish_write_way:
  assumes "dcache c" "off a + unat sz \<le> 8"
  shows "finish_write f c (way_of a w) (drop_bit 14 a) data (take_bit 3 a) sz =
    Inr (0, put_row_d c (way_of a w)
              (stored a (patched (rd_data (d_way c a w)) a (le_bytes (unat sz) data))), f)"
  using assms by (simp add: finish_write_def row_way copy_patched d_way_length stored_def)

lemma put_row_d_twice: "put_row_d (put_row_d c i r) i r' = put_row_d c i r'"
  by (simp add: put_row_d_def)

text \<open>A line completed from memory and then patched, put in place of a clean victim.\<close>

lemma store_row:
  assumes inv: "dcache_inv f c" "dcache_lookup c a = None" "\<not> rd_dirty (d_way c a w)"
    and mem: "riscv_mem f1 = riscv_mem f" and fits: "off a + length bs \<le> 8"
    and line: "length line = 8" "length bs = 8 \<or> line = fetch_bytes (riscv_mem f) a 8 \<and> take_bit 3 a = 0"
  defines "c1 \<equiv> put_row_d c (way_of a w) (stored a (patched line a bs))"
  shows "dcache_inv f1 c1" "view f1 c1 = store_bytes (view f c) a bs"
proof -
  define l0 where "l0 = (if length bs = 8 then fetch_bytes (riscv_mem f) a 8 else line)"
  have p: "patched line a bs = patched l0 a bs" and l0: "length l0 = 8"
    using line fits by (auto simp: patched_def l0_def)
  have al: "take_bit 3 a = 0"
    using line(2) fits by (auto simp: off_def word_unat_eq_iff)
  note new = replace_row [OF inv patched_length [OF line(1) fits] mem, of True,
      folded stored_def c1_def, simplified]
  show "dcache_inv f1 c1" by (rule new(1))
  have "view f c x = l0 ! off x" if "same_line x a" for x
    using lookup_same_line [OF that, of c] assms(2) line(2) aligned_line_bytes [OF al that]
    by (auto simp: view_def l0_def)
  then show "view f1 c1 = store_bytes (view f c) a bs"
    using new(2) [unfolded p, unfolded patched_def] l0 fits by (intro view_store) auto
qed

lemma write_access_hit:
  assumes dc: "dcache c" and fits: "off a + unat sz \<le> 8"
    and hit: "d_match (d_row0 c a) a \<or> d_match (d_row1 c a) a"
  shows "write_access f c a w sz fu av =
    Inr (0, put_row_d c (d_index a) ((d_row0 c a)
       \<lparr>rd_data := patched (rd_data (d_row0 c a)) a (le_bytes (unat sz) w)\<rparr>), f)"
proof -
  have "cache_type c = CACHE_DATA" using dc by (simp add: dcache_def)
  then show ?thesis
    using hit copy_patched [OF dcache_rows(3) [OF dc] fits]
    by (auto simp: write_access_def fields_dcache [OF dc] dcache_rows [OF dc] d_match_def
        tag_d_match Let_def tag_d_exact)
qed

lemma write_access_miss:
  assumes dc: "dcache c" and "dcache_lookup c a = None"
  shows "write_access f c a w sz fu av =
    evict_write f c a (d_index a) (drop_bit 14 a) w (take_bit 3 a) sz fu av"
proof -
  have "cache_type c = CACHE_DATA" using dc by (simp add: dcache_def)
  then show ?thesis
    using assms(2)
    by (auto simp: write_access_def fields_dcache [OF dc] dcache_rows [OF dc]
        dcache_lookup_def d_match_def tag_d_match Let_def split: if_splits)
qed

lemma evict_write_double:
  assumes dc: "dcache c" and "\<not> rd_dirty (d_way c a (victim c a))" "off a + unat (8 :: u8) \<le> 8"
  shows "evict_write f c a (d_index a) (drop_bit 14 a) w (take_bit 3 a) 8 fu av =
    Inr (0, put_row_d c (way_of a (victim c a))
       (stored a (patched (rd_data (d_way c a (victim c a))) a (le_bytes 8 w))), f)"
proof -
  have "cache_type c = CACHE_DATA" using dc by (simp add: dcache_def)
  then show ?thesis
    using assms finish_write_way [OF dc assms(3)]
    by (simp add: evict_write_def select_way_victim row_way)
qed

lemma select_way_again:
  assumes "dcache c" "victim c a \<longrightarrow> \<not> rd_valid (d_row1 c a)"
  shows "select_way c (way_of a (victim c a)) = Inr (way_of a (victim c a))"
proof (cases "victim c a")
  case True
  with assms show ?thesis
    using row_way [OF assms(1), of a True] by (simp add: select_way_def d_way_def)
next
  case False
  then show ?thesis
    using select_way_victim [OF assms(1), of a] by (simp add: way_of_def)
qed

lemma evict_write_partial:
  assumes dc: "dcache c" and clean: "\<not> rd_dirty (d_way c a (victim c a))"
    and fits: "off a + unat sz \<le> 8" "sz \<noteq> 8"
    and acc: "proper f a 8" "may_read f" "memory_read_latency f = 0"
    and way: "victim c a \<longrightarrow> \<not> rd_valid (d_row1 c a)"
  shows "evict_write f c a (d_index a) (drop_bit 14 a) w (take_bit 3 a) sz False True =
    Inr (0, put_row_d c (way_of a (victim c a))
       (stored a (patched (fetch_bytes (riscv_mem f) a 8) a (le_bytes (unat sz) w))), read_issued f 8)"
proof -
  let ?i = "way_of a (victim c a)" and ?r = "filled a (fetch_bytes (riscv_mem f) a 8)"
  have ct: "cache_type c = CACHE_DATA" using dc by (simp add: dcache_def)
  have ev: "evict_read f c a ?i (drop_bit 14 a) False = Inr (Some ?i, put_row_d c ?i ?r, read_issued f 8)"
    by (rule evict_read_clean [OF dc select_way_again [OF dc way] clean acc])
  have data: "rd_data ?r = fetch_bytes (riscv_mem f) a 8" by (simp add: filled_def)
  then have dc1: "dcache (put_row_d c ?i ?r)" using dc by (intro put_row_d_dcache) simp_all
  have "d_way (put_row_d c ?i ?r) a (victim c a) = ?r"
    using dc by (simp add: d_way_def put_row_d_rows)
  then show ?thesis
    using finish_write_way [OF dc1 fits(1), of "read_issued f 8" "victim c a" w] ct fits(2) data
    by (simp add: evict_write_def select_way_victim [OF dc] ev put_row_d_twice)
qed

lemma dcache_write_hit:
  assumes inv: "dcache_inv f c" and fits: "off a + unat sz \<le> 8"
    and hit: "d_match (d_row0 c a) a" "rd_dirty (d_row0 c a)"
  shows "\<exists>c1. write_access f c a w sz False True = Inr (0, c1, f) \<and> dcache_inv f c1 \<and>
    view f c1 = store_bytes (view f c) a (le_bytes (unat sz) w)"
proof -
  have dc: "dcache c" using inv by (simp add: dcache_inv_def)
  let ?bs = "le_bytes (unat sz) w" and ?l0 = "rd_data (d_row0 c a)"
  have lbs: "off a + length ?bs \<le> 8" using fits by simp
  have len: "length ?l0 = 8" by (rule dcache_rows(3) [OF dc])
  let ?c1 = "put_row_d c (d_index a) ((d_row0 c a)\<lparr>rd_data := patched ?l0 a ?bs\<rparr>)"
  have "write_access f c a w sz False True = Inr (0, ?c1, f)"
    using hit by (intro write_access_hit [OF dc fits]) simp
  moreover note over = overwrite_row [OF inv _ _ patched_length [OF len lbs]]
  have "view f c x = ?l0 ! off x" if "same_line x a" for x
    using lookup_same_line [OF that, of c] hit by (simp add: view_def dcache_lookup_def)
  then have "view f ?c1 = store_bytes (view f c) a ?bs"
    using over(2) hit len lbs unfolding patched_def by (intro view_store) auto
  ultimately show ?thesis using over(1) hit by blast
qed

lemma data_write:
  assumes inv: "dcache_inv f c" and fits: "off a + unat sz \<le> 8" "sz \<in> {1, 2, 4, 8}"
    and "d_match (d_row0 c a) a \<and> rd_dirty (d_row0 c a) \<or>
      dcache_lookup c a = None \<and> \<not> rd_dirty (d_way c a (victim c a)) \<and>
      (sz = 8 \<or> proper f a 8 \<and> may_read f \<and> memory_read_latency f = 0 \<and>
         (victim c a \<longrightarrow> \<not> rd_valid (d_row1 c a)))"
  shows "\<exists>c1 f1. write_access f c a w sz False True = Inr (0, c1, f1) \<and> dcache_inv f1 c1 \<and>
    view f1 c1 = store_bytes (view f c) a (le_bytes (unat sz) w)"
proof -
  have dc: "dcache c" using inv by (simp add: dcache_inv_def)
  let ?bs = "le_bytes (unat sz) w"
  have lbs: "off a + length ?bs \<le> 8" using fits by simp
  show ?thesis
  proof (cases "d_match (d_row0 c a) a \<and> rd_dirty (d_row0 c a)")
    case True
    then show ?thesis using dcache_write_hit [OF inv fits(1)] by blast
  next
    case False
    then have miss: "dcache_lookup c a = None" and clean: "\<not> rd_dirty (d_way c a (victim c a))"
      and part: "sz = 8 \<or> proper f a 8 \<and> may_read f \<and> memory_read_latency f = 0 \<and>
         (victim c a \<longrightarrow> \<not> rd_valid (d_row1 c a))"
      using assms(4) by auto
    show ?thesis
    proof (cases "sz = 8")
      case True
      have "write_access f c a w sz False True = Inr (0, put_row_d c (way_of a (victim c a))
          (stored a (patched (rd_data (d_way c a (victim c a))) a ?bs)), f)"
        using evict_write_double [OF dc clean] fits True by (simp add: write_access_miss [OF dc miss])
      moreover have "length ?bs = 8" using True by simp
      ultimately show ?thesis
        using store_row [OF inv miss clean refl lbs d_way_length [OF dc]] by blast
    next
      case False
      with part have acc: "proper f a 8" "may_read f" "memory_read_latency f = 0"
        and way: "victim c a \<longrightarrow> \<not> rd_valid (d_row1 c a)" by simp_all
      have al: "take_bit 3 a = 0" using acc(1) by (simp add: proper_def take_bit_eq_mod)
      have mem: "riscv_mem (read_issued f 8) = riscv_mem f" by (simp add: read_issued_def)
      have wr: "write_access f c a w sz False True = Inr (0, put_row_d c (way_of a (victim c a))
          (stored a (patched (fetch_bytes (riscv_mem f) a 8) a ?bs)), read_issued f 8)"
        unfolding write_access_miss [OF dc miss]
        by (rule evict_write_partial [OF dc clean fits(1) False acc way])
      then show ?thesis
        using store_row [OF inv miss clean mem lbs, of "fetch_bytes (riscv_mem f) a 8"] al by simp
    qed
  qed
qed

text \<open>
  Property C7: data writes refine the view. A write inside one line that hits a dirty line of the
  first way, or that misses while the way it replaces is clean (for a partial write also: at the
  start of a line, with a memory that answers at once, and replacing the first way or an
  invalid row), succeeds, keeps the invariant and updates the view like a store to memory.
\<close>
theorem dcache_write_refines:
  assumes inv: "dcache_inv f c" and fits: "off a + unat sz \<le> 8" "sz \<in> {1, 2, 4, 8}"
    and "d_match (d_row0 c a) a \<and> rd_dirty (d_row0 c a) \<or>
      dcache_lookup c a = None \<and> \<not> rd_dirty (d_way c a (victim c a)) \<and>
      (sz = 8 \<or> proper f a 8 \<and> may_read f \<and> memory_read_latency f = 0 \<and>
         (victim c a \<longrightarrow> \<not> rd_valid (d_row1 c a)))"
  shows "\<exists>c1 f1. write_access f c a w sz False True = Inr (0, c1, f1) \<and> dcache_inv f1 c1 \<and>
    view f1 c1 = store_bytes (view f c) a (le_bytes (unat sz) w)"
  by (rule data_write [OF assms])

lemma dcache_inv_boot: "dcache_inv f boot_dcache"
proof -
  have "\<not> d_match (d_row0 boot_dcache x) x" "\<not> d_match (d_row1 boot_dcache x) x" for x
    using d_index_less [of x]
    by (simp_all add: d_match_def d_row0_def d_row1_def boot_dcache_def zero_row_d_def)
  then show ?thesis
    by (auto simp: dcache_inv_def boot_caches clean_coherent_def one_copy_def)
qed

lemma boot_dcache_cold:
  "dcache_lookup boot_dcache a = None" "\<not> victim boot_dcache a"
  "\<not> rd_dirty (d_way boot_dcache a (victim boot_dcache a))"
  using d_index_less [of a]
  by (simp_all add: dcache_lookup_def victim_def d_way_def d_match_def d_row0_def d_row1_def
      boot_dcache_def zero_row_d_def)

definition data_framework :: framework where
  "data_framework = boot_framework\<lparr>current_stage := STAGE_M_BIT, riscv_mem := \<lambda>a. ucast a\<rparr>"

lemma data_framework_ready:
  "proper data_framework 0x100 8" "may_read data_framework" "may_write data_framework"
  "memory_read_latency data_framework = 0" "memory_write_latency data_framework = 0"
  by (simp_all add: proper_def in_block_def may_read_def may_write_def port_free_def
      data_framework_def boot_framework_def)

theorem dcache_read_refines_witness:
  "\<exists>c1 f1. read_access data_framework boot_dcache 0x100 4 (replicate 8 9) False True =
      Inr (0, view_bytes data_framework boot_dcache 0x100 4 @ replicate 4 9, c1, f1) \<and>
    view f1 c1 = view data_framework boot_dcache"
proof -
  have "d_access 0x100 4" by (simp add: d_access_def take_bit_eq_mod)
  then show ?thesis
    using dcache_read_refines [OF dcache_inv_boot [of data_framework], of "0x100" 4 "replicate 8 9"]
      boot_dcache_cold [of "0x100"] data_framework_ready by auto
qed

theorem dcache_write_refines_witness:
  "\<exists>c1 f1. write_access data_framework boot_dcache 0x100 0xABCD 2 False True = Inr (0, c1, f1) \<and>
    view f1 c1 = store_bytes (view data_framework boot_dcache) 0x100 (le_bytes 2 (0xABCD :: u64))"
proof -
  have "off 0x100 + unat (2 :: u8) \<le> 8" by (simp add: off_def take_bit_eq_mod)
  then show ?thesis
    using dcache_write_refines [OF dcache_inv_boot [of data_framework], of "0x100" 2 "0xABCD"]
      boot_dcache_cold [of "0x100"] data_framework_ready by auto
qed

section \<open>Where the data cache departs from memory\<close>

text \<open>
  A store that hits in the second way. It answers success, but the bytes go to the
  row of the first way: the line of the address is unchanged, and the other line of the set is
  overwritten.
\<close>
theorem store_hit_second_way:
  assumes "dcache c" "\<not> d_match (d_row0 c a) a" "d_match (d_row1 c a) a" "off a + unat sz \<le> 8"
  shows "\<exists>c1. write_access f c a w sz fu av = Inr (0, c1, f) \<and>
    dcache_lookup c1 a = dcache_lookup c a \<and>
    d_row0 c1 a = (d_row0 c a)\<lparr>rd_data := patched (rd_data (d_row0 c a)) a (le_bytes (unat sz) w)\<rparr>"
proof -
  let ?r = "(d_row0 c a)\<lparr>rd_data := patched (rd_data (d_row0 c a)) a (le_bytes (unat sz) w)\<rparr>"
  let ?c1 = "put_row_d c (d_index a) ?r"
  have "write_access f c a w sz fu av = Inr (0, ?c1, f)"
    using assms(3) by (intro write_access_hit [OF assms(1,4)]) simp
  moreover note rows = put_row_d_rows [OF assms(1), of a False ?r a, unfolded way_of_def, simplified]
  have "dcache_lookup ?c1 a = dcache_lookup c a"
    using assms(2) by (auto simp: dcache_lookup_def rows d_match_def)
  ultimately show ?thesis using rows(1) by blast
qed

text \<open>
  Property C36: a store that hits a clean line is lost. The hit does not mark the line dirty, so
  when a later read replaces it (here: another line of the same set, with the second way valid)
  nothing is written back, and the program sees the old contents of memory again.
\<close>
theorem store_hit_clean_line_lost:
  assumes "dcache c" "d_match (d_row0 c a) a" "\<not> rd_dirty (d_row0 c a)" "rd_valid (d_row1 c a)"
    and "\<not> d_match (d_row1 c a) a" "off a + unat sz \<le> 8"
    and "d_index b = d_index a" "dcache_lookup c b = None"
    and "proper f b 8" "may_read f" "memory_read_latency f = 0" "length v = 8"
  shows "\<exists>c1 c2 f2 v2. write_access f c a w sz fu av = Inr (0, c1, f) \<and>
    read_access f c1 b 8 v False True = Inr (0, v2, c2, f2) \<and>
    riscv_mem f2 = riscv_mem f \<and> view f2 c2 a = riscv_mem f a"
proof -
  let ?r = "(d_row0 c a)\<lparr>rd_data := patched (rd_data (d_row0 c a)) a (le_bytes (unat sz) w)\<rparr>"
  let ?c1 = "put_row_d c (d_index a) ?r" and ?f2 = "read_issued f 8"
  have wr: "write_access f c a w sz fu av = Inr (0, ?c1, f)"
    using assms(2) by (intro write_access_hit [OF assms(1,6)]) simp
  have dc1: "dcache ?c1"
    using assms(1,6) dcache_rows(3) [OF assms(1)]
    by (intro put_row_d_dcache) (simp_all add: patched_length)
  note rows = put_row_d_rows [OF assms(1), of a False ?r, unfolded way_of_def, simplified]
  have same: "d_row0 c b = d_row0 c a" "d_row1 c b = d_row1 c a"
    using assms(7) by (simp_all add: d_row0_def d_row1_def)
  have vic: "\<not> victim ?c1 b"
    using assms(3,4,7) same by (simp add: victim_def rows)
  have miss: "dcache_lookup ?c1 b = None"
    using assms(7,8) same by (auto simp: rows dcache_lookup_def d_match_def split: if_splits)
  have clean: "\<not> rd_dirty (d_way ?c1 b (victim ?c1 b))"
    using vic assms(3,7) by (simp add: rows d_way_def)
  have al: "take_bit 3 b = 0" using assms(9) by (simp add: proper_def take_bit_eq_mod)
  have "take_bit 2 b = 0"
    using arg_cong [OF al, of "take_bit 2"] by (simp add: take_bit_take_bit)
  with al have "d_access b 8" by (simp add: d_access_def)
  note rd = dcache_read_miss [OF dc1 this _ miss clean assms(9-11), of v]
  let ?c2 = "put_row_d ?c1 (way_of b False) (filled b (fetch_bytes (riscv_mem f) b 8))"
  have other: "\<not> same_line a b"
    using assms(2,8) lookup_same_line [of a b c] by (auto simp: dcache_lookup_def)
  note rows2 = put_row_d_rows [OF dc1, of b False]
  have "\<not> d_match (filled b (fetch_bytes (riscv_mem f) b 8)) a"
    using other d_match_new [of a b] assms(7) by (simp add: filled_def)
  then have "dcache_lookup ?c2 a = None"
    using assms(5,7) by (simp add: dcache_lookup_def rows2 rows)
  then have "view ?f2 ?c2 a = riscv_mem f a"
    by (simp add: view_def read_issued_def)
  then show ?thesis
    using wr rd vic assms(12) by (auto simp: read_issued_def)
qed

text \<open>
  Property C35: replacing a dirty line. The write-back takes the one access of the stage, so the
  read of the new line is refused: when both accesses would be proper and the memory answers at
  once, the line is filled with zeros and found there by the next lookup, and the read, an aligned one
  inside the line, delivers zero.
\<close>
theorem dirty_eviction_reads_zero:
  assumes "dcache c" "d_access a sz" "unat sz \<le> length v" "dcache_lookup c a = None"
    and "rd_dirty (d_way c a (victim c a))" "proper f a 8" "may_write f"
    and "memory_write_latency f = 0"
    and "proper f (old_address c (way_of a (victim c a)) (d_way c a (victim c a))) 8"
  shows "\<exists>c1 f1. read_access f c a sz v False True =
      Inr (0, replicate (unat sz) 0 @ drop (unat sz) v, c1, f1) \<and>
    dcache_lookup c1 a = Some (replicate 8 0)"
proof -
  let ?w = "victim c a" and ?zero = "replicate 8 0 :: u8 list"
  let ?r = "d_way c a (victim c a)" and ?i = "way_of a (victim c a)"
  let ?f1 = "write_issued f (old_address c ?i ?r) (le_word (rd_data ?r)) 8"
  let ?c1 = "put_row_d c ?i (filled a ?zero)"
  have ct: "cache_type c = CACHE_DATA" using assms(1) by (simp add: dcache_def)
  have wr: "memory_write f (old_address c ?i ?r) (le_word (rd_data ?r)) 8 = Inr (True, ?f1)"
    using assms(7-9) by (simp add: memory_write_now)
  have "\<not> may_read ?f1" "current_stage ?f1 \<in> {STAGE_F_BIT, STAGE_M_BIT}" "proper ?f1 a 8"
    using assms(6,7) proper_cong [of ?f1 f]
    by (simp_all add: write_issued_def may_read_def may_write_def port_free_def fw_defs)
  then have rd: "memory_read ?f1 a (rd_data ?r) 8 = Inr (True, ?zero, ?f1)"
    using d_way_length [OF assms(1)] by (simp add: memory_read_busy)
  have ev: "evict_read f c a (d_index a) (drop_bit 14 a) False = Inr (Some ?i, ?c1, ?f1)"
    using assms(1,5) ct wr rd
    by (simp add: evict_read_def select_way_victim row_way write_back_def fill_line_def filled_def)
  have data: "rd_data (filled a ?zero) = ?zero" by (simp add: filled_def)
  then have dc1: "dcache ?c1" using assms(1) by (intro put_row_d_dcache) simp_all
  have way: "d_way ?c1 a ?w = filled a ?zero"
    using assms(1) by (simp add: d_way_def put_row_d_rows)
  have "cache_type ?c1 \<noteq> CACHE_INSTRUCTION" using dc1 by (simp add: dcache_def)
  with way data have rdta: "row_data ?c1 ?i = Inr ?zero"
    by (simp add: row_data_def row_way [OF dc1])
  have "access_bytes ?zero a sz = replicate (unat sz) 0"
    using d_access_fits [OF assms(2)] by (simp add: access_bytes_def off_def take_replicate min_absorb1)
  moreover have "dcache_lookup ?c1 a = Some ?zero"
  proof -
    have "d_match (filled a ?zero) a" by (simp add: d_match_def filled_def)
    moreover have "\<not> d_match (d_row0 c a) a" using assms(4) by (simp add: dcache_lookup_def split: if_splits)
    ultimately show ?thesis
      using data by (simp add: dcache_lookup_def put_row_d_rows [OF assms(1)])
  qed
  moreover have "read_access f c a sz v False True =
      Inr (0, access_bytes ?zero a sz @ drop (unat sz) v, ?c1, ?f1)"
    using d_value [OF assms(2) _ assms(3), of ?zero] assms(1,2,4) ev rdta
    by (auto simp: read_access_def fields_dcache offset_aligned d_access_def find_hit_dcache Let_def)
  ultimately show ?thesis by auto
qed

text \<open>
  A partial store into a full set. When the set holds a dirty line in the first way
  and a clean one in the second, a store of fewer than eight bytes that misses chooses the way
  twice and reads a row past the end of the table.
\<close>
lemma partial_store_leaves_table:
  assumes "dcache c" "dcache_lookup c a = None" "rd_valid (d_row0 c a)" "rd_dirty (d_row0 c a)"
    and "rd_valid (d_row1 c a)" "\<not> rd_dirty (d_row1 c a)" "sz \<noteq> 8"
  shows "write_access f c a w sz fu True = Inl OutOfBounds"
proof -
  have ct: "cache_type c = CACHE_DATA" "num_blocks c = 2048" "length (rows_d c) = 4096"
    using assms(1) by (simp_all add: dcache_def)
  have vic: "victim c a" using assms(3-6) by (simp add: victim_def)
  have "unat (way_of a True + 2048) = unat (d_index a) + 4096"
    using d_index_way [of a] d_index_less [of a] by (simp add: way_of_def unat_word_ariths)
  then have "row_d c (way_of a True + 2048) = Inl OutOfBounds"
    using ct by (simp add: row_d_def)
  then have "select_way c (way_of a True) = Inl OutOfBounds"
    using row_way [OF assms(1), of a True] assms(5) ct by (simp add: select_way_def d_way_def)
  then show ?thesis
    using vic ct(1) assms(7)
    by (simp add: write_access_miss [OF assms(1,2)] evict_write_def evict_read_def
        select_way_victim [OF assms(1)])
qed

text \<open>Instances: a table that is empty except for the two ways of the set of address 0x100.\<close>

definition one_set :: "cache_row_d \<Rightarrow> cache_row_d \<Rightarrow> cache_table" where
  "one_set r0 r1 = put_row_d (put_row_d boot_dcache (way_of 0x100 False) r0) (way_of 0x100 True) r1"

lemma one_set:
  assumes "length (rd_data r0) = 8" "length (rd_data r1) = 8"
  shows "dcache (one_set r0 r1)"
    and "d_index x = 0x20 \<Longrightarrow> d_row0 (one_set r0 r1) x = r0"
    and "d_index x = 0x20 \<Longrightarrow> d_row1 (one_set r0 r1) x = r1"
proof -
  have dc: "dcache (put_row_d boot_dcache (way_of 0x100 False) r0)"
    using boot_caches(2) assms by (intro put_row_d_dcache)
  then show "dcache (one_set r0 r1)"
    using assms(2) unfolding one_set_def by (rule put_row_d_dcache)
  have "d_index 0x100 = 0x20" by (simp add: d_index_def)
  then show "d_index x = 0x20 \<Longrightarrow> d_row0 (one_set r0 r1) x = r0"
    "d_index x = 0x20 \<Longrightarrow> d_row1 (one_set r0 r1) x = r1"
    by (simp_all add: one_set_def put_row_d_rows [OF dc] put_row_d_rows [OF boot_caches(2)])
qed

lemma set_addresses: "d_index 0x100 = 0x20" "d_index 0x4100 = 0x20" "d_index 0x8100 = 0x20"
  "off 0x100 = 0" "take_bit 3 (0x100 :: u64) = 0" "take_bit 2 (0x100 :: u64) = 0"
  by (simp_all add: d_index_def off_def take_bit_eq_mod)

lemma stored_filled [simp]:
  "d_match (stored b l) a \<longleftrightarrow> drop_bit 14 a = drop_bit 14 b"
  "d_match (filled b l) a \<longleftrightarrow> drop_bit 14 a = drop_bit 14 b"
  "rd_valid (stored b l)" "rd_valid (filled b l)" "rd_dirty (stored b l)" "\<not> rd_dirty (filled b l)"
  "rd_data (stored b l) = l" "rd_data (filled b l) = l"
  by (auto simp: stored_def filled_def d_match_def d_tag_eq)

theorem store_hit_second_way_witness:
  "\<exists>c1. write_access boot_framework (one_set (filled 0x4100 (replicate 8 1)) (filled 0x100 (replicate 8 2)))
      0x100 7 8 False True = Inr (0, c1, boot_framework) \<and>
    dcache_lookup c1 0x100 = Some (replicate 8 2)"
proof -
  let ?c = "one_set (filled 0x4100 (replicate 8 1)) (filled 0x100 (replicate 8 2))"
  have rows: "dcache ?c" "d_row0 ?c 0x100 = filled 0x4100 (replicate 8 1)"
    "d_row1 ?c 0x100 = filled 0x100 (replicate 8 2)"
    by (simp_all add: one_set set_addresses)
  moreover from rows have "dcache_lookup ?c 0x100 = Some (replicate 8 2)"
    by (simp add: dcache_lookup_def)
  ultimately show ?thesis
    using store_hit_second_way [of ?c "0x100" 8 boot_framework 7 False True]
    by (auto simp: set_addresses)
qed

theorem store_hit_clean_line_lost_witness:
  "\<exists>c1 c2 f2 v2. write_access data_framework
      (one_set (filled 0x8100 (replicate 8 1)) (filled 0x4100 (replicate 8 2))) 0x8100 7 8 False True =
      Inr (0, c1, data_framework) \<and>
    read_access data_framework c1 0x100 8 (replicate 8 0) False True = Inr (0, v2, c2, f2) \<and>
    view f2 c2 0x8100 = riscv_mem data_framework 0x8100"
proof -
  let ?c = "one_set (filled 0x8100 (replicate 8 1)) (filled 0x4100 (replicate 8 2))"
  have dc: "dcache ?c" by (simp add: one_set)
  have rows: "d_row0 ?c x = filled 0x8100 (replicate 8 1)"
    "d_row1 ?c x = filled 0x4100 (replicate 8 2)" if "d_index x = 0x20" for x
    using that by (simp_all add: one_set)
  have "dcache_lookup ?c 0x100 = None"
    by (simp add: dcache_lookup_def rows set_addresses)
  moreover have "off 0x8100 = 0" by (simp add: off_def take_bit_eq_mod)
  ultimately show ?thesis
    using store_hit_clean_line_lost [of ?c "0x8100" 8 "0x100" data_framework "replicate 8 0" 7 False True]
      data_framework_ready dc
    by (auto simp: rows set_addresses)
qed

theorem dirty_eviction_reads_zero_witness:
  "\<exists>c1 f1. read_access data_framework
      (one_set (stored 0x8100 (replicate 8 1)) (stored 0x4100 (replicate 8 2))) 0x100 8 (replicate 8 9)
      False True = Inr (0, replicate 8 0, c1, f1)"
proof -
  let ?c = "one_set (stored 0x8100 (replicate 8 1)) (stored 0x4100 (replicate 8 2))"
  have rows: "dcache ?c" "d_row0 ?c 0x100 = stored 0x8100 (replicate 8 1)"
    "d_row1 ?c 0x100 = stored 0x4100 (replicate 8 2)"
    by (simp_all add: one_set set_addresses)
  have vic: "\<not> victim ?c 0x100" by (simp add: victim_def rows)
  have "index_length ?c = 11" "block_size ?c = 3" using rows(1) by (simp_all add: dcache_def)
  then have "old_address ?c (way_of 0x100 False) (stored 0x8100 (replicate 8 1)) = 0x8100"
    by (simp add: old_address_def stored_def way_of_def set_addresses)
  moreover have "proper data_framework 0x8100 8"
    by (simp add: proper_def in_block_def data_framework_def boot_framework_def)
  moreover have "dcache_lookup ?c 0x100 = None" by (simp add: dcache_lookup_def rows)
  ultimately show ?thesis
    using dirty_eviction_reads_zero [of ?c "0x100" 8 "replicate 8 9" data_framework]
      data_framework_ready rows vic
    by (auto simp: d_access_def set_addresses d_way_def)
qed

lemma partial_store_leaves_table_example:
  "write_access data_framework
     (one_set (stored 0x8100 (replicate 8 1)) (filled 0x4100 (replicate 8 2))) 0x100 7 4 False True =
   Inl OutOfBounds"
proof -
  let ?c = "one_set (stored 0x8100 (replicate 8 1)) (filled 0x4100 (replicate 8 2))"
  have rows: "dcache ?c" "d_row0 ?c 0x100 = stored 0x8100 (replicate 8 1)"
    "d_row1 ?c 0x100 = filled 0x4100 (replicate 8 2)"
    by (simp_all add: one_set set_addresses)
  moreover have "dcache_lookup ?c 0x100 = None" by (simp add: dcache_lookup_def rows)
  ultimately show ?thesis
    by (intro partial_store_leaves_table) simp_all
qed

section \<open>What every access keeps\<close>

lemma put_row_i_icache: "icache c \<Longrightarrow> length (ri_data r) = 16 \<Longrightarrow> icache (put_row_i c i r)"
  by (auto simp: icache_def put_row_i_def dest!: set_update_subset_insert [THEN subsetD])

lemma row_i_length: "icache c \<Longrightarrow> row_i c i = Inr r \<Longrightarrow> length (ri_data r) = 16"
  by (auto simp: icache_def row_i_def split: if_splits)

lemma row_d_length: "dcache c \<Longrightarrow> row_d c i = Inr r \<Longrightarrow> length (rd_data r) = 8"
  by (auto simp: dcache_def row_d_def split: if_splits)

lemma write_back_frame:
  "write_back f c i r fu = Inr (b, r1, g) \<Longrightarrow> port_frame f g \<and> rd_data r1 = rd_data r"
  by (auto simp: write_back_def dest: memory_write_port_frame memory_status_null_frame
      split: if_splits sum.splits)

lemma evict_read_icache:
  assumes ic: "icache c" and ev: "evict_read f c a i t fu = Inr (r, c1, g)"
  shows "icache c1 \<and> port_frame f g \<and> riscv_mem g = riscv_mem f"
proof -
  have ct: "cache_type c \<noteq> CACHE_DATA" using ic by (simp add: icache_def)
  from ev ct obtain r0 d v r2 where row: "row_i c i = Inr r0"
    and fill: "fill_line f a (ri_data r0) 16 fu False = Inr (d, v, g)"
    and c1: "c1 = put_row_i c i r2" "ri_data r2 = v"
    by (fastforce simp: evict_read_def split: sum.splits if_splits)
  then show ?thesis
    using fill_line_frame [OF fill] row_i_length [OF ic row] put_row_i_icache [OF ic] by simp
qed

lemma evict_read_dcache:
  assumes dc: "dcache c" and ev: "evict_read f c a i t fu = Inr (r, c1, g)"
  shows "dcache c1 \<and> port_frame f g"
proof -
  have ct: "cache_type c = CACHE_DATA" using dc by (simp add: dcache_def)
  from ev ct obtain j r0 b r1 f1 where row: "row_d c j = Inr r0"
    and wb: "write_back f c j r0 fu = Inr (b, r1, f1)"
    and rest: "b = None \<and> c1 = put_row_d c j r1 \<and> g = f1 \<or>
      (\<exists>ns d v. b = Some ns \<and> fill_line f1 a (rd_data r1) 8 fu ns = Inr (d, v, g) \<and>
        (\<exists>r2. c1 = put_row_d c j r2 \<and> rd_data r2 = v))"
    by (fastforce simp: evict_read_def split: sum.splits option.splits if_splits)
  have "length (rd_data r1) = 8" "port_frame f f1"
    using write_back_frame [OF wb] row_d_length [OF dc row] by simp_all
  with rest show ?thesis
    using dc by (auto dest!: fill_line_frame intro: put_row_d_dcache port_frame_trans)
qed

lemma put_value_length: "put_value v sz w = Inr v' \<Longrightarrow> length v' = length v"
  by (auto simp: put_value_def dest: buf_put_length split: if_splits)

lemma read_access_keeps:
  assumes "read_access f c a sz v fu av = Inr (st, v', c1, g)"
  shows "port_frame f g \<or> \<not> icache c \<and> \<not> dcache c" "length v' = length v"
    and "icache c \<Longrightarrow> icache c1 \<and> riscv_mem g = riscv_mem f" "dcache c \<Longrightarrow> dcache c1"
proof -
  have "(c1 = c \<and> g = f \<or> (\<exists>i t r. evict_read f c a i t fu = Inr (r, c1, g))) \<and> length v' = length v"
    using assms
    by (auto simp: read_access_def Let_def split: sum.splits option.splits if_splits)
      (simp_all add: put_value_length)
  then show "port_frame f g \<or> \<not> icache c \<and> \<not> dcache c" "length v' = length v"
    "icache c \<Longrightarrow> icache c1 \<and> riscv_mem g = riscv_mem f" "dcache c \<Longrightarrow> dcache c1"
    by (auto dest: evict_read_icache evict_read_dcache)
qed

lemma copy_into_line_length: "copy_into_line line k w sz = Inr line' \<Longrightarrow> length line' = length line"
  by (auto simp: copy_into_line_def dest: buf_splice_length split: if_splits)

lemma finish_write_dcache:
  assumes "dcache c" "finish_write f c i t w k sz = Inr (st, c1, g)"
  shows "dcache c1 \<and> g = f"
proof -
  from assms(2) obtain r line where "row_d c i = Inr r"
    "copy_into_line (rd_data r) k w sz = Inr line"
    "c1 = put_row_d c i \<lparr>rd_tag = ucast t, rd_data = line, rd_dirty = True, rd_valid = True\<rparr>" "g = f"
    by (auto simp: finish_write_def split: sum.splits)
  then show ?thesis
    using copy_into_line_length row_d_length [OF assms(1)] put_row_d_dcache [OF assms(1)] by simp
qed

lemma evict_write_dcache:
  assumes dc: "dcache c" and ew: "evict_write f c a i t w k sz fu av = Inr (st, c1, g)"
  shows "dcache c1 \<and> port_frame f g"
proof -
  have ct: "cache_type c = CACHE_DATA" using dc by (simp add: dcache_def)
  from ew ct obtain j where j: "select_way c i = Inr j"
    by (auto simp: evict_write_def split: sum.splits)
  show ?thesis
  proof (cases "sz = 8")
    case False
    with ew ct j consider "c1 = c" "g = f"
      | r c' f' where "evict_read f c a j t fu = Inr (r, c', f')"
          "c1 = c' \<and> g = f' \<or> (\<exists>q. finish_write f' c' q t w k sz = Inr (st, c1, g))"
      by (fastforce simp: evict_write_def split: sum.splits if_splits option.splits)
    then show ?thesis
      by cases (auto simp: dc dest!: evict_read_dcache [OF dc] dest: finish_write_dcache)
  next
    case True
    with ew ct j obtain r where row: "row_d c j = Inr r"
      by (auto simp: evict_write_def split: sum.splits)
    have dc': "dcache (put_row_d c j (r\<lparr>rd_dirty := False\<rparr>))"
      using dc row_d_length [OF dc row] by (intro put_row_d_dcache) simp_all
    from ew ct j True row consider "c1 = c" "g = f" | "finish_write f c j t w k sz = Inr (st, c1, g)"
      | "c1 = c" "port_frame f g"
      | f' where "port_frame f f'"
          "finish_write f' (put_row_d c j (r\<lparr>rd_dirty := False\<rparr>)) j t w k sz = Inr (st, c1, g)"
      by (fastforce simp: evict_write_def split: sum.splits if_splits
          dest: memory_write_port_frame memory_status_null_frame)
    then show ?thesis
      by cases (auto simp: dc dest: finish_write_dcache [OF dc] finish_write_dcache [OF dc'])
  qed
qed

lemma write_access_keeps:
  assumes dc: "dcache c" and wr: "write_access f c a w sz fu av = Inr (st, c1, g)"
  shows "dcache c1 \<and> port_frame f g"
proof -
  have ct: "cache_type c = CACHE_DATA" using dc by (simp add: dcache_def)
  from wr ct consider
      i r line where "row_d c i = Inr r" "length line = length (rd_data r)"
        "c1 = put_row_d c i (r\<lparr>rd_data := line\<rparr>)" "g = f"
    | i t k where "evict_write f c a i t w k sz fu av = Inr (st, c1, g)"
    by (fastforce simp: write_access_def Let_def dest: copy_into_line_length
        split: sum.splits if_splits)
  then show ?thesis
    by cases (auto simp: row_d_length [OF dc] intro: put_row_d_dcache [OF dc]
        dest: evict_write_dcache [OF dc])
qed

end
