(* ===== verification/Pipeline.thy ===== *)
theory Pipeline
  imports Register_File Branch_Predictor Handler_Correctness TLB Cache
begin

text \<open>
  The five pipeline stages of \<open>src/src/riscv_virtualizer.c\<close> over the caches, the TLBs, the branch
  predictor and the framework. The record \<open>machine\<close> holds the global variables of the program:
  those of the framework, the two caches and TLBs, the branch table, the initialisation flag and
  the four current pipeline registers. A stage takes the old contents of the register it fills
  (the caller's local variable, which keeps its value from one cycle to the next) and returns the
  new contents.
\<close>

section \<open>State\<close>

record machine =
  fw :: framework
  has_initialised :: bool
  instruction_cache :: cache_table
  data_cache :: cache_table
  itlb :: tlb
  dtlb :: tlb
  btable :: branch_table
  cur_d_reg :: stage_reg_d
  cur_x_reg :: stage_reg_x
  cur_m_reg :: stage_reg_m
  cur_w_reg :: stage_reg_w
  printed :: "(u64 \<times> u32) list"

text \<open>A cache variable before \<open>initialise\<close>: all bytes zero, no rows.\<close>

definition zero_cache :: cache_table where
  "zero_cache = \<lparr>num_blocks = 0, index_length = 0, cache_type = 0, block_size = 0,
     rows_i = [], rows_d = []\<rparr>"

definition initialise :: "machine \<Rightarrow> machine result" where
  "initialise s =
     (if has_initialised s then Inr s
      else (case construct_cache (fw s) 512 CACHE_INSTRUCTION of
              Inl e \<Rightarrow> Inl e
            | Inr ic \<Rightarrow>
                (case construct_cache (fw s) 2048 CACHE_DATA of
                   Inl e \<Rightarrow> Inl e
                 | Inr dc \<Rightarrow>
                     Inr (s\<lparr>has_initialised := True, instruction_cache := ic, data_cache := dc\<rparr>))))"

section \<open>Register forwarding\<close>

definition forwarded_register_read_single :: "machine \<Rightarrow> u64 \<Rightarrow> u64 \<Rightarrow> u8 \<times> u64" where
  "forwarded_register_read_single s r v =
     (if scast (x_rd (cur_x_reg s)) = r then (2, v)
      else if m_readWrite (cur_m_reg s) = 3 \<and> m_reg (cur_m_reg s) = r then (1, m_value (cur_m_reg s))
      else if w_reg (cur_w_reg s) = r then (1, w_value (cur_w_reg s))
      else (0, v))"

text \<open>Returns whether to stall, and the two values.\<close>

definition forwarded_register_read :: "machine \<Rightarrow> u64 \<Rightarrow> u64 \<Rightarrow> u64 \<Rightarrow> u64 \<Rightarrow> bool \<times> u64 \<times> u64" where
  "forwarded_register_read s register_a register_b value_a value_b =
     (let (aForwarded, value_a) = forwarded_register_read_single s register_a value_a;
          (bForwarded, value_b) = forwarded_register_read_single s register_b value_b
      in if aForwarded = 2 \<or> bForwarded = 2 then (True, value_a, value_b)
         else if aForwarded \<noteq> 0 \<and> bForwarded \<noteq> 0 then (False, value_a, value_b)
         else if aForwarded \<noteq> 0
         then (False, value_a, snd (register_read (fw s) register_b register_b))
         else if bForwarded \<noteq> 0
         then (False, snd (register_read (fw s) register_a register_a), value_b)
         else (False, register_read (fw s) register_a register_b))"

section \<open>Fetch\<close>

definition stage_fetch :: "machine \<Rightarrow> stage_reg_d \<Rightarrow> (stage_reg_d \<times> machine) result" where
  "stage_fetch s0 new_d_reg =
     (case initialise s0 of
        Inl e \<Rightarrow> Inl e
      | Inr s \<Rightarrow>
     (let pc = get_pc (fw s); d = cur_d_reg s in
     (case get_address (fw s) (itlb s) (ucast pc) 0
             (if d_will_be_stalled d = 2 then d_tlb_stall_status d else 0xFF) of
        Inl e \<Rightarrow> Inl e
      | Inr (status, physical_pc, t, f) \<Rightarrow>
          let s1 = s\<lparr>itlb := t, fw := f\<rparr> in
          if status \<noteq> 0xFE \<and> status \<noteq> 0xFF
          then Inr (new_d_reg\<lparr>d_will_be_stalled := 2, d_tlb_stall_status := status\<rparr>, s1)
          else
     (case read_access f (instruction_cache s1) (ucast physical_pc) 4
             (le_bytes 4 (d_instruction new_d_reg)) (d_will_be_stalled d = 1) (status = 0xFE) of
        Inl e \<Rightarrow> Inl e
      | Inr (read_status, v, ic, f1) \<Rightarrow>
          let s2 = s1\<lparr>instruction_cache := ic, fw := f1\<rparr> in
          if read_status \<noteq> 0
          then Inr (zero_d\<lparr>d_tlb_stall_status := 0xFF,
                      d_will_be_stalled := (if read_status = 2 then 3 else 1)\<rparr>, s2)
          else let new_pc = predict_address (btable s2) pc in
               Inr (new_d_reg\<lparr>d_instruction := le_word v, d_pc := pc, d_new_pc := new_pc,
                       d_not_stalled := 1, d_will_be_stalled := 0\<rparr>,
                    s2\<lparr>fw := set_pc f1 new_pc\<rparr>)))))"

section \<open>Decode\<close>

definition decoding_type :: "7 word \<Rightarrow> u8" where
  "decoding_type opcode =
     (if opcode = 0b0010111 \<or> opcode = 0b0110111 \<or> opcode = 0b1101111 then 1
      else if opcode = 0b0100011 \<or> opcode = 0b1100011 then 2
      else if opcode = 0b0110011 \<or> opcode = 0b0111011 then 3
      else 0)"

text \<open>The \<open>int16_t\<close> register numbers \<open>rs1\<close>, \<open>rs2\<close> and \<open>rd\<close>, -1 when there is none.\<close>

definition operand_registers :: "riscv_instruction \<Rightarrow> u16 \<times> u16 \<times> u16" where
  "operand_registers w =
     (let t = decoding_type (i_opcode (data_i w)) in
      if t = 0 then (ucast (i_rs1 (data_i w)), - 1, ucast (i_rd (data_i w)))
      else if t = 1 then (- 1, - 1, ucast (u_rd (data_u w)))
      else if t = 2 then (ucast (s_rs1 (data_s w)), ucast (s_rs2 (data_s w)), - 1)
      else if t = 3
      then (ucast (r_rs1 (data_r w)), ucast (r_rs2 (data_r w)), ucast (r_rd (data_r w)))
      else (- 1, - 1, - 1))"

text \<open>What both stall exits of \<open>stage_decode\<close> leave in the new register.\<close>

definition decode_stalled :: "stage_reg_x \<Rightarrow> stage_reg_x" where
  "decode_stalled x = x\<lparr>x_rs2_value := - 1, x_rs1_value := - 1, x_rs1 := - 1, x_rs2 := - 1,
     x_rd := - 1, x_not_stalled := 0\<rparr>"

definition stage_decode :: "machine \<Rightarrow> stage_reg_x \<Rightarrow> (stage_reg_x \<times> machine) result" where
  "stage_decode s0 new_x_reg =
     (if d_not_stalled (cur_d_reg s0) = 0 \<or> w_global_memory_stall (cur_w_reg s0) \<noteq> 0
      then Inr (new_x_reg\<lparr>x_not_stalled := 0\<rparr>, s0)
      else
     (case initialise s0 of
        Inl e \<Rightarrow> Inl e
      | Inr s \<Rightarrow>
          let d = cur_d_reg s; m = cur_m_reg s; w = d_instruction d;
              x1 = new_x_reg\<lparr>x_pc := d_pc d, x_new_pc := d_new_pc d, x_instruction := w,
                             x_not_stalled := 1\<rparr>;
              (rs1, rs2, rd) = operand_registers w;
              s_stall = s\<lparr>fw := set_pc (fw s) (d_pc d)\<rparr>
          in if m_readWrite m = 2 \<and>
                (m_reg m = scast rs1 \<or> m_reg m = scast rs2 \<or> m_reg m = scast rd)
             then Inr (decode_stalled x1, s_stall)
             else
               let x2 = x1\<lparr>x_rs1 := rs1, x_rs2 := rs2, x_rd := rd\<rparr> in
               if rs1 = - 1 \<and> rs2 = - 1
               then Inr (x2\<lparr>x_rs2_value := - 1, x_rs1_value := - 1\<rparr>, s)
               else if rs1 \<noteq> - 1 \<and> rs2 = - 1
               then let (stall, va, vb) = forwarded_register_read s (ucast (r_rs1 (data_r w))) 0
                                            (x_rs1_value x2) (x_rs2_value x2);
                        x3 = x2\<lparr>x_rs1_value := va, x_rs2_value := - 1\<rparr>
                    in if stall then Inr (decode_stalled x3, s_stall) else Inr (x3, s)
               else let (stall, va, vb) = forwarded_register_read s (ucast (r_rs1 (data_r w)))
                                            (ucast (r_rs2 (data_r w)))
                                            (x_rs1_value x2) (x_rs2_value x2);
                        x3 = x2\<lparr>x_rs1_value := va, x_rs2_value := vb\<rparr>
                    in if stall then Inr (decode_stalled x3, s_stall) else Inr (x3, s)))"

section \<open>Execute\<close>

text \<open>After the handler: a misprediction redirects the fetch, a jump updates the predictor.\<close>

definition finish_execute :: "machine \<Rightarrow> stage_reg_x \<Rightarrow> exec_ctx \<Rightarrow> stage_reg_m \<times> machine" where
  "finish_execute s x c =
     (let pc = ctx_pc c;
          s1 = s\<lparr>printed := ctx_out c\<rparr>;
          s2 = (if pc \<noteq> x_new_pc x then s1\<lparr>fw := set_pc (fw s1) pc\<rparr> else s1);
          m2 = (if pc \<noteq> x_new_pc x then (ctx_m c)\<lparr>m_tainted_executions := 1\<rparr> else ctx_m c);
          s3 = (if pc \<noteq> x_pc x + 4
                then s2\<lparr>btable := update_entry (btable s2) (x_pc x) pc (pc = x_pc x + 4)\<rparr> else s2)
      in (m2, s3))"

definition stage_execute :: "machine \<Rightarrow> stage_reg_m \<Rightarrow> (stage_reg_m \<times> machine) result" where
  "stage_execute s0 new_m_reg =
     (if w_global_memory_stall (cur_w_reg s0) \<noteq> 0
      then let m = (w_memory_register (cur_w_reg s0))\<lparr>m_tainted_executions := 1\<rparr>
           in Inr (m, s0\<lparr>fw := set_pc (fw s0) (m_pc m)\<rparr>)
      else
        let x = cur_x_reg s0;
            m1 = new_m_reg\<lparr>m_wasStalled := 0, m_tainted_executions := 0, m_readWrite := 0,
                           m_pc := x_pc x\<rparr>
        in if x_not_stalled x = 0 then Inr (m1, s0)
           else if m_tainted_executions (cur_m_reg s0) > 0
           then Inr (m1\<lparr>m_tainted_executions := m_tainted_executions (cur_m_reg s0) - 1\<rparr>, s0)
           else
     (case initialise s0 of
        Inl e \<Rightarrow> Inl e
      | Inr s \<Rightarrow>
          if x_instruction x = 0 then Inr (m1, s)
          else
     (case major_dispatch_table (u_opcode (data_u (x_instruction x))) x (x_instruction x)
             \<lparr>ctx_pc = x_pc x + 4, ctx_m = m1, ctx_out = printed s\<rparr> of
        Inl e \<Rightarrow> Inl e
      | Inr c \<Rightarrow> Inr (finish_execute s x c))))"

section \<open>Memory\<close>

text \<open>
  \<open>0b1 << (size * 8 - 1)\<close> is an \<open>int\<close>: the shift count must lie in 0..31, and the conversion to
  \<open>uint64_t\<close> extends its sign.
\<close>

definition sign_test_mask :: "u8 \<Rightarrow> u64 result" where
  "sign_test_mask sz =
     (let n = 8 * unat sz in
      if n = 0 \<or> n > 32 then Inl ShiftOutOfRange
      else Inr (scast (push_bit (n - 1) 1 :: u32)))"

definition fill_upper :: "u64 \<Rightarrow> u8 \<Rightarrow> u64" where
  "fill_upper v sz = foldl (\<lambda>v i. v OR push_bit (8 * i) 0xFF) v [unat sz..<8]"

definition extend_loaded :: "stage_reg_m \<Rightarrow> u64 \<Rightarrow> u64 result" where
  "extend_loaded m v =
     (if m_signExtend m = 0 then Inr v
      else (case sign_test_mask (m_size m) of
              Inl e \<Rightarrow> Inl e
            | Inr sign \<Rightarrow> Inr (if v AND sign \<noteq> 0 then fill_upper v (m_size m) else v)))"

text \<open>The stall exits: what both the TLB and the cache stall write to the new register.\<close>

definition memory_stalled :: "stage_reg_w \<Rightarrow> stage_reg_m \<Rightarrow> u8 \<Rightarrow> u8 \<Rightarrow> u8 \<Rightarrow> u8 \<Rightarrow> stage_reg_w" where
  "memory_stalled w m stall was_stalled stall_status tainted =
     w\<lparr>w_global_memory_stall := stall, w_value := 0, w_reg := 0, w_op := 0,
       w_tainted_executions := tainted,
       w_memory_register := m\<lparr>m_wasStalled := was_stalled, m_stallStatus := stall_status\<rparr>\<rparr>"

definition memory_nop :: "stage_reg_w \<Rightarrow> stage_reg_w" where
  "memory_nop w = w\<lparr>w_value := 0, w_reg := 0, w_op := 0, w_global_memory_stall := 0\<rparr>"

text \<open>The load and the store, once the address is translated.\<close>

definition memory_load_access :: "machine \<Rightarrow> stage_reg_w \<Rightarrow> u32 \<Rightarrow> bool \<Rightarrow>
    (stage_reg_w \<times> machine) result" where
  "memory_load_access s new_w physical_address memory_read_available =
     (let m = cur_m_reg s in
     (case read_access (fw s) (data_cache s) (ucast physical_address) (ucast (m_size m))
             (le_bytes 8 (w_value new_w)) (m_wasStalled m = 1) memory_read_available of
        Inl e \<Rightarrow> Inl e
      | Inr (missed, v, dc, f) \<Rightarrow>
          let s1 = s\<lparr>data_cache := dc, fw := f\<rparr> in
          if missed \<noteq> 0
          then Inr (memory_stalled new_w m (if missed = 2 then 4 else 1)
                      (if missed = 2 then 2 else 1) 0xFF 1, s1)
          else
     (case extend_loaded m (le_word v) of
        Inl e \<Rightarrow> Inl e
      | Inr value \<Rightarrow>
          Inr (new_w\<lparr>w_value := value, w_reg := m_reg m, w_op := 1, w_global_memory_stall := 0\<rparr>, s1))))"

definition memory_store_access :: "machine \<Rightarrow> stage_reg_w \<Rightarrow> u32 \<Rightarrow> bool \<Rightarrow>
    (stage_reg_w \<times> machine) result" where
  "memory_store_access s new_w physical_address memory_read_available =
     (let m = cur_m_reg s in
     (case write_access (fw s) (data_cache s) (ucast physical_address) (m_value m) (m_size m)
             (m_wasStalled m = 1) memory_read_available of
        Inl e \<Rightarrow> Inl e
      | Inr (missed, dc, f) \<Rightarrow>
          let s1 = s\<lparr>data_cache := dc, fw := f\<rparr> in
          if missed \<noteq> 0
          then Inr (memory_stalled new_w m (if missed = 2 then 5 else 1)
                      (if missed = 2 then 2 else 1) 0xFF 0, s1)
          else Inr (memory_nop new_w, s1)))"

definition stage_memory :: "machine \<Rightarrow> stage_reg_w \<Rightarrow> (stage_reg_w \<times> machine) result" where
  "stage_memory s0 new_w_reg =
     (case initialise s0 of
        Inl e \<Rightarrow> Inl e
      | Inr s \<Rightarrow>
          let m = cur_m_reg s; w = cur_w_reg s in
          if w_tainted_executions w > 0
          then Inr ((memory_nop new_w_reg)
                      \<lparr>w_tainted_executions := w_tainted_executions w - 1\<rparr>, s)
          else
            let new_w = new_w_reg\<lparr>w_tainted_executions := 0\<rparr> in
            if m_readWrite m = 3
            then Inr (new_w\<lparr>w_reg := m_reg m, w_value := m_value m, w_op := 1,
                         w_global_memory_stall := 0\<rparr>, s)
            else if m_readWrite m = 2 \<or> m_readWrite m = 1
            then
     (case get_address (fw s) (dtlb s) (ucast (m_address m)) 0
             (if m_wasStalled m \<noteq> 0 then m_stallStatus m else 0xFF) of
        Inl e \<Rightarrow> Inl e
      | Inr (status, physical_address, t, f) \<Rightarrow>
          let s1 = s\<lparr>dtlb := t, fw := f\<rparr> in
          if status \<noteq> 0xFE \<and> status \<noteq> 0xFF
          then Inr ((memory_stalled new_w m (if m_readWrite m = 2 then 2 else 3) 1 status 1)
                      \<lparr>w_tlb_stall_status := status\<rparr>, s1)
          else if m_readWrite m = 2
          then memory_load_access s1 new_w physical_address (status = 0xFE)
          else memory_store_access s1 new_w physical_address (status = 0xFE))
            else Inr (memory_nop new_w, s))"

section \<open>Write-back\<close>

definition stage_writeback :: "machine \<Rightarrow> machine result" where
  "stage_writeback s0 =
     (if w_op (cur_w_reg s0) = 0 then Inr s0
      else (case initialise s0 of
              Inl e \<Rightarrow> Inl e
            | Inr s \<Rightarrow>
                Inr (s\<lparr>fw := register_write (fw s) (w_reg (cur_w_reg s)) (w_value (cur_w_reg s))\<rparr>)))"

section \<open>The machine invariant\<close>

text \<open>
  The shape every component needs, and what the pipeline registers can hold. An idle write-back
  register is zero (the forwarding logic compares its register number without looking at \<open>op\<close>);
  its stall flag is set only together with the load or store that waits, and the flush mark only
  together with the stall flag.
\<close>

definition quiet_w :: "stage_reg_w \<Rightarrow> bool" where
  "quiet_w w \<longleftrightarrow> (w_op w = 0 \<longrightarrow> w_reg w = 0 \<and> w_value w = 0)"

definition wf_w :: "stage_reg_w \<Rightarrow> bool" where
  "wf_w w \<longleftrightarrow>
     quiet_w w \<and> w_reg w < 32 \<and>
     (w_global_memory_stall w \<noteq> 0 \<longrightarrow>
       wf_m (w_memory_register w) \<and> m_readWrite (w_memory_register w) \<in> {1, 2}) \<and>
     (w_tainted_executions w \<noteq> 0 \<longrightarrow> w_tainted_executions w = 1 \<and> w_global_memory_stall w \<noteq> 0)"

definition machine_inv :: "machine \<Rightarrow> bool" where
  "machine_inv s \<longleftrightarrow>
     wf_framework (fw s) \<and> tlb_inv (itlb s) \<and> tlb_inv (dtlb s) \<and> wf_branch_table (btable s) \<and>
     wf_m (cur_m_reg s) \<and> wf_w (cur_w_reg s) \<and>
     (has_initialised s \<longrightarrow> icache (instruction_cache s) \<and> dcache (data_cache s))"

text \<open>
  Stages do not touch the current pipeline registers, nor the settings and the cycle counter of
  the framework; memory and write-back leave the program counter and the branch table alone too
  (\<open>same_front\<close>).
\<close>

definition settings :: "framework \<Rightarrow> u64 \<times> u64 \<times> u64 \<times> u64 \<times> u64" where
  "settings f = (riscv_mem_size f, ptbr f, memory_read_latency f, memory_write_latency f, cycle_counter f)"

definition same_front :: "machine \<Rightarrow> machine \<Rightarrow> bool" where
  "same_front s t \<longleftrightarrow> program_counter (fw t) = program_counter (fw s) \<and> btable t = btable s"

definition same_regs :: "machine \<Rightarrow> machine \<Rightarrow> bool" where
  "same_regs s t \<longleftrightarrow> cur_d_reg t = cur_d_reg s \<and> cur_x_reg t = cur_x_reg s \<and>
     cur_m_reg t = cur_m_reg s \<and> cur_w_reg t = cur_w_reg s \<and> settings (fw t) = settings (fw s)"

lemma settings_simps [simp]:
  "settings (set_pc f pc) = settings f" "settings (register_write f r v) = settings f"
  "register_file (set_pc f pc) = register_file f" "settings (f\<lparr>current_stage := st\<rparr>) = settings f"
  "settings (register_reset_cycle f) = settings f"
  "program_counter (set_pc f pc) = pc" "program_counter (register_write f r v) = program_counter f"
  by (simp_all add: settings_def set_pc_def register_write_def register_reset_cycle_def)

lemma port_frame_settings:
  "port_frame f g \<Longrightarrow> settings g = settings f \<and> register_file g = register_file f \<and>
     program_counter g = program_counter f"
  by (simp add: port_frame_def settings_def)

lemma initialise_keeps:
  assumes "initialise s = Inr t"
  shows "same_regs s t" "fw t = fw s" "itlb t = itlb s" "dtlb t = dtlb s" "btable t = btable s"
    "printed t = printed s" "has_initialised t" "machine_inv s \<Longrightarrow> machine_inv t"
  using assms
  by (auto simp: initialise_def same_regs_def machine_inv_def
      dest: construct_icache construct_dcache split: if_splits sum.splits)

lemma machine_inv_caches:
  "machine_inv s \<Longrightarrow> has_initialised s \<Longrightarrow> icache (instruction_cache s) \<and> dcache (data_cache s)"
  by (simp add: machine_inv_def)

lemma wf_set_pc [simp]: "wf_framework (set_pc f pc) = wf_framework f"
  by (simp add: wf_framework_def set_pc_def)

lemma wf_register_write [simp]: "wf_framework (register_write f r v) = wf_framework f"
  by (simp add: wf_framework_def register_write_def)

lemma writeback_inv:
  assumes "stage_writeback s = Inr t" "machine_inv s"
  shows "machine_inv t \<and> same_regs s t \<and> same_front s t \<and>
    fw t = (if w_op (cur_w_reg s) = 0 then fw s
            else register_write (fw s) (w_reg (cur_w_reg s)) (w_value (cur_w_reg s)))"
proof (cases "w_op (cur_w_reg s) = 0")
  case True
  with assms show ?thesis by (simp add: stage_writeback_def same_regs_def same_front_def)
next
  case False
  with assms(1) obtain u where u: "initialise s = Inr u"
    "t = u\<lparr>fw := register_write (fw u) (w_reg (cur_w_reg u)) (w_value (cur_w_reg u))\<rparr>"
    by (auto simp: stage_writeback_def split: sum.splits)
  with initialise_keeps [OF u(1)] False assms(2) show ?thesis
    by (auto simp: machine_inv_def same_regs_def same_front_def)
qed

lemma decode_inv:
  assumes "stage_decode s x = Inr (x', t)" "machine_inv s"
  shows "machine_inv t \<and> same_regs s t \<and> register_file (fw t) = register_file (fw s)"
proof (cases "d_not_stalled (cur_d_reg s) = 0 \<or> w_global_memory_stall (cur_w_reg s) \<noteq> 0")
  case True
  with assms show ?thesis by (auto simp: stage_decode_def same_regs_def)
next
  case False
  with assms(1) obtain u where u: "initialise s = Inr u"
    by (auto simp: stage_decode_def split: sum.splits)
  have "t = u \<or> (\<exists>pc. t = u\<lparr>fw := set_pc (fw u) pc\<rparr>)"
    using False assms(1) u
    by (auto simp: stage_decode_def Let_def split_beta split: if_splits)
  then show ?thesis
    using initialise_keeps [OF u(1)] assms(2) by (auto simp: machine_inv_def same_regs_def)
qed

lemma fetch_inv:
  assumes "stage_fetch s d = Inr (d', t)" "machine_inv s"
  shows "machine_inv t \<and> same_regs s t \<and> register_file (fw t) = register_file (fw s)"
proof -
  from assms(1) obtain u where u: "initialise s = Inr u"
    by (auto simp: stage_fetch_def split: sum.splits)
  note k = initialise_keeps [OF u]
  have inv: "machine_inv u" using k(8) assms(2) .
  from assms(1) u obtain st pa tb f where ga: "get_address (fw u) (itlb u) (ucast (get_pc (fw u))) 0
      (if d_will_be_stalled (cur_d_reg u) = 2 then d_tlb_stall_status (cur_d_reg u) else 0xFF) =
      Inr (st, pa, tb, f)"
    by (auto simp: stage_fetch_def Let_def split: sum.splits)
  have ga': "tlb_inv tb \<and> port_frame (fw u) f"
    using get_address_frame [OF ga] inv by (simp add: machine_inv_def)
  then have wf: "wf_framework f" "settings f = settings (fw u)" "register_file f = register_file (fw u)"
    using inv port_frame_wf port_frame_settings by (auto simp: machine_inv_def)
  show ?thesis
  proof (cases "st \<noteq> 0xFE \<and> st \<noteq> 0xFF")
    case True
    with assms(1) u ga have "t = u\<lparr>itlb := tb, fw := f\<rparr>"
      by (simp add: stage_fetch_def Let_def)
    with ga' wf inv k(1,2) show ?thesis by (auto simp: machine_inv_def same_regs_def)
  next
    case False
    with assms(1) u ga obtain rs v ic f1 where ra: "read_access f (instruction_cache u) (ucast pa) 4
        (le_bytes 4 (d_instruction d)) (d_will_be_stalled (cur_d_reg u) = 1) (st = 0xFE) =
        Inr (rs, v, ic, f1)"
      and t: "t = u\<lparr>itlb := tb, instruction_cache := ic, fw := f1\<rparr> \<or>
        t = u\<lparr>itlb := tb, instruction_cache := ic,
               fw := set_pc f1 (predict_address (btable u) (get_pc (fw u)))\<rparr>"
      by (auto simp: stage_fetch_def Let_def split: sum.splits if_splits)
    have "icache (instruction_cache u)" using machine_inv_caches [OF inv k(7)] by simp
    then have "icache ic" "port_frame f f1" using read_access_keeps [OF ra] by auto
    with t ga' wf inv k(1,2) port_frame_wf [of f f1] port_frame_settings [of f f1] show ?thesis
      by (auto simp: machine_inv_def same_regs_def)
  qed
qed

lemma wf_m_marks [simp]:
  "wf_m (m\<lparr>m_tainted_executions := a\<rparr>) = wf_m m" "wf_m (m\<lparr>m_wasStalled := b\<rparr>) = wf_m m"
  "wf_m (m\<lparr>m_stallStatus := c\<rparr>) = wf_m m" "wf_m (m\<lparr>m_pc := p\<rparr>) = wf_m m"
  "wf_m (m\<lparr>m_readWrite := 0\<rparr>)"
  by (simp_all add: wf_m_def)

lemma finish_execute_inv:
  assumes "finish_execute s x c = (m', t)" "machine_inv s" "wf_m (ctx_m c)"
  shows "machine_inv t \<and> same_regs s t \<and> register_file (fw t) = register_file (fw s) \<and> wf_m m'"
  using assms
  by (auto simp: finish_execute_def Let_def machine_inv_def same_regs_def wf_update_entry)

lemma execute_inv:
  assumes "stage_execute s m = Inr (m', t)" "machine_inv s"
  shows "machine_inv t \<and> same_regs s t \<and> register_file (fw t) = register_file (fw s) \<and> wf_m m'"
proof (cases "w_global_memory_stall (cur_w_reg s) = 0 \<and> x_not_stalled (cur_x_reg s) \<noteq> 0 \<and>
    \<not> m_tainted_executions (cur_m_reg s) > 0")
  case False
  with assms show ?thesis
    by (auto simp: stage_execute_def Let_def machine_inv_def same_regs_def wf_w_def split: if_splits)
next
  case True
  let ?x = "cur_x_reg s"
  let ?m1 = "m\<lparr>m_wasStalled := 0, m_tainted_executions := 0, m_readWrite := 0, m_pc := x_pc ?x\<rparr>"
  from True assms(1) obtain u where u: "initialise s = Inr u"
    by (auto simp: stage_execute_def Let_def split: sum.splits)
  note k = initialise_keeps [OF u]
  consider "t = u" "m' = ?m1" | c where "major_dispatch_table (u_opcode (data_u (x_instruction ?x))) ?x
      (x_instruction ?x) \<lparr>ctx_pc = x_pc ?x + 4, ctx_m = ?m1, ctx_out = printed u\<rparr> = Inr c"
      "finish_execute u ?x c = (m', t)"
    using True assms(1) u by (auto simp: stage_execute_def Let_def split: if_splits sum.splits)
  then have "machine_inv t \<and> same_regs u t \<and> register_file (fw t) = register_file (fw u) \<and> wf_m m'"
  proof cases
    case 2
    from dispatch_wf_m [OF 2(1)] show ?thesis
      by (intro finish_execute_inv [OF 2(2) k(8) [OF assms(2)]]) simp
  qed (simp add: k(8) [OF assms(2)] same_regs_def)
  with k(1,2) show ?thesis by (simp add: same_regs_def)
qed

text \<open>What each exit of the memory stage leaves in the write-back register.\<close>

lemma wf_zero [simp]: "wf_m zero_m" "wf_w zero_w"
  by (simp_all add: wf_m_def wf_w_def quiet_w_def zero_m_def zero_w_def)

lemma wf_w_exits:
  "wf_w ((memory_nop w)\<lparr>w_tainted_executions := 0\<rparr>)"
  "wf_w (memory_nop (w\<lparr>w_tainted_executions := 0\<rparr>))"
  "r < 32 \<Longrightarrow> wf_w (w\<lparr>w_tainted_executions := 0, w_reg := r, w_value := v, w_op := 1,
     w_global_memory_stall := 0\<rparr>)"
  "wf_m m \<Longrightarrow> m_readWrite m \<in> {1, 2} \<Longrightarrow> g \<noteq> 0 \<Longrightarrow> t \<in> {0, 1} \<Longrightarrow>
    wf_w (memory_stalled w m g a b t)"
  "wf_w (w\<lparr>w_tlb_stall_status := q\<rparr>) = wf_w w"
  by (auto simp: wf_w_def quiet_w_def memory_stalled_def memory_nop_def)

lemma memory_load_access_inv:
  assumes "memory_load_access s w pa av = Inr (w', t)" "machine_inv s" "has_initialised s"
    and "m_readWrite (cur_m_reg s) = 2" "w_tainted_executions w = 0"
  shows "machine_inv t \<and> same_regs s t \<and> register_file (fw t) = register_file (fw s) \<and> wf_w w' \<and>
    same_front s t"
proof -
  let ?m = "cur_m_reg s"
  have m: "wf_m ?m" "m_reg ?m < 32" using assms(2,4) by (simp_all add: machine_inv_def wf_m_def)
  from assms(1) obtain ms v dc f where ra: "read_access (fw s) (data_cache s) (ucast pa)
      (ucast (m_size ?m)) (le_bytes 8 (w_value w)) (m_wasStalled ?m = 1) av = Inr (ms, v, dc, f)"
    and t: "t = s\<lparr>data_cache := dc, fw := f\<rparr>" "wf_w w'"
    using m assms(4,5)
    by (auto simp: memory_load_access_def Let_def wf_w_def quiet_w_def memory_stalled_def
        split: sum.splits if_splits)
  have "dcache (data_cache s)" using machine_inv_caches [OF assms(2,3)] by simp
  then have "dcache dc" "port_frame (fw s) f" using read_access_keeps [OF ra] by auto
  with t assms(2) port_frame_wf [of "fw s" f] port_frame_settings [of "fw s" f] show ?thesis
    by (auto simp: machine_inv_def same_regs_def same_front_def)
qed

lemma memory_store_access_inv:
  assumes "memory_store_access s w pa av = Inr (w', t)" "machine_inv s" "has_initialised s"
    and "m_readWrite (cur_m_reg s) = 1" "w_tainted_executions w = 0"
  shows "machine_inv t \<and> same_regs s t \<and> register_file (fw t) = register_file (fw s) \<and> wf_w w' \<and>
    same_front s t"
proof -
  let ?m = "cur_m_reg s"
  have m: "wf_m ?m" using assms(2) by (simp add: machine_inv_def)
  from assms(1) obtain ms dc f where wa: "write_access (fw s) (data_cache s) (ucast pa)
      (m_value ?m) (m_size ?m) (m_wasStalled ?m = 1) av = Inr (ms, dc, f)"
    and t: "t = s\<lparr>data_cache := dc, fw := f\<rparr>" "wf_w w'"
    using m assms(4,5)
    by (auto simp: memory_store_access_def Let_def wf_w_def quiet_w_def memory_stalled_def
        memory_nop_def split: sum.splits if_splits)
  have "dcache (data_cache s)" using machine_inv_caches [OF assms(2,3)] by simp
  then have "dcache dc \<and> port_frame (fw s) f" by (rule write_access_keeps [OF _ wa])
  with t assms(2) port_frame_wf [of "fw s" f] port_frame_settings [of "fw s" f] show ?thesis
    by (auto simp: machine_inv_def same_regs_def same_front_def)
qed

lemma translated_inv:
  assumes "get_address (fw s) (dtlb s) va out st0 = Inr (st, pa, tb, f)" "machine_inv s"
  shows "machine_inv (s\<lparr>dtlb := tb, fw := f\<rparr>) \<and> same_regs s (s\<lparr>dtlb := tb, fw := f\<rparr>) \<and>
    register_file f = register_file (fw s) \<and> same_front s (s\<lparr>dtlb := tb, fw := f\<rparr>)"
  using get_address_frame [OF assms(1)] assms(2) port_frame_wf [of "fw s" f]
    port_frame_settings [of "fw s" f]
  by (auto simp: machine_inv_def same_regs_def same_front_def)

lemma memory_inv:
  assumes "stage_memory s w = Inr (w', t)" "machine_inv s"
  shows "machine_inv t \<and> same_regs s t \<and> register_file (fw t) = register_file (fw s) \<and> wf_w w' \<and>
    same_front s t"
proof -
  from assms(1) obtain u where u: "initialise s = Inr u"
    by (auto simp: stage_memory_def split: sum.splits)
  note k = initialise_keeps [OF u]
  have inv: "machine_inv u" using k(8) assms(2) .
  let ?m = "cur_m_reg u" and ?new_w = "w\<lparr>w_tainted_executions := 0\<rparr>"
  have m: "wf_m ?m" "wf_w (cur_w_reg u)" using inv by (simp_all add: machine_inv_def)
  show ?thesis
  proof (cases "\<not> w_tainted_executions (cur_w_reg u) > 0 \<and> (m_readWrite ?m = 2 \<or> m_readWrite ?m = 1)")
    case False
    have "w_tainted_executions (cur_w_reg u) \<in> {0, 1}" "m_readWrite ?m = 3 \<longrightarrow> m_reg ?m < 32"
      using m unfolding wf_w_def wf_m_def by blast+
    with False assms(1) u have "t = u \<and> wf_w w'"
      by (cases "w_tainted_executions (cur_w_reg u) = 0"; cases "m_readWrite ?m = 3")
        (auto simp: stage_memory_def Let_def wf_w_exits)
    with inv k(1,2,5) show ?thesis by (auto simp: same_front_def)
  next
    case True
    with assms(1) u obtain st pa tb f where ga: "get_address (fw u) (dtlb u) (ucast (m_address ?m)) 0
        (if m_wasStalled ?m \<noteq> 0 then m_stallStatus ?m else 0xFF) = Inr (st, pa, tb, f)"
      by (auto simp: stage_memory_def Let_def split: sum.splits)
    let ?s1 = "u\<lparr>dtlb := tb, fw := f\<rparr>"
    have s1: "machine_inv ?s1" "same_regs s ?s1" "has_initialised ?s1"
      "register_file (fw ?s1) = register_file (fw s)" "same_front s ?s1"
      using translated_inv [OF ga inv] k(1,2,5,7) by (auto simp: same_regs_def same_front_def)
    have stalled: "wf_w ((memory_stalled w0 ?m g 1 st 1)\<lparr>w_tlb_stall_status := st\<rparr>)" if "g \<noteq> 0" for w0 g
      using wf_w_exits(4) [OF m(1) _ that] True by (auto simp: wf_w_exits(5))
    consider (tlb) "t = ?s1" "wf_w w'"
      | (load) "memory_load_access ?s1 ?new_w pa (st = 0xFE) = Inr (w', t)" "m_readWrite ?m = 2"
      | (store) "memory_store_access ?s1 ?new_w pa (st = 0xFE) = Inr (w', t)" "m_readWrite ?m = 1"
      using assms(1) u True ga by (auto simp: stage_memory_def Let_def stalled split: if_splits)
    then show ?thesis
      using s1 memory_load_access_inv [OF _ s1(1,3)] memory_store_access_inv [OF _ s1(1,3)]
      by cases (auto simp: same_regs_def same_front_def)
  qed
qed

lemma memory_initialised:
  assumes "stage_memory s w = Inr (w', t)"
  shows "has_initialised t"
proof -
  from assms obtain u where u: "initialise s = Inr u"
    by (auto simp: stage_memory_def split: sum.splits)
  with initialise_keeps(7) [OF u] assms show ?thesis
    by (auto simp: stage_memory_def memory_load_access_def memory_store_access_def Let_def
        split: sum.splits if_splits)
qed

section \<open>Operands\<close>

text \<open>
  The register contents once the instructions in the write-back and the memory register have
  retired: \<open>retired_w\<close> is the framework after the write-back stage, which comes first in a cycle,
  \<open>retired\<close> after the register write that waits in the memory register as well.
\<close>

definition retired_w :: "machine \<Rightarrow> framework \<Rightarrow> framework" where
  "retired_w s f = (if w_op (cur_w_reg s) = 0 then f
     else register_write f (w_reg (cur_w_reg s)) (w_value (cur_w_reg s)))"

definition retired :: "machine \<Rightarrow> framework \<Rightarrow> framework" where
  "retired s f = (if m_readWrite (cur_m_reg s) = 3
     then register_write (retired_w s f) (m_reg (cur_m_reg s)) (m_value (cur_m_reg s))
     else retired_w s f)"

lemma small_mod: "(r :: u64) < 32 \<Longrightarrow> r mod 32 = r"
  by (simp add: word_unat_eq_iff unat_mod word_less_nat_alt)

lemma retired_w_usable: "regs_usable f \<Longrightarrow> regs_usable (retired_w s f)"
  by (simp add: retired_w_def regs.invar_wr)

lemma forward_single:
  assumes "regs_usable f" "quiet_w (cur_w_reg s)" "fw s = retired_w s f"
    and "0 < r" "r < 32" "m_readWrite (cur_m_reg s) = 3 \<longrightarrow> m_reg (cur_m_reg s) < 32" "w_reg (cur_w_reg s) < 32"
    and "scast (x_rd (cur_x_reg s)) \<noteq> r"
  shows "forwarded_register_read_single s r v = (1, register_read_one (retired s f) r) \<or>
    forwarded_register_read_single s r v = (0, v) \<and>
    register_read_one (fw s) r = register_read_one (retired s f) r"
proof -
  have r: "r mod 32 = r" "r \<noteq> 0"
    "m_readWrite (cur_m_reg s) = 3 \<longrightarrow> m_reg (cur_m_reg s) mod 32 = m_reg (cur_m_reg s)"
    "w_reg (cur_w_reg s) mod 32 = w_reg (cur_w_reg s)"
    using assms(4-7) small_mod by (auto simp: word_gt_0)
  have w: "w_value (cur_w_reg s) = register_read_one (fw s) r" if "w_reg (cur_w_reg s) = r"
    using that assms(1-3) r regs.rd_wr [of f] by (auto simp: quiet_w_def retired_w_def)
  have m: "register_read_one (retired s f) r =
      (if m_readWrite (cur_m_reg s) = 3 \<and> m_reg (cur_m_reg s) = r then m_value (cur_m_reg s)
       else register_read_one (fw s) r)"
    using r regs.rd_wr [OF retired_w_usable [OF assms(1)], of s] assms(3) by (auto simp: retired_def)
  show ?thesis
    using assms(8) w m by (simp add: forwarded_register_read_single_def)
qed

lemma forward_pair:
  assumes base: "regs_usable f" "quiet_w (cur_w_reg s)" "fw s = retired_w s f"
      "m_readWrite (cur_m_reg s) = 3 \<longrightarrow> m_reg (cur_m_reg s) < 32" "w_reg (cur_w_reg s) < 32"
    and reads: "register_cycle_reads (fw s) \<le> 1"
    and fwd: "forwarded_register_read s a b va vb = (False, xa, xb)"
  shows "0 < a \<Longrightarrow> a < 32 \<Longrightarrow> xa = register_read_one (retired s f) a"
    and "0 < b \<Longrightarrow> b < 32 \<Longrightarrow> xb = register_read_one (retired s f) b"
proof -
  obtain fa ua fb ub where single: "forwarded_register_read_single s a va = (fa, ua)"
    "forwarded_register_read_single s b vb = (fb, ub)"
    by fastforce
  have "fa \<noteq> 2" "fb \<noteq> 2"
    using fwd single by (auto simp: forwarded_register_read_def)
  then have rd: "scast (x_rd (cur_x_reg s)) \<noteq> a" "scast (x_rd (cur_x_reg s)) \<noteq> b"
    using single by (auto simp: forwarded_register_read_single_def)
  have ports: "register_read (fw s) i j = (register_read_one (fw s) i, register_read_one (fw s) j)"
    for i j using reads by (simp add: register_read_def leD)
  have xs: "xa = (if fa \<noteq> 0 then ua else register_read_one (fw s) a)"
    "xb = (if fb \<noteq> 0 then ub else register_read_one (fw s) b)"
    using fwd single \<open>fa \<noteq> 2\<close> \<open>fb \<noteq> 2\<close>
    by (auto simp: forwarded_register_read_def ports split: if_splits)
  show "xa = register_read_one (retired s f) a" if "0 < a" "a < 32"
    using forward_single [OF base(1-3) that base(4,5) rd(1), of va] single(1) xs(1) by auto
  show "xb = register_read_one (retired s f) b" if "0 < b" "b < 32"
    using forward_single [OF base(1-3) that base(4,5) rd(2), of vb] single(2) xs(2) by auto
qed

lemma operand_views:
  "i_rs1 (data_i w) = r_rs1 (data_r w)" "s_rs1 (data_s w) = r_rs1 (data_r w)"
  "s_rs2 (data_s w) = r_rs2 (data_r w)"
  by (simp_all add: data_i_def data_r_def data_s_def)

lemma register_field:
  fixes x :: "5 word"
  shows "scast (ucast x :: u16) = (ucast x :: u64)" "(ucast x :: u64) < 32"
    "(ucast x :: u16) \<noteq> - 1" "(ucast x :: u16) = 0 \<longleftrightarrow> (ucast x :: u64) = 0"
proof -
  have lt: "unat x < 32" using unsigned_less [of x, where 'a = nat] by simp
  show "(ucast x :: u64) < 32" using lt by (simp add: word_less_nat_alt unat_ucast_up)
  show "(ucast x :: u16) = 0 \<longleftrightarrow> (ucast x :: u64) = 0"
    by (simp add: word_unat_eq_iff unat_ucast_up)
  have high: "\<not> bit x n" if "5 \<le> n" for n using that bit_imp_le_length [of x n] by auto
  then have "\<not> bit (ucast x :: u16) 10" by (simp add: bit_ucast_iff)
  moreover have "bit (- 1 :: u16) 10" by (simp add: bit_minus_1_iff)
  ultimately show "(ucast x :: u16) \<noteq> - 1" by metis
  show "scast (ucast x :: u16) = (ucast x :: u64)"
  proof (rule bit_word_eqI)
    fix n assume n: "n < LENGTH(64)"
    show "bit (scast (ucast x :: u16) :: u64) n = bit (ucast x :: u64) n"
      by (cases "n < 5") (use n high in \<open>auto simp: bit_signed_iff bit_ucast_iff min_def\<close>)
  qed
qed

lemma operand_registers_cases:
  assumes "operand_registers w = (rs1, rs2, rd)"
  shows "rs1 = - 1 \<and> rs2 = - 1 \<or> rs1 = ucast (r_rs1 (data_r w)) \<and> rs2 = - 1 \<or>
    rs1 = ucast (r_rs1 (data_r w)) \<and> rs2 = ucast (r_rs2 (data_r w))"
  using assms by (auto simp: operand_registers_def Let_def operand_views split: if_splits)

text \<open>What it takes for decode to issue: no bubble, no stall, and no older load of an operand.\<close>

lemma decode_issued:
  assumes "stage_decode s x = Inr (x', s')" "x_not_stalled x' \<noteq> 0" "has_initialised s"
    and "operand_registers (d_instruction (cur_d_reg s)) = (rs1, rs2, rd)"
  shows "initialise s = Inr s" "d_not_stalled (cur_d_reg s) \<noteq> 0" "w_global_memory_stall (cur_w_reg s) = 0"
    "\<not> (m_readWrite (cur_m_reg s) = 2 \<and> m_reg (cur_m_reg s) \<in> {scast rs1, scast rs2, scast rd})"
proof -
  show ini: "initialise s = Inr s" using assms(3) by (simp add: initialise_def)
  show run: "d_not_stalled (cur_d_reg s) \<noteq> 0" "w_global_memory_stall (cur_w_reg s) = 0"
    using assms(1,2) by (auto simp: stage_decode_def split: if_splits)
  show "\<not> (m_readWrite (cur_m_reg s) = 2 \<and> m_reg (cur_m_reg s) \<in> {scast rs1, scast rs2, scast rd})"
    using assms(1,2,4) run ini
    by (auto simp: stage_decode_def Let_def decode_stalled_def split: if_splits)
qed

text \<open>An issued instruction, field by field: where its operand values come from.\<close>

lemma decode_reads:
  assumes "stage_decode s x = Inr (x', s')" "x_not_stalled x' \<noteq> 0" "has_initialised s"
    and "operand_registers (d_instruction (cur_d_reg s)) = (rs1, rs2, rd)"
  shows "x_pc x' = d_pc (cur_d_reg s) \<and> x_new_pc x' = d_new_pc (cur_d_reg s) \<and>
      x_instruction x' = d_instruction (cur_d_reg s) \<and>
      (x_rs1 x', x_rs2 x', x_rd x') = (rs1, rs2, rd) \<and> s' = s"
    "rs1 \<noteq> - 1 \<Longrightarrow> \<exists>b va vb xb. forwarded_register_read s (scast rs1) b va vb = (False, x_rs1_value x', xb)"
    "rs2 \<noteq> - 1 \<Longrightarrow> \<exists>a va vb xa. forwarded_register_read s a (scast rs2) va vb = (False, xa, x_rs2_value x')"
proof (atomize (full))
  let ?w = "d_instruction (cur_d_reg s)"
  let ?a = "ucast (r_rs1 (data_r ?w)) :: u64" and ?b = "ucast (r_rs2 (data_r ?w)) :: u64"
  note issued = decode_issued [OF assms]
  define va vb where "va = x_rs1_value x" and "vb = x_rs2_value x"
  consider (none) "rs1 = - 1" "rs2 = - 1"
    | (one) "rs1 = ucast (r_rs1 (data_r ?w))" "rs2 = - 1"
    | (two) "rs1 = ucast (r_rs1 (data_r ?w))" "rs2 = ucast (r_rs2 (data_r ?w))"
    using operand_registers_cases [OF assms(4)] by blast
  then show "(x_pc x' = d_pc (cur_d_reg s) \<and> x_new_pc x' = d_new_pc (cur_d_reg s) \<and>
      x_instruction x' = ?w \<and> (x_rs1 x', x_rs2 x', x_rd x') = (rs1, rs2, rd) \<and> s' = s) \<and>
    (rs1 \<noteq> - 1 \<longrightarrow> (\<exists>b va vb xb. forwarded_register_read s (scast rs1) b va vb = (False, x_rs1_value x', xb))) \<and>
    (rs2 \<noteq> - 1 \<longrightarrow> (\<exists>a va vb xa. forwarded_register_read s a (scast rs2) va vb = (False, xa, x_rs2_value x')))"
  proof cases
    case none
    then show ?thesis
      using assms(1,2,4) issued by (auto simp: stage_decode_def Let_def split: if_splits)
  next
    case one
    obtain st ua ub where f: "forwarded_register_read s ?a 0 va vb = (st, ua, ub)"
      by (cases "forwarded_register_read s ?a 0 va vb")
    have "\<not> st" "x_rs1_value x' = ua" "s' = s" "x_rs1 x' = rs1" "x_rs2 x' = rs2" "x_rd x' = rd"
      "x_pc x' = d_pc (cur_d_reg s)" "x_new_pc x' = d_new_pc (cur_d_reg s)" "x_instruction x' = ?w"
      using assms(1,2,4) issued one f register_field(3) [of "r_rs1 (data_r ?w)"]
      by (auto simp: stage_decode_def Let_def decode_stalled_def va_def vb_def split: if_splits)
    with f one show ?thesis by (simp add: register_field(1)) blast
  next
    case two
    obtain st ua ub where f: "forwarded_register_read s ?a ?b va vb = (st, ua, ub)"
      by (cases "forwarded_register_read s ?a ?b va vb")
    have "\<not> st" "x_rs1_value x' = ua" "x_rs2_value x' = ub" "s' = s" "x_rs1 x' = rs1" "x_rs2 x' = rs2"
      "x_rd x' = rd" "x_pc x' = d_pc (cur_d_reg s)" "x_new_pc x' = d_new_pc (cur_d_reg s)"
      "x_instruction x' = ?w"
      using assms(1,2,4) issued two f register_field(3) [of "r_rs1 (data_r ?w)"]
        register_field(3) [of "r_rs2 (data_r ?w)"]
      by (auto simp: stage_decode_def Let_def decode_stalled_def va_def vb_def split: if_splits)
    with f two show ?thesis by (simp add: register_field(1)) blast
  qed
qed

text \<open>Register 0 reads as zero, unless a result for it other than zero is on its way.\<close>

definition zero_kept :: "machine \<Rightarrow> bool" where
  "zero_kept s \<longleftrightarrow>
     (m_readWrite (cur_m_reg s) = 3 \<and> m_reg (cur_m_reg s) = 0 \<longrightarrow> m_value (cur_m_reg s) = 0) \<and>
     (w_reg (cur_w_reg s) = 0 \<longrightarrow> w_value (cur_w_reg s) = 0)"

lemma forward_zero:
  assumes "forwarded_register_read s a b va vb = (False, xa, xb)" "zero_kept s"
    and "register_cycle_reads (fw s) \<le> 1"
  shows "a = 0 \<Longrightarrow> xa = 0" and "b = 0 \<Longrightarrow> xb = 0"
proof -
  have zero: "register_read_one (fw s) 0 = 0" by (rule regs.rd_zero) simp
  have single: "snd (forwarded_register_read_single s 0 v) = 0"
    if "fst (forwarded_register_read_single s 0 v) \<notin> {0, 2}" for v
    using that assms(2) by (auto simp: forwarded_register_read_single_def zero_kept_def split: if_splits)
  show "a = 0 \<Longrightarrow> xa = 0" "b = 0 \<Longrightarrow> xb = 0"
    using assms(1,3) zero single [of va] single [of vb]
    by (auto simp: forwarded_register_read_def register_read_def split_beta split: if_splits)
qed

text \<open>
  The operands at the decode stage. When decode issues an instruction, the source registers it reads (other
  than register 0) have the values they will have once the older instructions in the write-back
  and memory registers have written theirs, whether the values come from the register file or are
  forwarded; and no older load in the memory register is about to write one of its registers.
\<close>
lemma decode_operands_correct:
  assumes "stage_decode s x = Inr (x', s')" "x_not_stalled x' \<noteq> 0" "has_initialised s"
    and "regs_usable f" "quiet_w (cur_w_reg s)" "fw s = retired_w s f"
    and "register_cycle_reads (fw s) \<le> 1"
    and "m_readWrite (cur_m_reg s) = 3 \<longrightarrow> m_reg (cur_m_reg s) < 32" "w_reg (cur_w_reg s) < 32"
    and "operand_registers (d_instruction (cur_d_reg s)) = (rs1, rs2, rd)"
  shows "x_pc x' = d_pc (cur_d_reg s) \<and> x_instruction x' = d_instruction (cur_d_reg s) \<and>
    (x_rs1 x', x_rs2 x', x_rd x') = (rs1, rs2, rd) \<and> s' = s \<and>
    (rs1 \<noteq> - 1 \<and> rs1 \<noteq> 0 \<longrightarrow> x_rs1_value x' = register_read_one (retired s f) (scast rs1)) \<and>
    (rs2 \<noteq> - 1 \<and> rs2 \<noteq> 0 \<longrightarrow> x_rs2_value x' = register_read_one (retired s f) (scast rs2)) \<and>
    \<not> (m_readWrite (cur_m_reg s) = 2 \<and> m_reg (cur_m_reg s) \<in> {scast rs1, scast rs2, scast rd})"
proof -
  note reads = decode_reads [OF assms(1-3,10)] decode_issued(4) [OF assms(1-3,10)]
  note fwd = forward_pair [OF assms(4-6,8,9,7)]
  have field: "r \<noteq> - 1 \<and> r \<noteq> 0 \<Longrightarrow> 0 < (scast r :: u64) \<and> (scast r :: u64) < 32" if "r \<in> {rs1, rs2}" for r
    using that operand_registers_cases [OF assms(10)] register_field by (auto simp: word_gt_0)
  have "rs1 \<noteq> - 1 \<and> rs1 \<noteq> 0 \<Longrightarrow> x_rs1_value x' = register_read_one (retired s f) (scast rs1)"
    using reads(2) fwd(1) field [of rs1] by blast
  moreover have "rs2 \<noteq> - 1 \<and> rs2 \<noteq> 0 \<Longrightarrow> x_rs2_value x' = register_read_one (retired s f) (scast rs2)"
    using reads(3) fwd(2) field [of rs2] by blast
  ultimately show ?thesis using reads(1,4) by blast
qed

text \<open>A machine after \<open>initialise\<close>, with empty caches, TLBs and pipeline registers.\<close>

definition boot_machine :: machine where
  "boot_machine = \<lparr>fw = boot_framework, has_initialised = True, instruction_cache = boot_icache,
     data_cache = boot_dcache, itlb = empty_tlb, dtlb = empty_tlb, btable = empty_branch_table,
     cur_d_reg = zero_d, cur_x_reg = zero_x, cur_m_reg = zero_m, cur_w_reg = zero_w, printed = []\<rparr>"

lemma boot_machine_inv: "machine_inv boot_machine"
  by (simp add: machine_inv_def boot_machine_def wf_boot_framework tlb_inv_empty
      wf_empty_branch_table boot_caches)

text \<open>\<open>add x3, x1, x2\<close> in decode, with a result for x1 in the memory register and one for x2 in write-back.\<close>

definition hazard_machine :: machine where
  "hazard_machine = boot_machine\<lparr>cur_d_reg := zero_d\<lparr>d_instruction := 0x002081B3, d_not_stalled := 1\<rparr>,
     cur_x_reg := zero_x\<lparr>x_rd := - 1\<rparr>,
     cur_m_reg := zero_m\<lparr>m_readWrite := 3, m_reg := 1, m_value := 7\<rparr>,
     cur_w_reg := zero_w\<lparr>w_op := 1, w_reg := 2, w_value := 9\<rparr>,
     fw := register_write boot_framework 2 9\<rparr>"

lemma hazard_operands: "operand_registers 0x002081B3 = (1, 2, 3)"
  by (simp add: operand_registers_def decoding_type_def data_i_def data_r_def Let_def)

lemma decode_operands_example:
  "\<exists>x'. stage_decode hazard_machine zero_x = Inr (x', hazard_machine) \<and>
    x_rs1_value x' = 7 \<and> x_rs2_value x' = 9"
proof -
  have fields: "ucast (r_rs1 (data_r 0x002081B3)) = (1 :: u64)" "ucast (r_rs2 (data_r 0x002081B3)) = (2 :: u64)"
    by (simp_all add: data_r_def)
  obtain x' where dec: "stage_decode hazard_machine zero_x = Inr (x', hazard_machine)"
    and issued: "x_not_stalled x' \<noteq> 0"
    by (simp add: stage_decode_def hazard_machine_def boot_machine_def zero_d_def zero_w_def zero_m_def
        zero_x_def initialise_def Let_def hazard_operands fields forwarded_register_read_def
        forwarded_register_read_single_def)
  have usable: "regs_usable boot_framework" "register_cycle_reads (fw hazard_machine) \<le> 1"
    by (simp_all add: regs_usable_def boot_framework_def hazard_machine_def register_write_def)
  have regs: "cur_w_reg hazard_machine = zero_w\<lparr>w_op := 1, w_reg := 2, w_value := 9\<rparr>"
    "cur_m_reg hazard_machine = zero_m\<lparr>m_readWrite := 3, m_reg := 1, m_value := 7\<rparr>"
    "has_initialised hazard_machine" "fw hazard_machine = register_write boot_framework 2 9"
    "d_instruction (cur_d_reg hazard_machine) = 0x002081B3"
    by (simp_all add: hazard_machine_def boot_machine_def)
  have fwm: "fw hazard_machine = retired_w hazard_machine boot_framework"
    by (simp add: regs retired_w_def)
  have "register_read_one (retired hazard_machine boot_framework) 1 = 7"
    "register_read_one (retired hazard_machine boot_framework) 2 = 9"
    using regs.rd_wr [OF usable(1), of 2 9] regs.rd_wr [OF regs.invar_wr [OF usable(1)], of 2 9 1 7]
    by (simp_all add: retired_def retired_w_def regs)
  then show ?thesis
    using decode_operands_correct [OF dec issued regs(3) usable(1) _ fwm usable(2)] dec
    by (simp add: regs hazard_operands quiet_w_def zero_w_def)
qed

text \<open>
  Register 0 is forwarded like any other. When the memory register holds a result
  for register 0, an instruction with one source register that names register 0 and is issued in
  that cycle gets that result instead of zero.
\<close>
theorem zero_register_forwarded:
  assumes "stage_decode s x = Inr (x', s')" "x_not_stalled x' \<noteq> 0" "has_initialised s"
    and "m_readWrite (cur_m_reg s) = 3" "m_reg (cur_m_reg s) = 0"
    and "operand_registers (d_instruction (cur_d_reg s)) = (0, - 1, rd)"
  shows "x_rs1_value x' = m_value (cur_m_reg s) \<and> register_read_one (fw s) 0 = 0"
proof -
  let ?w = "d_instruction (cur_d_reg s)"
  have ini: "initialise s = Inr s" using assms(3) by (simp add: initialise_def)
  have run: "d_not_stalled (cur_d_reg s) \<noteq> 0" "w_global_memory_stall (cur_w_reg s) = 0"
    using assms(1,2) by (auto simp: stage_decode_def split: if_splits)
  have "(ucast (r_rs1 (data_r ?w)) :: u16) = 0"
    using operand_registers_cases [OF assms(6)] by auto
  then have zero: "(ucast (r_rs1 (data_r ?w)) :: u64) = 0" using register_field(4) by blast
  obtain st va vb where f: "forwarded_register_read s 0 0 (x_rs1_value x) (x_rs2_value x) = (st, va, vb)"
    by (cases "forwarded_register_read s 0 0 (x_rs1_value x) (x_rs2_value x)")
  have "\<not> st" "x_rs1_value x' = va"
    using assms(1,2,4,6) run ini f zero
    by (auto simp: stage_decode_def Let_def decode_stalled_def split: if_splits)
  then have "x_rs1_value x' = m_value (cur_m_reg s)"
    using f assms(4,5)
    by (auto simp: forwarded_register_read_def forwarded_register_read_single_def split: if_splits)
  moreover have "register_read_one (fw s) 0 = 0" by (rule regs.rd_zero) simp
  ultimately show ?thesis by simp
qed

text \<open>\<open>addi x5, x0, 0\<close> in decode while the memory register holds a result for x0.\<close>

theorem zero_register_forwarded_witness:
  "\<exists>x'. stage_decode (hazard_machine\<lparr>cur_d_reg := zero_d\<lparr>d_instruction := 0x00000293, d_not_stalled := 1\<rparr>,
      cur_m_reg := zero_m\<lparr>m_readWrite := 3, m_reg := 0, m_value := 7\<rparr>\<rparr>) zero_x = Inr (x', hazard_machine
      \<lparr>cur_d_reg := zero_d\<lparr>d_instruction := 0x00000293, d_not_stalled := 1\<rparr>,
       cur_m_reg := zero_m\<lparr>m_readWrite := 3, m_reg := 0, m_value := 7\<rparr>\<rparr>) \<and> x_rs1_value x' = 7"
proof -
  let ?s = "hazard_machine\<lparr>cur_d_reg := zero_d\<lparr>d_instruction := 0x00000293, d_not_stalled := 1\<rparr>,
      cur_m_reg := zero_m\<lparr>m_readWrite := 3, m_reg := 0, m_value := 7\<rparr>\<rparr>"
  have ops: "operand_registers 0x00000293 = (0, - 1, 5)"
    by (simp add: operand_registers_def decoding_type_def data_i_def Let_def)
  have fields: "ucast (r_rs1 (data_r 0x00000293)) = (0 :: u64)" by (simp add: data_r_def)
  obtain x' where dec: "stage_decode ?s zero_x = Inr (x', ?s)" and issued: "x_not_stalled x' \<noteq> 0"
    by (simp add: stage_decode_def hazard_machine_def boot_machine_def zero_d_def zero_w_def zero_m_def
        zero_x_def initialise_def Let_def ops fields forwarded_register_read_def
        forwarded_register_read_single_def)
  have "has_initialised ?s" by (simp add: hazard_machine_def boot_machine_def)
  then show ?thesis
    using zero_register_forwarded [OF dec issued, of 5] dec by (simp add: ops)
qed

section \<open>Loaded values\<close>

lemma sign_test_mask_bits:
  assumes "sz \<in> {1, 2, 4}"
  shows "\<exists>b. sign_test_mask sz = Inr b \<and>
    (\<forall>n. bit b n \<longleftrightarrow> n < 64 \<and> (n = 8 * unat sz - 1 \<or> sz = 4 \<and> 31 \<le> n))"
  using assms by (auto simp: sign_test_mask_def Let_def bit_simps)

lemma bit_fill:
  "bit (foldl (\<lambda>v i. v OR push_bit (8 * i) 0xFF) (v :: u64) xs) n \<longleftrightarrow>
     bit v n \<or> n < 64 \<and> n div 8 \<in> set xs"
proof (induction xs arbitrary: v)
  case Nil
  then show ?case by simp
next
  case (Cons i xs)
  have byte: "bit (0xFF :: u64) k \<longleftrightarrow> k < 8" for k
    using bit_push_mask [of 0 8 k] by (auto simp: mask_eq_exp_minus_1 bit_simps)
  have "bit (push_bit (8 * i) 0xFF :: u64) n \<longleftrightarrow> n < 64 \<and> n div 8 = i"
    unfolding bit_push_bit_iff byte by auto
  then show ?case unfolding foldl.simps Cons.IH by (auto simp: bit_or_iff)
qed

lemma fill_upper_bits:
  "unat sz \<le> 8 \<Longrightarrow> bit (fill_upper v sz) n \<longleftrightarrow> bit v n \<or> n < 64 \<and> 8 * unat sz \<le> n"
  by (auto simp: fill_upper_def bit_fill less_eq_div_iff_mult_less_eq)

lemma buffer_word:
  fixes v :: u64
  assumes "length bs = n" "n \<le> 8"
  shows "(le_word (bs @ drop n (le_bytes 8 v)) :: u64) = le_word bs OR (v AND NOT (mask (8 * n)))"
proof (rule bit_word_eqI)
  fix k assume k: "k < LENGTH(64)"
  show "bit (le_word (bs @ drop n (le_bytes 8 v)) :: u64) k =
      bit (le_word bs OR (v AND NOT (mask (8 * n)))) k"
  proof (cases "k div 8 < n")
    case True
    then have "k < 8 * n" by auto
    with True k assms show ?thesis
      by (auto simp: bit_le_word bit_or_iff bit_and_iff bit_not_iff bit_mask_iff nth_append)
  next
    case False
    then have "8 * n \<le> k" "n + (k div 8 - n) = k div 8" by auto
    moreover have "k div 8 < 8" "8 * (k div 8) + k mod 8 = k" using k by auto
    ultimately show ?thesis
      using False k assms
      by (auto simp: bit_le_word bit_or_iff bit_and_iff bit_not_iff bit_mask_iff nth_append
          bit_ucast_iff bit_drop_bit_eq)
  qed
qed

lemma extend_signed:
  assumes "sz \<in> {1, 2, 4}" "m_size m = sz" "m_signExtend m \<noteq> 0"
  shows "\<exists>u. extend_loaded m v = Inr u \<and>
    ((\<forall>k. bit v k \<longrightarrow> k < 8 * unat sz) \<longrightarrow> u = signed_take_bit (8 * unat sz - 1) v)"
proof -
  let ?n = "8 * unat sz"
  obtain b where b: "sign_test_mask sz = Inr b"
    and bits: "\<And>k. bit b k \<longleftrightarrow> k < 64 \<and> (k = ?n - 1 \<or> sz = 4 \<and> 31 \<le> k)"
    using sign_test_mask_bits [OF assms(1)] by blast
  have n: "0 < ?n" "?n \<le> 32" using assms(1) by auto
  let ?u = "if v AND b \<noteq> 0 then fill_upper v sz else v"
  have "?u = signed_take_bit (?n - 1) v" if v: "\<forall>k. bit v k \<longrightarrow> k < ?n"
  proof -
    have "v AND b \<noteq> 0 \<longleftrightarrow> bit v (?n - 1)"
    proof
      assume "v AND b \<noteq> 0"
      have "\<exists>k. bit (v AND b) k"
      proof (rule ccontr)
        assume "\<nexists>k. bit (v AND b) k"
        then have "v AND b = 0" by (intro bit_word_eqI) simp
        with \<open>v AND b \<noteq> 0\<close> show False by simp
      qed
      then obtain k where "bit v k" "bit b k" by (auto simp: bit_and_iff)
      moreover from this v have "k < ?n" by blast
      moreover have "sz = 4 \<Longrightarrow> ?n = 32" by simp
      ultimately have "k = ?n - 1" using bits [of k] by linarith
      with \<open>bit v k\<close> show "bit v (?n - 1)" by simp
    next
      assume "bit v (?n - 1)"
      then have "bit (v AND b) (?n - 1)" using bits n by (simp add: bit_and_iff)
      then show "v AND b \<noteq> 0" by auto
    qed
    then have u: "?u = (if bit v (?n - 1) then fill_upper v sz else v)" by simp
    have "bit ?u k = bit (signed_take_bit (?n - 1) v) k" if "k < 64" for k
    proof (cases "k < ?n")
      case True
      then have "min (?n - 1) k = k" by simp
      with True that n show ?thesis unfolding u by (simp add: fill_upper_bits bit_signed_take_bit_iff)
    next
      case False
      then have "min (?n - 1) k = ?n - 1" "\<not> bit v k" using v n by auto
      with False that n show ?thesis unfolding u by (simp add: fill_upper_bits bit_signed_take_bit_iff)
    qed
    then show ?thesis by (intro bit_word_eqI) simp
  qed
  then show ?thesis using b assms(2,3) by (auto simp: extend_loaded_def)
qed

lemma upper_clear: "drop_bit n v = 0 \<Longrightarrow> v AND NOT (mask n) = (0 :: u64)"
proof (rule bit_word_eqI)
  fix k
  assume zero: "drop_bit n v = 0"
  have "\<not> bit v k" if "n \<le> k"
    using arg_cong [OF zero, of "\<lambda>x. bit x (k - n)"] that by (simp add: bit_drop_bit_eq)
  then show "bit (v AND NOT (mask n)) k = bit (0 :: u64) k"
    by (auto simp: bit_and_iff bit_not_iff bit_mask_iff not_less)
qed

text \<open>
  What the memory stage makes of the bytes a read delivers: the upper part of the write-back value
  is kept from before, and the signed loads extend the result.
\<close>

lemma load_value:
  assumes rd: "read_access (fw s) (data_cache s) (ucast pa) (ucast (m_size m)) (le_bytes 8 (w_value w))
      (m_wasStalled m = 1) av = Inr (0, bs @ drop (unat (m_size m)) (le_bytes 8 (w_value w)), dc, f)"
    and m: "m = cur_m_reg s" "m_size m \<in> {1, 2, 4, 8}" "m_signExtend m \<noteq> 0 \<longrightarrow> m_size m \<noteq> 8"
    and lb: "length bs = unat (m_size m)" and raw: "raw = le_word bs"
  shows "\<exists>v. memory_load_access s w pa av =
      Inr (w\<lparr>w_value := v, w_reg := m_reg m, w_op := 1, w_global_memory_stall := 0\<rparr>,
           s\<lparr>data_cache := dc, fw := f\<rparr>) \<and>
    (drop_bit (8 * unat (m_size m)) (w_value w) = 0 \<longrightarrow>
      v = (if m_signExtend m = 0 then raw else signed_take_bit (8 * unat (m_size m) - 1) raw)) \<and>
    (m_signExtend m = 0 \<longrightarrow> v = raw OR (w_value w AND NOT (mask (8 * unat (m_size m)))))"
proof -
  let ?n = "unat (m_size m)"
  let ?v = "raw OR (w_value w AND NOT (mask (8 * ?n)))"
  have le8: "?n \<le> 8" using m(2) by auto
  have word: "le_word (bs @ drop ?n (le_bytes 8 (w_value w))) = ?v"
    using buffer_word [OF lb le8] raw by simp
  have bits: "bit raw k \<Longrightarrow> k < 8 * ?n" for k
    using lb by (auto simp: raw bit_le_word)
  have clean_upper: "?v = raw" if "drop_bit (8 * ?n) (w_value w) = 0"
    using upper_clear [OF that] by simp
  have acc: "extend_loaded m ?v = Inr v \<Longrightarrow> memory_load_access s w pa av =
      Inr (w\<lparr>w_value := v, w_reg := m_reg m, w_op := 1, w_global_memory_stall := 0\<rparr>,
           s\<lparr>data_cache := dc, fw := f\<rparr>)" for v
    using rd m(1) word by (simp add: memory_load_access_def Let_def)
  show ?thesis
  proof (cases "m_signExtend m = 0")
    case True
    then have "extend_loaded m ?v = Inr ?v" by (simp add: extend_loaded_def)
    with acc True clean_upper show ?thesis by auto
  next
    case False
    with m(2,3) have sz: "m_size m \<in> {1, 2, 4}" by auto
    obtain v where ext: "extend_loaded m ?v = Inr v" "?v = raw \<Longrightarrow> v = signed_take_bit (8 * ?n - 1) raw"
      using extend_signed [OF sz refl, of ?v] bits False by metis
    with acc False clean_upper show ?thesis by auto
  qed
qed

text \<open>
  The value of a load that hits. The cache writes only the bytes of the access into
  the write-back register, which still holds the value of the previous cycle. When the upper part
  of that value is zero, the result is the loaded value, sign-extended for the signed loads; in
  general an unsigned load leaves the stale upper bytes in the result.
\<close>
lemma load_result:
  assumes "dcache (data_cache s)" "m_size (cur_m_reg s) = sz" "d_access (ucast pa) (ucast sz)"
    and "dcache_lookup (data_cache s) (ucast pa) = Some line"
    and "m_signExtend (cur_m_reg s) \<noteq> 0 \<longrightarrow> sz \<noteq> 8"
    and "raw = le_word (access_bytes line (ucast pa) (ucast sz))"
  shows "\<exists>v. memory_load_access s w pa av =
      Inr (w\<lparr>w_value := v, w_reg := m_reg (cur_m_reg s), w_op := 1, w_global_memory_stall := 0\<rparr>, s) \<and>
    (drop_bit (8 * unat sz) (w_value w) = 0 \<longrightarrow>
      v = (if m_signExtend (cur_m_reg s) = 0 then raw else signed_take_bit (8 * unat sz - 1) raw)) \<and>
    (m_signExtend (cur_m_reg s) = 0 \<longrightarrow> v = raw OR (w_value w AND NOT (mask (8 * unat sz))))"
proof -
  let ?bs = "access_bytes line (ucast pa) (ucast sz)" and ?m = "cur_m_reg s"
  have n: "unat (ucast sz :: u64) = unat sz" by (simp add: unat_ucast_up)
  then have sz: "sz \<in> {1, 2, 4, 8}"
    using assms(3) by (auto simp: d_access_def word_unat_eq_iff)
  then have le8: "unat sz \<le> 8" by auto
  have lb: "length ?bs = unat sz"
    using d_access_fits [OF assms(3)] dcache_lookup_length [OF assms(1,4)] n
    by (simp add: access_bytes_def off_def)
  have "read_access (fw s) (data_cache s) (ucast pa) (ucast (m_size ?m)) (le_bytes 8 (w_value w))
      (m_wasStalled ?m = 1) av =
      Inr (0, ?bs @ drop (unat (m_size ?m)) (le_bytes 8 (w_value w)), data_cache s, fw s)"
    using dcache_read_hit [OF assms(1,3) _ assms(4)] n le8 assms(2) by simp
  from load_value [OF this refl _ _ _ assms(6)] sz lb assms(5)
  show ?thesis unfolding assms(2) by simp
qed

text \<open>\<open>lb x5\<close> of the byte 0x80, with a write-back register that was idle before.\<close>

definition load_machine :: machine where
  "load_machine = boot_machine\<lparr>data_cache := one_set (filled 0x100 (replicate 8 0x80)) zero_row_d,
     cur_m_reg := zero_m\<lparr>m_readWrite := 2, m_size := 1, m_signExtend := 1, m_reg := 5\<rparr>\<rparr>"

lemma load_result_example:
  "memory_load_access load_machine zero_w 0x100 True =
     Inr (zero_w\<lparr>w_value := 0xFFFFFFFFFFFFFF80, w_reg := 5, w_op := 1, w_global_memory_stall := 0\<rparr>,
          load_machine)"
proof -
  let ?line = "replicate 8 0x80 :: u8 list"
  have rows: "length (rd_data (filled 0x100 ?line)) = 8" "length (rd_data zero_row_d) = 8"
    by (simp_all add: zero_row_d_def)
  have dc: "dcache (data_cache load_machine)" "dcache_lookup (data_cache load_machine) (ucast (0x100 :: u32)) = Some ?line"
    using one_set [OF rows] by (simp_all add: load_machine_def dcache_lookup_def set_addresses)
  have sz: "m_size (cur_m_reg load_machine) = 1" "m_signExtend (cur_m_reg load_machine) = 1"
    "m_reg (cur_m_reg load_machine) = 5"
    by (simp_all add: load_machine_def)
  have acc: "d_access (ucast (0x100 :: u32)) (ucast (1 :: u8))"
    by (simp add: d_access_def take_bit_eq_mod)
  have raw: "(0x80 :: u64) = le_word (access_bytes ?line (ucast (0x100 :: u32)) (ucast (1 :: u8)))"
    by (simp add: access_bytes_def take_bit_eq_mod)
  have "signed_take_bit 7 (0x80 :: u64) = 0xFFFFFFFFFFFFFF80" by code_simp
  then show ?thesis
    using load_result [OF dc(1) sz(1) acc dc(2) _ raw, of zero_w True] sz by (auto simp: zero_w_def)
qed

section \<open>Stalled fetches\<close>

text \<open>
  A fetch that waits for the TLB marks the wait and leaves the rest of the register it fills as it
  was; decode passes on the instruction and the address of its register.
\<close>

lemma fetch_tlb_wait:
  assumes "stage_fetch s d = Inr (d', s')" "d_will_be_stalled d' = 2"
  obtains st where "d' = d\<lparr>d_will_be_stalled := 2, d_tlb_stall_status := st\<rparr>"
  using assms by (auto simp: stage_fetch_def Let_def split: sum.splits if_splits)

lemma decode_passes_on:
  assumes "stage_decode t x = Inr (x', t')" "x_not_stalled x' \<noteq> 0"
  shows "x_pc x' = d_pc (cur_d_reg t) \<and> x_instruction x' = d_instruction (cur_d_reg t)"
proof -
  from assms obtain v where v: "initialise t = Inr v" "d_not_stalled (cur_d_reg t) \<noteq> 0"
      "w_global_memory_stall (cur_w_reg t) = 0"
    by (auto simp: stage_decode_def split: sum.splits if_splits)
  have "cur_d_reg v = cur_d_reg t" using initialise_keeps(1) [OF v(1)] by (simp add: same_regs_def)
  with assms v show ?thesis
    by (auto simp: stage_decode_def Let_def decode_stalled_def split_beta split: if_splits)
qed

end
