(* ===== verification/Simulator.thy ===== *)
theory Simulator
  imports Pipeline
begin

text \<open>
  The main loop of \<open>src/src/riscv_sim_framework.c\<close> in its pipelined form
  (\<open>SIM_NO_PIPELINE\<close> is not defined), and the \<open>initialize\<close> command. The local variables of the
  loop are the record \<open>locals\<close>: they are not initialised by the code, so their first contents are
  an argument of the model, and a cycle in which a stage leaves a field unassigned sees the value
  of an earlier cycle.
\<close>

section \<open>Operations\<close>

record locals =
  inst :: u32
  new_d_reg :: stage_reg_d
  new_x_reg :: stage_reg_x
  new_m_reg :: stage_reg_m
  new_w_reg :: stage_reg_w

definition RISCV_INSTR_EBREAK :: u32 where "RISCV_INSTR_EBREAK = 0x00100073"

definition in_stage :: "u64 \<Rightarrow> machine \<Rightarrow> machine" where
  "in_stage st s = s\<lparr>fw := (fw s)\<lparr>current_stage := st\<rparr>\<rparr>"

text \<open>The peek at the instruction the program counter points to.\<close>

definition peek :: "machine \<Rightarrow> locals \<Rightarrow> u32 result" where
  "peek s l =
     (case memory_dump (fw s) (Some (le_bytes 4 (inst l))) (get_pc (fw s)) 4 of
        Inl e \<Rightarrow> Inl e
      | Inr (_, v) \<Rightarrow> Inr (le_word (the v)))"

text \<open>One iteration after the test for \<open>EBREAK\<close>: the stages from last to first, then the latches.\<close>

definition cycle :: "machine \<Rightarrow> locals \<Rightarrow> (machine \<times> locals) result" where
  "cycle s0 l =
     (case stage_writeback (in_stage STAGE_W_BIT (s0\<lparr>fw := register_reset_cycle (fw s0)\<rparr>)) of
        Inl e \<Rightarrow> Inl e
      | Inr s1 \<Rightarrow>
     (case stage_memory (in_stage STAGE_M_BIT s1) (new_w_reg l) of
        Inl e \<Rightarrow> Inl e
      | Inr (w, s2) \<Rightarrow>
     (case stage_execute (in_stage STAGE_X_BIT s2) (new_m_reg l) of
        Inl e \<Rightarrow> Inl e
      | Inr (m, s3) \<Rightarrow>
     (case stage_decode (in_stage STAGE_D_BIT s3) (new_x_reg l) of
        Inl e \<Rightarrow> Inl e
      | Inr (x, s4) \<Rightarrow>
     (case stage_fetch (in_stage STAGE_F_BIT s4) (new_d_reg l) of
        Inl e \<Rightarrow> Inl e
      | Inr (d, s5) \<Rightarrow>
          let s6 = s5\<lparr>cur_d_reg := d, cur_x_reg := x, cur_m_reg := m, cur_w_reg := w\<rparr>;
              f = fw s6
          in Inr (s6\<lparr>fw := memory_retire_completed (f\<lparr>cycle_counter := cycle_counter f + 1\<rparr>)\<rparr>,
                  l\<lparr>new_d_reg := d, new_x_reg := x, new_m_reg := m, new_w_reg := w\<rparr>))))))"

fun run_cycles :: "nat \<Rightarrow> machine \<Rightarrow> locals \<Rightarrow> machine result" where
  "run_cycles 0 s l = Inr s"
| "run_cycles (Suc n) s l =
     (case peek s l of
        Inl e \<Rightarrow> Inl e
      | Inr i \<Rightarrow>
          if i = RISCV_INSTR_EBREAK then Inr s
          else (case cycle s (l\<lparr>inst := i\<rparr>) of
                  Inl e \<Rightarrow> Inl e
                | Inr (s', l') \<Rightarrow> run_cycles n s' l'))"

definition simulator_execute_instructions :: "machine \<Rightarrow> locals \<Rightarrow> u64 \<Rightarrow> machine result" where
  "simulator_execute_instructions s l n_steps = run_cycles (unat n_steps) s l"

definition initialize_state :: "machine \<Rightarrow> machine" where
  "initialize_state s =
     s\<lparr>fw := (memory_initialize_pending (set_pc (fw s) 0))\<lparr>cycle_counter := 0, read_counter := 0,
               write_counter := 0, read_bytes := 0, write_bytes := 0\<rparr>,
       cur_d_reg := zero_d, cur_x_reg := zero_x, cur_m_reg := zero_m, cur_w_reg := zero_w\<rparr>"

section \<open>Cycles\<close>

lemma in_stage_inv [simp]: "machine_inv (in_stage st s) = machine_inv s"
  "same_regs s (in_stage st s)" "same_regs (in_stage st s) t = same_regs s t"
  "register_file (fw (in_stage st s)) = register_file (fw s)"
  by (simp_all add: machine_inv_def in_stage_def same_regs_def wf_framework_def)

lemma in_stage_regs [simp]:
  "cur_d_reg (in_stage st s) = cur_d_reg s" "cur_x_reg (in_stage st s) = cur_x_reg s"
  "cur_m_reg (in_stage st s) = cur_m_reg s" "cur_w_reg (in_stage st s) = cur_w_reg s"
  by (simp_all add: in_stage_def)

lemma same_regs_trans: "same_regs s t \<Longrightarrow> same_regs t u \<Longrightarrow> same_regs s u"
  by (simp add: same_regs_def)

text \<open>
  A completed cycle, taken apart: every stage has seen the same current registers, and only the
  write-back stage has changed the register file.
\<close>

definition file_after_writeback :: "machine \<Rightarrow> u64 list" where
  "file_after_writeback s =
     (if w_op (cur_w_reg s) = 0 then register_file (fw s)
      else (register_file (fw s))[unat (w_reg (cur_w_reg s) mod 32) := w_value (cur_w_reg s)])"

definition mid_cycle :: "machine \<Rightarrow> machine \<Rightarrow> bool" where
  "mid_cycle s t \<longleftrightarrow>
     machine_inv t \<and> same_regs s t \<and> register_file (fw t) = file_after_writeback s"

lemma mid_cycle_step:
  "mid_cycle s t \<Longrightarrow> machine_inv u \<and> same_regs t u \<and> register_file (fw u) = register_file (fw t) \<Longrightarrow>
   mid_cycle s u"
  by (auto simp: mid_cycle_def intro: same_regs_trans)

lemma mid_cycle_regs [simp]:
  "mid_cycle s (in_stage st t) = mid_cycle s t"
  by (simp add: mid_cycle_def same_regs_def in_stage_def machine_inv_def wf_framework_def)

lemma cycle_stages:
  assumes "cycle s l = Inr (s', l')" "machine_inv s"
  obtains s1 s2 s3 s4 s5 w m x d where
    "stage_memory (in_stage STAGE_M_BIT s1) (new_w_reg l) = Inr (w, s2)"
    "stage_execute (in_stage STAGE_X_BIT s2) (new_m_reg l) = Inr (m, s3)"
    "stage_decode (in_stage STAGE_D_BIT s3) (new_x_reg l) = Inr (x, s4)"
    "stage_fetch (in_stage STAGE_F_BIT s4) (new_d_reg l) = Inr (d, s5)"
    "s' = s5\<lparr>cur_d_reg := d, cur_x_reg := x, cur_m_reg := m, cur_w_reg := w,
       fw := memory_retire_completed ((fw s5)\<lparr>cycle_counter := cycle_counter (fw s5) + 1\<rparr>)\<rparr>"
    "l' = l\<lparr>new_d_reg := d, new_x_reg := x, new_m_reg := m, new_w_reg := w\<rparr>"
    "mid_cycle s s1" "mid_cycle s s2" "mid_cycle s s3" "mid_cycle s s4" "mid_cycle s s5" "wf_m m" "wf_w w"
    "same_front s s2" "has_initialised s2"
    "stage_writeback (in_stage STAGE_W_BIT (s\<lparr>fw := register_reset_cycle (fw s)\<rparr>)) = Inr s1"
proof -
  from assms(1) obtain s1 s2 s3 s4 s5 w m x d where st:
    "stage_writeback (in_stage STAGE_W_BIT (s\<lparr>fw := register_reset_cycle (fw s)\<rparr>)) = Inr s1"
    "stage_memory (in_stage STAGE_M_BIT s1) (new_w_reg l) = Inr (w, s2)"
    "stage_execute (in_stage STAGE_X_BIT s2) (new_m_reg l) = Inr (m, s3)"
    "stage_decode (in_stage STAGE_D_BIT s3) (new_x_reg l) = Inr (x, s4)"
    "stage_fetch (in_stage STAGE_F_BIT s4) (new_d_reg l) = Inr (d, s5)"
    "s' = s5\<lparr>cur_d_reg := d, cur_x_reg := x, cur_m_reg := m, cur_w_reg := w,
       fw := memory_retire_completed ((fw s5)\<lparr>cycle_counter := cycle_counter (fw s5) + 1\<rparr>)\<rparr>"
    "l' = l\<lparr>new_d_reg := d, new_x_reg := x, new_m_reg := m, new_w_reg := w\<rparr>"
    by (auto simp: cycle_def Let_def split: sum.splits)
  let ?s0 = "s\<lparr>fw := register_reset_cycle (fw s)\<rparr>"
  have s0: "machine_inv ?s0" "same_regs s ?s0"
    using assms(2) by (simp_all add: machine_inv_def same_regs_def register_reset_cycle_def
        wf_framework_def settings_def)
  have front: "same_front s (in_stage STAGE_W_BIT ?s0)" "\<And>t. same_front t (in_stage STAGE_M_BIT t)"
    by (simp_all add: same_front_def in_stage_def register_reset_cycle_def)
  have wb: "machine_inv s1 \<and> same_regs ?s0 s1 \<and> same_front (in_stage STAGE_W_BIT ?s0) s1 \<and>
      fw s1 = (if w_op (cur_w_reg s) = 0 then fw (in_stage STAGE_W_BIT ?s0)
        else register_write (fw (in_stage STAGE_W_BIT ?s0)) (w_reg (cur_w_reg s)) (w_value (cur_w_reg s)))"
    using writeback_inv [OF st(1)] s0(1) by simp
  then have "register_file (fw s1) = file_after_writeback s"
    by (simp add: file_after_writeback_def register_write_def register_reset_cycle_def in_stage_def
        RISCV_NUM_REGISTERS_def)
  with wb s0(2) have 1: "mid_cycle s s1" by (auto simp: mid_cycle_def intro: same_regs_trans)
  have inv: "mid_cycle s t \<Longrightarrow> machine_inv (in_stage b t)" for t b by (simp add: mid_cycle_def)
  note 2 = mid_cycle_step [of s "in_stage STAGE_M_BIT s1" s2] memory_inv [OF st(2) inv [OF 1]]
  note 3 = mid_cycle_step [of s "in_stage STAGE_X_BIT s2" s3] execute_inv [OF st(3) inv]
  note 4 = mid_cycle_step [of s "in_stage STAGE_D_BIT s3" s4] decode_inv [OF st(4) inv]
  note 5 = mid_cycle_step [of s "in_stage STAGE_F_BIT s4" s5] fetch_inv [OF st(5) inv]
  have "same_front s s2" using front wb 2(2) by (simp add: same_front_def)
  moreover have "has_initialised s2" using memory_initialised [OF st(2)] .
  ultimately show thesis using that st 1 2 3 4 5 by simp
qed

lemma latched_inv:
  assumes "mid_cycle s t" "wf_m m" "wf_w w"
    and "s' = t\<lparr>cur_d_reg := d, cur_x_reg := x, cur_m_reg := m, cur_w_reg := w,
       fw := memory_retire_completed ((fw t)\<lparr>cycle_counter := cycle_counter (fw t) + 1\<rparr>)\<rparr>"
  shows "machine_inv s' \<and> register_file (fw s') = file_after_writeback s \<and>
    settings (fw s') = (riscv_mem_size (fw s), ptbr (fw s), memory_read_latency (fw s),
      memory_write_latency (fw s), cycle_counter (fw s) + 1) \<and> memory_accesses_issued (fw s') = 0"
  using assms(1-3) unfolding assms(4)
  by (auto simp: machine_inv_def mid_cycle_def wf_framework_def memory_retire_completed_def
      settings_def same_regs_def)

lemma cycle_keeps:
  assumes "cycle s l = Inr (s', l')" "machine_inv s"
  shows "machine_inv s'" "register_file (fw s') = file_after_writeback s"
    "cycle_counter (fw s') = cycle_counter (fw s) + 1" "ptbr (fw s') = ptbr (fw s)"
    "riscv_mem_size (fw s') = riscv_mem_size (fw s)" "memory_accesses_issued (fw s') = 0"
    "memory_read_latency (fw s') = memory_read_latency (fw s)"
  by (atomize (full), rule cycle_stages [OF assms], drule (3) latched_inv)
    (simp add: settings_def)

lemma mid_cycle_same: "mid_cycle s t \<Longrightarrow> same_regs s t"
  by (simp add: mid_cycle_def)

lemma cycle_memory:
  assumes "cycle s l = Inr (s', l')" "machine_inv s"
  shows "\<exists>t u. stage_memory (in_stage STAGE_M_BIT t) (new_w_reg l) = Inr (cur_w_reg s', u) \<and> same_regs s t"
  by (rule cycle_stages [OF assms]) (auto intro: mid_cycle_same)

lemma cycle_execute:
  assumes "cycle s l = Inr (s', l')" "machine_inv s"
  shows "\<exists>t u. stage_execute (in_stage STAGE_X_BIT t) (new_m_reg l) = Inr (cur_m_reg s', u) \<and> same_regs s t"
  by (rule cycle_stages [OF assms]) (auto intro: mid_cycle_same)

text \<open>
  A register write that waits in the memory register reaches the register file two cycles later,
  when no older memory access has tainted the write-back register.
\<close>

lemma register_write_retires:
  assumes inv: "machine_inv s" and c1: "cycle s l = Inr (s1, l1)" and c2: "cycle s1 l1 = Inr (s2, l2)"
    and m: "m_readWrite (cur_m_reg s) = 3" "w_tainted_executions (cur_w_reg s) = 0"
  shows "register_file (fw s2) =
    (register_file (fw s1))[unat (m_reg (cur_m_reg s) mod 32) := m_value (cur_m_reg s)]"
proof -
  from cycle_memory [OF c1 inv] obtain t1 t2 w where mem:
    "stage_memory (in_stage STAGE_M_BIT t1) (new_w_reg l) = Inr (w, t2)" "same_regs s t1"
    "cur_w_reg s1 = w"
    by blast
  have "w_reg w = m_reg (cur_m_reg s) \<and> w_value w = m_value (cur_m_reg s) \<and> w_op w = 1"
  proof -
    from mem(1) obtain u where u: "initialise (in_stage STAGE_M_BIT t1) = Inr u"
      by (auto simp: stage_memory_def split: sum.splits)
    have "cur_m_reg u = cur_m_reg s" "cur_w_reg u = cur_w_reg s"
      using initialise_keeps(1) [OF u] mem(2) by (simp_all add: same_regs_def)
    with mem(1) u m show ?thesis by (auto simp: stage_memory_def Let_def)
  qed
  with cycle_keeps(2) [OF c2 cycle_keeps(1) [OF c1 inv]] mem(3) show ?thesis
    by (simp add: file_after_writeback_def)
qed

section \<open>Runs\<close>

text \<open>The loop body as a step; a run is a sequence of completed steps.\<close>

definition sim_step :: "unit \<Rightarrow> machine \<times> locals \<Rightarrow> (machine \<times> locals) result" where
  "sim_step u sl =
     (case peek (fst sl) (snd sl) of
        Inl e \<Rightarrow> Inl e
      | Inr i \<Rightarrow> cycle (fst sl) ((snd sl)\<lparr>inst := i\<rparr>))"

lemma sim_step_eq:
  "sim_step u (s, l) =
     (case peek s l of Inl e \<Rightarrow> Inl e | Inr i \<Rightarrow> cycle s (l\<lparr>inst := i\<rparr>))"
  by (cases "peek s l") (simp_all add: sim_step_def)

interpretation sim: run_invariant sim_step "\<lambda>sl. machine_inv (fst sl)"
  by unfold_locales (auto simp: sim_step_def intro: cycle_keeps(1) split: sum.splits)

text \<open>
  A run is the \<open>k\<close> steps up to the bound or to the first peek at \<open>EBREAK\<close>, whichever comes first.
\<close>

definition stops_after :: "nat \<Rightarrow> nat \<Rightarrow> machine \<Rightarrow> locals \<Rightarrow> machine \<Rightarrow> locals \<Rightarrow> bool" where
  "stops_after n k s l s' l' \<longleftrightarrow>
     k \<le> n \<and> run_steps sim_step (replicate k ()) (s, l) = Inr (s', l') \<and>
     (k = n \<or> peek s' l' = Inr RISCV_INSTR_EBREAK) \<and>
     (\<forall>j < k. \<forall>t m. run_steps sim_step (replicate j ()) (s, l) = Inr (t, m) \<longrightarrow>
        peek t m \<noteq> Inr RISCV_INSTR_EBREAK)"

lemma stops_after_Suc:
  assumes "peek s l = Inr i" "i \<noteq> RISCV_INSTR_EBREAK" "cycle s (l\<lparr>inst := i\<rparr>) = Inr (t, m)"
    and "stops_after n k t m s' l'"
  shows "stops_after (Suc n) (Suc k) s l s' l'"
  using assms by (auto simp: stops_after_def sim_step_eq less_Suc_eq_0_disj)

lemma run_cycles_steps:
  "run_cycles n s l = Inr s' \<Longrightarrow> \<exists>k l'. stops_after n k s l s' l'"
proof (induction n arbitrary: s l)
  case 0
  then show ?case by (simp add: stops_after_def)
next
  case (Suc n)
  from Suc.prems obtain i where i: "peek s l = Inr i"
    by (auto split: sum.splits)
  show ?case
  proof (cases "i = RISCV_INSTR_EBREAK")
    case True
    with Suc.prems i show ?thesis by (intro exI [of _ 0]) (simp add: stops_after_def)
  next
    case False
    with Suc.prems i obtain t m where c: "cycle s (l\<lparr>inst := i\<rparr>) = Inr (t, m)"
      and "run_cycles n t m = Inr s'"
      by (auto split: sum.splits)
    with Suc.IH show ?thesis using stops_after_Suc [OF i False c] by blast
  qed
qed

lemma steps_counter:
  "machine_inv s \<Longrightarrow> run_steps sim_step (replicate k ()) (s, l) = Inr (s', l') \<Longrightarrow>
   cycle_counter (fw s') = cycle_counter (fw s) + of_nat k \<and> ptbr (fw s') = ptbr (fw s) \<and>
   riscv_mem_size (fw s') = riscv_mem_size (fw s)"
proof (induction k arbitrary: s l)
  case 0
  then show ?case by simp
next
  case (Suc k)
  then obtain i t m where "cycle s (l\<lparr>inst := i\<rparr>) = Inr (t, m)"
    and rest: "run_steps sim_step (replicate k ()) (t, m) = Inr (s', l')"
    by (auto simp: sim_step_eq split: sum.splits)
  with cycle_keeps [OF this(1) Suc.prems(1)] Suc.IH [OF _ rest] show ?case by simp
qed

text \<open>
  Property C3: a run of the simulator. Whatever the program, the memory and the contents of the
  uninitialised local registers, a run with the bound \<open>n\<close> that ends without a fault keeps the
  machine invariant (the caches and TLBs keep their shape, the branch counters stay in range, an
  idle write-back register stays zero) and leaves the page table base and the memory size alone. It
  is exactly \<open>k\<close> iterations of the peek and the cycle, where \<open>k\<close> is \<open>n\<close> or the number of cycles
  before the first peek at \<open>EBREAK\<close>, and the cycle counter advances by that \<open>k\<close> (modulo 2^64).
\<close>
theorem run_keeps_invariant:
  assumes "machine_inv s" "simulator_execute_instructions s l n = Inr s'"
  shows "machine_inv s' \<and> ptbr (fw s') = ptbr (fw s) \<and>
    riscv_mem_size (fw s') = riscv_mem_size (fw s) \<and>
    (\<exists>k l'. stops_after (unat n) k s l s' l' \<and>
       cycle_counter (fw s') = cycle_counter (fw s) + of_nat k)"
proof -
  from assms(2) obtain k l' where k: "stops_after (unat n) k s l s' l'"
    using run_cycles_steps [of "unat n" s l s'] by (auto simp: simulator_execute_instructions_def)
  then have run: "run_steps sim_step (replicate k ()) (s, l) = Inr (s', l')" by (simp add: stops_after_def)
  have "machine_inv s'" using sim.run_inv [OF _ run] assms(1) by simp
  with steps_counter [OF assms(1) run] k show ?thesis by blast
qed

lemma peek_block:
  assumes "in_block (fw s) (get_pc (fw s)) 4"
  shows "peek s l = Inr (le_word (fetch_bytes (riscv_mem (fw s)) (get_pc (fw s)) 4))"
  using assms in_block_le [OF assms]
  by (simp add: peek_def memory_dump_def leD buf_put_ok)

text \<open>
  The end of a run. The loop looks at the word of memory under the program counter:
  at \<open>EBREAK\<close> it stops before doing anything, and the machine, the cycle counter included, is
  unchanged; at any other word it executes a cycle and continues with one step less.
\<close>
lemma ebreak_stops:
  assumes "in_block (fw s) (get_pc (fw s)) 4"
    and "i = le_word (fetch_bytes (riscv_mem (fw s)) (get_pc (fw s)) 4)"
  shows "simulator_execute_instructions s l n =
    (if n = 0 \<or> i = RISCV_INSTR_EBREAK then Inr s
     else (case cycle s (l\<lparr>inst := i\<rparr>) of
             Inl e \<Rightarrow> Inl e
           | Inr (s', l') \<Rightarrow> simulator_execute_instructions s' l' (n - 1)))"
proof (cases "n = 0")
  case True
  then show ?thesis by (simp add: simulator_execute_instructions_def)
next
  case False
  then have "unat n = Suc (unat (n - 1))" by (simp add: unat_minus_one word_gt_0 [symmetric] unat_gt_0)
  with False show ?thesis
    using peek_block [OF assms(1), of l] assms(2)
    by (auto simp: simulator_execute_instructions_def split: sum.splits)
qed

definition zero_locals :: locals where
  "zero_locals = \<lparr>inst = 0, new_d_reg = zero_d, new_x_reg = zero_x, new_m_reg = zero_m, new_w_reg = zero_w\<rparr>"

lemma ebreak_stops_example:
  "simulator_execute_instructions (boot_machine\<lparr>fw := boot_framework\<lparr>riscv_mem :=
      store_bytes (\<lambda>_. 0) 0x40 [0x73, 0, 0x10, 0], program_counter := 0x40\<rparr>\<rparr>) zero_locals 100 =
    Inr (boot_machine\<lparr>fw := boot_framework\<lparr>riscv_mem :=
      store_bytes (\<lambda>_. 0) 0x40 [0x73, 0, 0x10, 0], program_counter := 0x40\<rparr>\<rparr>)"
proof -
  let ?s = "boot_machine\<lparr>fw := boot_framework\<lparr>riscv_mem :=
      store_bytes (\<lambda>_. 0) 0x40 [0x73, 0, 0x10, 0], program_counter := 0x40\<rparr>\<rparr>"
  have blk: "in_block (fw ?s) (get_pc (fw ?s)) 4"
    by (simp add: in_block_def get_pc_def boot_framework_def)
  have n4: "length [0x73 :: u8, 0, 0x10, 0] = 4" by simp
  have "fetch_bytes (store_bytes (\<lambda>_. 0) 0x40 [0x73, 0, 0x10, 0]) 0x40
      (length [0x73 :: u8, 0, 0x10, 0]) = [0x73, 0, 0x10, 0]"
    by (rule block.fetch_store_same) simp
  then have "fetch_bytes (store_bytes (\<lambda>_. 0) 0x40 [0x73, 0, 0x10, 0]) 0x40 4 = [0x73, 0, 0x10, 0]"
    by (simp only: n4)
  then have i: "RISCV_INSTR_EBREAK = le_word (fetch_bytes (riscv_mem (fw ?s)) (get_pc (fw ?s)) 4)"
    by (simp add: get_pc_def RISCV_INSTR_EBREAK_def)
  show ?thesis
    using ebreak_stops [OF blk i] by simp
qed

text \<open>The first cycle of a machine with an empty memory: the fetch starts a page walk.\<close>

lemma first_cycle: "\<exists>r. cycle boot_machine zero_locals = Inr r"
proof -
  let ?f = "boot_framework\<lparr>register_cycle_reads := 0, register_cycle_writes := 0, current_stage := STAGE_F_BIT\<rparr>"
  have "tlb_lookup empty_tlb (superpage 0) = None"
    by (simp add: tlb_lookup_def empty_tlb_def Let_def)
  moreover have "proper ?f 0 4" "may_read ?f" "memory_read_latency ?f = 0"
    by (simp_all add: proper_def in_block_def may_read_def port_free_def boot_framework_def)
  moreover have "pte1_address ?f 0 = 0"
    by (simp add: pte1_address_def table_entry_def boot_framework_def)
  ultimately have "\<exists>tb f. get_address ?f empty_tlb 0 0 0xFF = Inr (2, 0, tb, f)"
    by (simp add: get_address_fresh memory_read_now local_buffer_def)
  then show ?thesis
    by (auto simp: cycle_def stage_writeback_def stage_memory_def stage_execute_def stage_decode_def
        stage_fetch_def initialise_def boot_machine_def zero_locals_def zero_w_def zero_m_def zero_x_def
        zero_d_def in_stage_def register_reset_cycle_def memory_nop_def get_pc_def Let_def
        boot_framework_def)
qed

theorem run_keeps_invariant_witness:
  "\<exists>s'. simulator_execute_instructions boot_machine zero_locals 1 = Inr s' \<and> machine_inv s' \<and>
    cycle_counter (fw s') = 1"
proof -
  have "in_block (fw boot_machine) (get_pc (fw boot_machine)) 4"
    by (simp add: in_block_def get_pc_def boot_framework_def boot_machine_def)
  moreover have "le_word (fetch_bytes (riscv_mem (fw boot_machine)) (get_pc (fw boot_machine)) 4) = (0 :: u32)"
    by (simp add: boot_machine_def boot_framework_def fetch_bytes_def upt_rec)
  ultimately have "peek boot_machine zero_locals = Inr 0" by (simp add: peek_block)
  moreover have "zero_locals\<lparr>inst := 0\<rparr> = zero_locals" by (simp add: zero_locals_def)
  moreover obtain s' l' where "cycle boot_machine zero_locals = Inr (s', l')"
    using first_cycle by auto
  ultimately have run: "simulator_execute_instructions boot_machine zero_locals 1 = Inr s'"
    and no_break: "peek boot_machine zero_locals \<noteq> Inr RISCV_INSTR_EBREAK"
    by (simp_all add: simulator_execute_instructions_def RISCV_INSTR_EBREAK_def)
  have "cycle_counter (fw boot_machine) = 0" by (simp add: boot_machine_def boot_framework_def)
  with run_keeps_invariant [OF boot_machine_inv run] obtain k l' where
    k: "stops_after 1 k boot_machine zero_locals s' l'" "cycle_counter (fw s') = of_nat k" "machine_inv s'"
    by auto
  from k(1) no_break have "k = 1"
    by (cases k) (auto simp: stops_after_def)
  with run k(2,3) show ?thesis by simp
qed

section \<open>A page fault at the program counter\<close>

text \<open>
  The front end of a machine whose fetch has met an invalid first-level entry: no instruction in
  decode, and the fetch register records the status 0x80 of the walk.
\<close>

definition fetch_waits :: "machine \<Rightarrow> locals \<Rightarrow> bool" where
  "fetch_waits s l \<longleftrightarrow>
     has_initialised s \<and> d_not_stalled (new_d_reg l) = 0 \<and>
     d_will_be_stalled (cur_d_reg s) = 2 \<and> d_tlb_stall_status (cur_d_reg s) = 0x80 \<and>
     \<not> bit (cached_second_index (itlb s)) 31"

definition fetch_faulted :: "machine \<Rightarrow> locals \<Rightarrow> bool" where
  "fetch_faulted s l \<longleftrightarrow> fetch_waits s l \<and> d_not_stalled (cur_d_reg s) = 0"

text \<open>The rest of the pipeline has drained.\<close>

definition drained :: "machine \<Rightarrow> bool" where
  "drained s \<longleftrightarrow>
     x_not_stalled (cur_x_reg s) = 0 \<and> m_readWrite (cur_m_reg s) = 0 \<and>
     w_tainted_executions (cur_w_reg s) = 0 \<and> w_global_memory_stall (cur_w_reg s) = 0"

lemma fetch_faulted_stage:
  assumes "has_initialised s" "d_will_be_stalled (cur_d_reg s) = 2"
    "d_tlb_stall_status (cur_d_reg s) = 0x80" "\<not> bit (cached_second_index (itlb s)) 31"
  shows "stage_fetch s d = Inr (d\<lparr>d_will_be_stalled := 2, d_tlb_stall_status := 0x80\<rparr>, s)"
proof -
  have "get_address (fw s) (itlb s) va 0 0x80 = Inr (0x80, 0, itlb s, fw s)" for va
    using assms(4) by (simp add: get_address_def update_tlb_entry_def top_bit Let_def)
  then show ?thesis
    using assms(1-3) by (simp add: stage_fetch_def initialise_def Let_def)
qed

lemma idle_decode:
  assumes "d_not_stalled (cur_d_reg s) = 0" "same_regs s t"
  shows "\<exists>x'. stage_decode t x = Inr (x', t) \<and> x_not_stalled x' = 0"
  using assms by (simp add: stage_decode_def same_regs_def)

lemma idle_execute:
  assumes "x_not_stalled (cur_x_reg s) = 0" "w_global_memory_stall (cur_w_reg s) = 0" "same_regs s t"
  shows "\<exists>m' p. stage_execute t m = Inr (m', t\<lparr>printed := p\<rparr>) \<and> m_readWrite m' = 0 \<and>
    m_tainted_executions m' = 0"
  using assms
  by (intro exI [of _ "printed t"] exI [of _ "m\<lparr>m_wasStalled := 0, m_tainted_executions := 0,
      m_readWrite := 0, m_pc := x_pc (cur_x_reg s)\<rparr>"]) (simp add: stage_execute_def Let_def same_regs_def)

text \<open>
  A cycle of such a machine, given that its execute and decode stages complete without changing
  more than the printed messages.
\<close>

lemma tlb_wait_cycle:
  assumes fs: "has_initialised s" "d_will_be_stalled (cur_d_reg s) = 2"
      "d_tlb_stall_status (cur_d_reg s) = 0x80" "\<not> bit (cached_second_index (itlb s)) 31"
    and mem: "m_readWrite (cur_m_reg s) \<notin> {1, 2}" "w_tainted_executions (cur_w_reg s) = 0"
      "w_global_memory_stall (cur_w_reg s) = 0"
    and ex: "\<And>t. same_regs s t \<Longrightarrow> has_initialised t \<Longrightarrow> \<exists>m p. stage_execute t (new_m_reg l) =
      Inr (m, t\<lparr>printed := p\<rparr>) \<and> P m"
    and de: "\<And>t. same_regs s t \<Longrightarrow> has_initialised t \<Longrightarrow> \<exists>x. stage_decode t (new_x_reg l) = Inr (x, t) \<and> Q x"
  shows "\<exists>s' l'. cycle s l = Inr (s', l') \<and> has_initialised s' \<and> itlb s' = itlb s \<and>
    cur_d_reg s' = (new_d_reg l)\<lparr>d_will_be_stalled := 2, d_tlb_stall_status := 0x80\<rparr> \<and>
    new_d_reg l' = cur_d_reg s' \<and> P (cur_m_reg s') \<and>
    Q (cur_x_reg s') \<and> w_tainted_executions (cur_w_reg s') = 0 \<and>
    w_global_memory_stall (cur_w_reg s') = 0 \<and>
    program_counter (fw s') = program_counter (fw s) \<and> riscv_mem (fw s') = riscv_mem (fw s) \<and>
    riscv_mem_size (fw s') = riscv_mem_size (fw s)"
proof -
  let ?f0 = "(register_reset_cycle (fw s))\<lparr>current_stage := STAGE_W_BIT\<rparr>"
  define f1 where "f1 = (if w_op (cur_w_reg s) = 0 then ?f0
    else register_write ?f0 (w_reg (cur_w_reg s)) (w_value (cur_w_reg s)))"
  let ?s1 = "s\<lparr>fw := f1\<rparr>" and ?s2 = "s\<lparr>fw := f1\<lparr>current_stage := STAGE_M_BIT\<rparr>\<rparr>"
  have wb: "stage_writeback (in_stage STAGE_W_BIT (s\<lparr>fw := register_reset_cycle (fw s)\<rparr>)) = Inr ?s1"
    using fs(1) by (simp add: stage_writeback_def in_stage_def initialise_def f1_def)
  have "\<exists>w. stage_memory ?s2 (new_w_reg l) = Inr (w, ?s2) \<and> w_tainted_executions w = 0 \<and>
      w_global_memory_stall w = 0"
    using fs(1) mem
    by (cases "m_readWrite (cur_m_reg s) = 3")
      (simp_all add: stage_memory_def initialise_def Let_def memory_nop_def)
  then obtain w where me: "stage_memory ?s2 (new_w_reg l) = Inr (w, ?s2)"
    and w: "w_tainted_executions w = 0" "w_global_memory_stall w = 0"
    by blast
  have f1: "program_counter f1 = program_counter (fw s)" "riscv_mem f1 = riscv_mem (fw s)"
    "riscv_mem_size f1 = riscv_mem_size (fw s)" "settings f1 = settings (fw s)"
    by (simp_all add: f1_def register_write_def register_reset_cycle_def settings_def)
  let ?s3 = "s\<lparr>fw := f1\<lparr>current_stage := STAGE_X_BIT\<rparr>\<rparr>"
  have "same_regs s ?s3" "has_initialised ?s3" using f1(4) fs(1) by (simp_all add: same_regs_def)
  then obtain m p where exm: "stage_execute ?s3 (new_m_reg l) = Inr (m, ?s3\<lparr>printed := p\<rparr>)" "P m"
    using ex by blast
  let ?s4 = "s\<lparr>printed := p, fw := f1\<lparr>current_stage := STAGE_D_BIT\<rparr>\<rparr>"
  let ?s5 = "s\<lparr>printed := p, fw := f1\<lparr>current_stage := STAGE_F_BIT\<rparr>\<rparr>"
  have "same_regs s ?s4" "has_initialised ?s4" using f1(4) fs(1) by (simp_all add: same_regs_def)
  then obtain x where dex: "stage_decode ?s4 (new_x_reg l) = Inr (x, ?s4)" "Q x"
    using de by blast
  have fe: "stage_fetch ?s5 (new_d_reg l) =
      Inr ((new_d_reg l)\<lparr>d_will_be_stalled := 2, d_tlb_stall_status := 0x80\<rparr>, ?s5)"
    using fs by (intro fetch_faulted_stage) simp_all
  have comm: "s\<lparr>fw := f, printed := p\<rparr> = s\<lparr>printed := p, fw := f\<rparr>" for f by simp
  show ?thesis
    using wb me exm dex fe w fs f1
    by (simp add: cycle_def in_stage_def Let_def memory_retire_completed_def)
qed

lemma fetch_waits_cycle:
  assumes ff: "fetch_waits s l"
    and mem: "m_readWrite (cur_m_reg s) \<notin> {1, 2}" "w_tainted_executions (cur_w_reg s) = 0"
      "w_global_memory_stall (cur_w_reg s) = 0"
    and ex: "\<And>t. same_regs s t \<Longrightarrow> has_initialised t \<Longrightarrow> \<exists>m p. stage_execute t (new_m_reg l) =
      Inr (m, t\<lparr>printed := p\<rparr>) \<and> P m"
    and de: "\<And>t. same_regs s t \<Longrightarrow> has_initialised t \<Longrightarrow> \<exists>x. stage_decode t (new_x_reg l) = Inr (x, t) \<and> Q x"
  shows "\<exists>s' l'. cycle s l = Inr (s', l') \<and> fetch_faulted s' l' \<and> P (cur_m_reg s') \<and>
    Q (cur_x_reg s') \<and> w_tainted_executions (cur_w_reg s') = 0 \<and>
    w_global_memory_stall (cur_w_reg s') = 0 \<and>
    program_counter (fw s') = program_counter (fw s) \<and> riscv_mem (fw s') = riscv_mem (fw s) \<and>
    riscv_mem_size (fw s') = riscv_mem_size (fw s)"
proof -
  have fs: "has_initialised s" "d_not_stalled (new_d_reg l) = 0" "d_will_be_stalled (cur_d_reg s) = 2"
    "d_tlb_stall_status (cur_d_reg s) = 0x80" "\<not> bit (cached_second_index (itlb s)) 31"
    using ff by (simp_all add: fetch_waits_def)
  from tlb_wait_cycle [OF fs(1,3-5) mem ex de] fs show ?thesis
    by (fastforce simp: fetch_faulted_def fetch_waits_def)
qed

lemma fetch_faulted_cycle:
  assumes "fetch_faulted s l" "m_readWrite (cur_m_reg s) \<notin> {1, 2}" "w_tainted_executions (cur_w_reg s) = 0"
    "w_global_memory_stall (cur_w_reg s) = 0"
    and "\<And>t. same_regs s t \<Longrightarrow> has_initialised t \<Longrightarrow> \<exists>m p. stage_execute t (new_m_reg l) =
      Inr (m, t\<lparr>printed := p\<rparr>) \<and> P m"
  shows "\<exists>s' l'. cycle s l = Inr (s', l') \<and> fetch_faulted s' l' \<and> P (cur_m_reg s') \<and>
    x_not_stalled (cur_x_reg s') = 0 \<and> w_tainted_executions (cur_w_reg s') = 0 \<and>
    w_global_memory_stall (cur_w_reg s') = 0 \<and>
    program_counter (fw s') = program_counter (fw s) \<and> riscv_mem (fw s') = riscv_mem (fw s) \<and>
    riscv_mem_size (fw s') = riscv_mem_size (fw s)"
proof -
  have "fetch_waits s l" "d_not_stalled (cur_d_reg s) = 0"
    using assms(1) by (simp_all add: fetch_faulted_def)
  then show ?thesis by (intro fetch_waits_cycle [OF _ assms(2-5)] idle_decode)
qed

text \<open>A machine whose front end waits and that holds no instruction: the cycle changes nothing that matters.\<close>

lemma drained_cycle:
  assumes "fetch_faulted s l" "drained s"
  shows "\<exists>s' l'. cycle s l = Inr (s', l') \<and> fetch_faulted s' l' \<and> drained s' \<and>
    program_counter (fw s') = program_counter (fw s) \<and> riscv_mem (fw s') = riscv_mem (fw s) \<and>
    riscv_mem_size (fw s') = riscv_mem_size (fw s)"
proof -
  have dr: "m_readWrite (cur_m_reg s) \<notin> {1, 2}" "w_tainted_executions (cur_w_reg s) = 0"
    "w_global_memory_stall (cur_w_reg s) = 0" "x_not_stalled (cur_x_reg s) = 0"
    using assms(2) by (simp_all add: drained_def)
  show ?thesis
    using fetch_faulted_cycle [OF assms(1) dr(1-3) idle_execute [OF dr(4,3)]]
    by (auto simp: drained_def)
qed



text \<open>A machine with an empty memory, whose page tables are all invalid, after the first walk.\<close>

definition faulted_machine :: machine where
  "faulted_machine =
     boot_machine\<lparr>cur_d_reg := zero_d\<lparr>d_will_be_stalled := 2, d_tlb_stall_status := 0x80\<rparr>\<rparr>"

lemma faulted_machine: "fetch_faulted faulted_machine zero_locals" "machine_inv faulted_machine"
  "drained faulted_machine"
  using boot_machine_inv
  by (simp_all add: fetch_faulted_def fetch_waits_def faulted_machine_def boot_machine_def zero_locals_def zero_d_def
      empty_tlb_def machine_inv_def drained_def zero_x_def zero_m_def zero_w_def)


end
