(* ===== verification/Alu_Correctness.thy ===== *)
theory Alu_Correctness
  imports Handler_Correctness
begin

text \<open>
  The 32-bit arithmetic instructions against the instruction set, and all arithmetic together: one
  function \<open>isa_alu\<close> for the results of LUI, OP-IMM, OP, OP-IMM-32 and OP-32, the operands
  \<open>alu_agrees\<close> for which the code computes them, and the agreement through the dispatch table.
\<close>

section \<open>32-bit arithmetic\<close>

text \<open>
  The results of the instruction set: the operation on the low halves, the result extended by its
  sign. \<open>None\<close> for the unused codes.
\<close>

definition isa_op_imm_32 :: "3 word \<Rightarrow> 7 word \<Rightarrow> u32 \<Rightarrow> 12 word \<Rightarrow> u64 option" where
  "isa_op_imm_32 f3 f7 a imm =
     (let shamt = unat (take_bit 5 imm) in
      map_option (scast :: u32 \<Rightarrow> u64)
        (if f3 = 0 then Some (a + scast imm)
         else if f3 = 1 \<and> f7 = 0 then Some (push_bit shamt a)
         else if f3 = 5 \<and> f7 = 0 then Some (drop_bit shamt a)
         else if f3 = 5 \<and> f7 = 0b0100000 then Some (signed_drop_bit shamt a)
         else None))"

definition isa_op_32 :: "3 word \<Rightarrow> 7 word \<Rightarrow> u32 \<Rightarrow> u32 \<Rightarrow> u64 option" where
  "isa_op_32 f3 f7 a b =
     (let shamt = unat (take_bit 5 b); overflow = (b = - 1 \<and> a = 0x80000000) in
      map_option (scast :: u32 \<Rightarrow> u64)
        (if f7 = 0 then
           (if f3 = 0 then Some (a + b) else if f3 = 1 then Some (push_bit shamt a)
            else if f3 = 5 then Some (drop_bit shamt a) else None)
         else if f7 = 0b0100000 then
           (if f3 = 0 then Some (a - b) else if f3 = 5 then Some (signed_drop_bit shamt a) else None)
         else if f7 = 1 then
           (if f3 = 0 then Some (a * b)
            else if f3 = 4 then Some (if b = 0 then - 1 else if overflow then a
                                      else word_of_int (sint a sdiv sint b))
            else if f3 = 5 then Some (if b = 0 then - 1 else a div b)
            else if f3 = 6 then Some (if b = 0 then a else if overflow then 0
                                      else word_of_int (sint a smod sint b))
            else if f3 = 7 then Some (if b = 0 then a else a mod b) else None)
         else None))"

text \<open>
  Where the code agrees: no overflow of a signed sum, difference or product; shift counts below
  32; a result that is not negative where the code extends it with zeros (\<open>slliw\<close>, \<open>srliw\<close>, \<open>sllw\<close>,
  \<open>sraw\<close>, \<open>divuw\<close>, \<open>remuw\<close>); for \<open>srlw\<close>, which the code shifts in 64 bits, a first operand that is
  its own low half; and divisors that are zero only where the code answers like the instruction set
  and whose low half is not zero otherwise.
\<close>

definition fits_32 :: "int \<Rightarrow> bool" where
  "fits_32 r \<longleftrightarrow> - (2 ^ 31) \<le> r \<and> r < 2 ^ 31"

definition op_imm_32_agrees :: "3 word \<Rightarrow> 7 word \<Rightarrow> u32 \<Rightarrow> 12 word \<Rightarrow> bool" where
  "op_imm_32_agrees f3 f7 a imm \<longleftrightarrow>
     (let shamt = unat (take_bit 5 imm) in
      f3 = 0 \<and> fits_32 (sint a + sint imm) \<or>
      f3 = 1 \<and> f7 = 0 \<and> \<not> bit (push_bit shamt a) 31 \<or>
      f3 = 5 \<and> f7 = 0 \<and> \<not> bit (drop_bit shamt a) 31)"

definition op_32_agrees :: "3 word \<Rightarrow> 7 word \<Rightarrow> u64 \<Rightarrow> u64 \<Rightarrow> bool" where
  "op_32_agrees f3 f7 a b \<longleftrightarrow>
     (let p = ucast a :: u32; q = ucast b :: u32;
          divides = (q \<noteq> 0 \<and> \<not> (b = - 1 \<and> a = 0x8000000000000000) \<and> \<not> (q = - 1 \<and> p = 0x80000000)) in
      f7 = 0 \<and> (f3 = 0 \<and> fits_32 (sint p + sint q) \<or>
        f3 = 1 \<and> q < 32 \<and> \<not> bit (push_bit (unat q) p) 31 \<or>
        f3 = 5 \<and> b < 32 \<and> a < 0x80000000) \<or>
      f7 = 0b0100000 \<and> (f3 = 0 \<and> fits_32 (sint p - sint q) \<or> f3 = 5 \<and> q < 32 \<and> \<not> bit p 31) \<or>
      f7 = 1 \<and> (f3 = 0 \<and> no_overflow (uint p * uint q) \<or>
        f3 = 4 \<and> (b = 0 \<or> divides) \<or>
        f3 = 5 \<and> (b = 0 \<or> q \<noteq> 0 \<and> \<not> bit (p div q) 31) \<or>
        f3 = 6 \<and> divides \<or> f3 = 7 \<and> q \<noteq> 0 \<and> \<not> bit (p mod q) 31))"

lemma c_add_u32: "fits_32 (sint a + sint b) \<Longrightarrow> c_add (a :: u32) b = Inr (a + b)"
  and c_sub_u32: "fits_32 (sint a - sint b) \<Longrightarrow> c_sub (a :: u32) b = Inr (a - b)"
  by (simp_all add: c_add_def c_sub_def c_signed_def fits_32_def)

text \<open>A result without a sign is the same extended either way.\<close>

lemma ucast_nonneg:
  assumes "\<not> bit (v :: u32) 31"
  shows "(ucast v :: u64) = scast v"
proof (rule bit_word_eqI)
  fix n assume "n < LENGTH(64)"
  have "bit v n \<Longrightarrow> n < 32" using bit_imp_le_length [of v n] by simp
  with \<open>n < LENGTH(64)\<close> assms show "bit (ucast v :: u64) n = bit (scast v :: u64) n"
    by (cases "n = 31") (auto simp: bit_ucast_iff bit_scast_iff min_def)
qed

lemma unat_take_bit_5: "q < 32 \<Longrightarrow> unat (take_bit 5 (q :: u32)) = unat q"
  by (simp add: unsigned_take_bit_eq take_bit_nat_eq_self_iff word_less_nat_alt)

lemma mask_32: "a AND 0xFFFFFFFF = take_bit 32 (a :: u64)"
  by (simp add: take_bit_eq_mask mask_eq_exp_minus_1)

lemma masked_sint: "sint (take_bit 32 (a :: u64)) = uint (ucast a :: u32)"
proof -
  have "uint (take_bit 32 a) = uint (ucast a :: u32)"
    by (simp add: unsigned_take_bit_eq unsigned_ucast_eq)
  have "uint (ucast a :: u32) < 2 ^ 63" "- (2 ^ 63) \<le> uint (ucast a :: u32)"
    using order_less_trans [OF uint_lt2p [of "ucast a :: u32"], of "2 ^ 63"]
      order_trans [OF _ uint_ge_0 [of "ucast a :: u32"], of "- (2 ^ 63)"] by simp_all
  then have "signed_take_bit 63 (uint (ucast a :: u32)) = uint (ucast a :: u32)"
    by (intro signed_take_bit_int_eq_self)
  with \<open>uint (take_bit 32 a) = uint (ucast a :: u32)\<close> show ?thesis by (simp add: sint_uint)
qed

lemma ucast_mult_u32: "(ucast (a * b :: u64) :: u32) = ucast a * ucast b"
  by (simp add: word_uint_eq_iff uint_word_ariths unsigned_ucast_eq take_bit_eq_mod mod_simps
      mod_mod_cancel)

lemma ucast_take_bit_32: "(ucast (take_bit 32 (a :: u64)) :: u32) = ucast a"
  by (rule bit_word_eqI) (simp add: bit_ucast_iff bit_take_bit_iff)

lemma mulw_low_half:
  fixes a b :: u64
  assumes "no_overflow (uint (ucast a :: u32) * uint (ucast b :: u32))"
  shows "c_mul (a AND 0xFFFFFFFF) (b AND 0xFFFFFFFF) = Inr (take_bit 32 a * take_bit 32 b)"
    and "(ucast (take_bit 32 a * take_bit 32 b AND 0xFFFFFFFF) :: u32) = ucast a * ucast b"
  unfolding mask_32 using assms
  by (simp_all add: c_mul_u64 masked_sint ucast_take_bit_32 ucast_mult_u32)

lemma c_div_u32:
  fixes a b :: u32
  assumes "b \<noteq> 0" "\<not> (b = - 1 \<and> a = 0x80000000)"
  shows "c_div a b = Inr (word_of_int (sint a sdiv sint b))"
    and "c_mod a b = Inr (word_of_int (sint a smod sint b))"
  using c_div_value [of b a] assms sint_min(2) [of a] by simp_all

lemma signed_shift_nonneg: "\<not> bit (p :: u32) 31 \<Longrightarrow> \<not> bit (signed_drop_bit n p) 31"
  by (cases "n = 0") (auto simp: bit_signed_drop_bit_iff dest: bit_imp_le_length)

lemma srlw_value:
  fixes a b :: u64
  assumes "b < 32" "a < 0x80000000"
  shows "c_shr a b = Inr (scast (drop_bit (unat (take_bit 5 (ucast b :: u32))) (ucast a :: u32)))"
proof -
  have "unat (take_bit 5 (ucast b :: u32)) = unat b"
    using assms(1) by (simp add: unsigned_take_bit_eq unsigned_ucast_eq take_bit_nat_eq_self_iff
        word_less_nat_alt)
  moreover have a: "ucast (ucast a :: u32) = a" "\<not> bit (ucast a :: u32) 31"
  proof -
    have "unat a < 2 ^ 31" using assms(2) by (simp add: word_less_nat_alt)
    then have "take_bit 31 a = a"
      by (simp add: word_unat_eq_iff unsigned_take_bit_eq take_bit_nat_eq_self)
    then have "bit a n \<Longrightarrow> n < 31" for n by (metis bit_take_bit_iff)
    then show "ucast (ucast a :: u32) = a" "\<not> bit (ucast a :: u32) 31"
      by (fastforce simp: bit_eq_iff bit_ucast_iff)+
  qed
  moreover have "ucast (drop_bit k (ucast a :: u32)) = drop_bit k a" for k
  proof -
    have "ucast (drop_bit k (ucast a :: u32)) = drop_bit k (ucast (ucast a :: u32) :: u64)"
      by (rule bit_word_eqI) (auto simp: bit_ucast_iff bit_drop_bit_eq dest: bit_imp_le_length)
    then show ?thesis using a(1) by simp
  qed
  moreover have "\<not> bit (drop_bit k (ucast a :: u32)) 31" for k
    using a(2) bit_imp_le_length [of "ucast a :: u32" "k + 31"]
    by (cases "k = 0") (auto simp: bit_drop_bit_eq)
  ultimately show ?thesis
    using assms(1) ucast_nonneg by (simp add: c_shr_def word_less_nat_alt)
qed

text \<open>The shift amount and the immediate of the OP-IMM-32 handlers.\<close>

lemma shift_immediate_32:
  assumes "r_funct7 (data_r w) = 0"
  shows "unat (ucast (i_temp w) :: u32) = unat (take_bit 5 (imm_I w))" "unat (take_bit 5 (imm_I w)) < 32"
proof -
  note s = shift_immediate [OF assms]
  have "take_bit 5 (unat (take_bit 6 (imm_I w))) = unat (take_bit 6 (imm_I w))"
    using s by (intro take_bit_nat_eq_self) simp
  then have "unat (take_bit 5 (imm_I w)) = unat (take_bit 6 (imm_I w))"
    by (simp add: unsigned_take_bit_eq)
  then show "unat (ucast (i_temp w) :: u32) = unat (take_bit 5 (imm_I w))" "unat (take_bit 5 (imm_I w)) < 32"
    using s by (simp_all add: unsigned_ucast_eq take_bit_nat_eq_self_iff)
qed

lemma imm_32:
  fixes i :: "12 word"
  shows "(ucast (scast i :: u64) :: u32) = scast i" "sint (scast i :: u32) = sint i"
proof -
  show "(ucast (scast i :: u64) :: u32) = scast i"
    by (rule bit_word_eqI) (simp add: bit_ucast_iff bit_scast_iff)
  show "sint (scast i :: u32) = sint i"
    by (simp add: signed_scast_eq signed_take_bit_int_eq_self_iff order_less_le_trans
        [OF sint_lt] order_trans [OF _ sint_ge])
qed

lemma op_imm_32_eq:
  assumes "f3 = r_funct3 (data_r w)" "f7 = r_funct7 (data_r w)"
    and "op_imm_32_agrees f3 f7 (w1 x) (imm_I w)"
  shows "\<exists>v. isa_op_imm_32 f3 f7 (w1 x) (imm_I w) = Some v \<and>
    (\<forall>c. riscv_arithmetic1_64_dispatch x w c = Inr (put_reg (r_dest w) v c))"
proof -
  have f3: "i_funct3 (data_i w) = f3" by (simp add: assms(1) data_i_def data_r_def)
  show ?thesis
    using assms(3) shift_immediate_32 [of w]
    unfolding op_imm_32_agrees_def Let_def
    by (elim disjE conjE)
      (simp_all add: riscv_arithmetic1_64_dispatch_def f3 assms(2) [symmetric] isa_op_imm_32_def Let_def
        op_imm_32_handler_defs put_result_def of_i32_def of_u32_def c_add_u32 ucast_nonneg
        i_temp_imm(2) imm_32 c_shl_def c_shr_def dest_views)
qed

lemma op_32_eq:
  assumes "f3 = r_funct3 (data_r w)" "f7 = r_funct7 (data_r w)"
    and "op_32_agrees f3 f7 (x_rs1_value x) (x_rs2_value x)"
  shows "\<exists>v. isa_op_32 f3 f7 (w1 x) (w2 x) = Some v \<and>
    (\<forall>c. riscv_arithmetic2_64_dispatch x w c = Inr (put_reg (r_dest w) v c))"
proof -
  have nz: "w2 x \<noteq> 0 \<Longrightarrow> x_rs2_value x \<noteq> 0" by auto
  show ?thesis
    using assms(3)
    unfolding op_32_agrees_def Let_def
    by (elim disjE conjE)
      (simp_all add: riscv_arithmetic2_64_dispatch_def assms(1,2) [symmetric] isa_op_32_def Let_def nz
        op_32_handler_defs put_result_def of_i32_def of_u32_def c_add_u32 c_sub_u32 c_div_u32 mulw_low_half
        ucast_nonneg signed_shift_nonneg unat_take_bit_5 srlw_value c_shl_def c_sar_def word_less_nat_alt, blast+)
qed

text \<open>
  Property C14: 32-bit arithmetic. On the operands of \<open>op_imm_32_agrees\<close> and \<open>op_32_agrees\<close> the
  handlers of OP-IMM-32 and OP-32 compute the results of the instruction set from the low halves of
  their operands, division by zero included, and prepare the write of the extended result to the
  destination register.
\<close>
theorem op_word_correct:
  assumes "f3 = r_funct3 (data_r w)" "f7 = r_funct7 (data_r w)"
  shows "(op_imm_32_agrees f3 f7 (w1 x) (imm_I w) \<longrightarrow>
      (\<exists>v. isa_op_imm_32 f3 f7 (w1 x) (imm_I w) = Some v \<and>
        riscv_arithmetic1_64_dispatch x w c = Inr (put_reg (r_dest w) v c))) \<and>
    (op_32_agrees f3 f7 (x_rs1_value x) (x_rs2_value x) \<longrightarrow>
      (\<exists>v. isa_op_32 f3 f7 (w1 x) (w2 x) = Some v \<and>
        riscv_arithmetic2_64_dispatch x w c = Inr (put_reg (r_dest w) v c)))"
  using op_imm_32_eq [OF assms] op_32_eq [OF assms] by blast

text \<open>\<open>divw x3, x1, x2\<close> with -7 in x1 and 2 in x2.\<close>

theorem op_word_correct_witness:
  "riscv_arithmetic2_64_dispatch (zero_x\<lparr>x_rs1_value := - 7, x_rs2_value := 2\<rparr>) 0x0220C1BB fresh_ctx =
     Inr (put_reg 3 (- 3) fresh_ctx)"
proof -
  have f: "4 = r_funct3 (data_r 0x0220C1BB)" "1 = r_funct7 (data_r 0x0220C1BB)" "r_dest 0x0220C1BB = 3"
    by (simp_all add: data_r_def r_dest_def)
  let ?x = "zero_x\<lparr>x_rs1_value := - 7, x_rs2_value := 2\<rparr>"
  have "op_32_agrees 4 1 (x_rs1_value ?x) (x_rs2_value ?x)"
    by (simp add: op_32_agrees_def Let_def)
  moreover have "isa_op_32 4 1 (w1 ?x) (w2 ?x) = Some (- 3)"
    by (simp add: isa_op_32_def Let_def)
  ultimately show ?thesis
    using op_word_correct [OF f(1,2), of ?x fresh_ctx] by (auto simp: f(3))
qed

section \<open>Arithmetic through the dispatch table\<close>

text \<open>
  The result of the instruction set for every arithmetic instruction word except \<open>auipc\<close>, from its
  two operands, and the operands for which the code computes it.
\<close>

definition isa_alu :: "u32 \<Rightarrow> u64 \<Rightarrow> u64 \<Rightarrow> u64 option" where
  "isa_alu w a b =
     (let opcode = r_opcode (data_r w); f3 = r_funct3 (data_r w); f7 = r_funct7 (data_r w) in
      if opcode = 0b0110111 then Some (scast (imm_U w))
      else if opcode = 0b0010011 then isa_op_imm f3 f7 a (imm_I w)
      else if opcode = 0b0110011 then isa_op f3 f7 a b
      else if opcode = 0b0011011 then isa_op_imm_32 f3 f7 (ucast a) (imm_I w)
      else if opcode = 0b0111011 then isa_op_32 f3 f7 (ucast a) (ucast b)
      else None)"

definition alu_agrees :: "u32 \<Rightarrow> u64 \<Rightarrow> u64 \<Rightarrow> bool" where
  "alu_agrees w a b \<longleftrightarrow>
     (let opcode = r_opcode (data_r w); f3 = r_funct3 (data_r w); f7 = r_funct7 (data_r w) in
      opcode = 0b0110111 \<or>
      opcode = 0b0010011 \<and> (f3 = 0 \<longrightarrow> no_overflow (sint a + sint (imm_I w))) \<and>
        (f3 = 3 \<longrightarrow> \<not> bit (imm_I w) 11) \<and> (f3 \<in> {1, 5} \<longrightarrow> f7 = 0) \<or>
      opcode = 0b0110011 \<and> op_agrees f3 f7 a b \<or>
      opcode = 0b0011011 \<and> op_imm_32_agrees f3 f7 (ucast a) (imm_I w) \<or>
      opcode = 0b0111011 \<and> op_32_agrees f3 f7 a b)"

lemma lui_eq: "riscv_lui x w c = Inr (put_reg (r_dest w) (scast (imm_U w)) c)"
proof -
  have "push_bit 12 (ucast (u_imm (data_u w))) = imm_U w"
    by (rule bit_word_eqI)
      (auto simp: imm_U_def data_u_def bit_push_bit_iff bit_ucast_iff bit_drop_bit_eq
        dest: bit_imp_le_length)
  moreover have "(ucast (scast v :: u64) :: u32) = v" for v
  proof (rule bit_word_eqI)
    fix n assume "n < LENGTH(32)"
    then show "bit (ucast (scast v :: u64) :: u32) n = bit v n"
      by (cases "n = 31") (auto simp: bit_ucast_iff bit_scast_iff min_def)
  qed
  ultimately show ?thesis by (simp add: riscv_lui_def Let_def dest_views)
qed

lemma isa_op_imm_defined: "(f3 \<in> {1, 5} \<longrightarrow> f7 = 0) \<Longrightarrow> \<exists>v. isa_op_imm f3 f7 a imm = Some v"
  by (auto simp: isa_op_imm_def Let_def)

lemma alu_dispatch:
  assumes "alu_agrees w (x_rs1_value x) (x_rs2_value x)"
  shows "\<exists>v. isa_alu w (x_rs1_value x) (x_rs2_value x) = Some v \<and>
    (\<forall>c. major_dispatch_table (u_opcode (data_u w)) x w c = Inr (put_reg (r_dest w) v c))"
proof -
  define f3 f7 where f: "f3 = r_funct3 (data_r w)" "f7 = r_funct7 (data_r w)"
  have views: "u_opcode (data_u w) = r_opcode (data_r w)" "f3 = i_funct3 (data_i w)"
    by (simp_all add: f data_u_def data_r_def data_i_def)
  note parts = op_eq [OF f, of x] op_imm_32_eq [OF f, of x] op_32_eq [OF f, of x]
  show ?thesis
    using assms isa_op_imm_defined [of f3 f7 "x_rs1_value x" "imm_I w"]
      op_imm_eq [OF views(2) f(2), of x] parts
    unfolding alu_agrees_def isa_alu_def Let_def f [symmetric] views(1) major_dispatch_table_def
    by (elim disjE conjE) (simp_all add: lui_eq dest_views, blast+)
qed

end
