(* ===== verification/Hazards.thy ===== *)
theory Hazards
  imports Simulator Alu_Correctness
begin

text \<open>
  Data hazards across cycles: what an instruction that leaves decode has read, and how a result
  reaches the register file. The lemmas follow an instruction from the decode register through
  execute and memory to write-back, over the cycles of \<open>simulator_execute_instructions\<close>.
\<close>

section \<open>Operands across a cycle\<close>

lemma execute_initialised: "stage_execute s m = Inr (m', t) \<Longrightarrow> has_initialised s \<Longrightarrow> has_initialised t"
  by (auto simp: stage_execute_def finish_execute_def Let_def intro: initialise_keeps(7)
      split: sum.splits if_splits)

lemma in_stage_initialised [simp]: "has_initialised (in_stage b s) = has_initialised s"
  by (simp add: in_stage_def)

text \<open>The decode stage of a cycle, with the state it sees.\<close>

lemma cycle_decode:
  assumes "cycle s l = Inr (s', l')" "machine_inv s"
  obtains t u where "stage_decode t (new_x_reg l) = Inr (cur_x_reg s', u)" "mid_cycle s t"
    "has_initialised t"
proof (rule cycle_stages [OF assms])
  fix s1 s2 s3 s4 s5 w m x d
  assume "stage_execute (in_stage STAGE_X_BIT s2) (new_m_reg l) = Inr (m, s3)" "has_initialised s2"
    "stage_decode (in_stage STAGE_D_BIT s3) (new_x_reg l) = Inr (x, s4)"
    "s' = s5\<lparr>cur_d_reg := d, cur_x_reg := x, cur_m_reg := m, cur_w_reg := w,
       fw := memory_retire_completed ((fw s5)\<lparr>cycle_counter := cycle_counter (fw s5) + 1\<rparr>)\<rparr>"
    "mid_cycle s s3"
  then show thesis
    using that [of "in_stage STAGE_D_BIT s3"] execute_initialised by fastforce
qed

text \<open>During a cycle the register file already holds the value in the write-back register.\<close>

lemma mid_cycle_registers:
  assumes "mid_cycle s t" "machine_inv s"
  shows "regs_usable (fw t)" "register_cycle_reads (fw t) \<le> 1" "fw t = retired_w t (fw t)"
    "wf_w (cur_w_reg t)" "cur_m_reg t = cur_m_reg s" "cur_w_reg t = cur_w_reg s" "cur_d_reg t = cur_d_reg s"
proof -
  have t: "machine_inv t" "same_regs s t" "register_file (fw t) = file_after_writeback s"
    using assms(1) by (simp_all add: mid_cycle_def)
  then show "regs_usable (fw t)" "register_cycle_reads (fw t) \<le> 1" "wf_w (cur_w_reg t)"
    "cur_m_reg t = cur_m_reg s" "cur_w_reg t = cur_w_reg s" "cur_d_reg t = cur_d_reg s"
    by (simp_all add: machine_inv_def wf_framework_def regs_usable_def same_regs_def)
  then show "fw t = retired_w t (fw t)"
    using t by (auto simp: retired_w_def register_write_def file_after_writeback_def
        RISCV_NUM_REGISTERS_def)
qed

lemma read_small: "r < 32 \<Longrightarrow> register_read_one f r = (if r = 0 then 0 else register_file f ! unat r)"
  using small_mod [of r] by (simp add: register_read_one_def RISCV_NUM_REGISTERS_def word_gt_0)

text \<open>What the memory stage hands on, by the kind of access it finds.\<close>

lemma memory_result:
  assumes "stage_memory s w = Inr (w', t)" "w_tainted_executions (cur_w_reg s) = 0" "m = cur_m_reg s"
  shows "m_readWrite m = 3 \<Longrightarrow> w_op w' = 1 \<and> w_reg w' = m_reg m \<and> w_value w' = m_value m"
    "m_readWrite m \<noteq> 3 \<Longrightarrow> w_op w' = 0 \<or> m_readWrite m = 2 \<and> w_reg w' = m_reg m"
proof -
  from assms(1) obtain u where u: "initialise s = Inr u"
    by (auto simp: stage_memory_def split: sum.splits)
  have m: "cur_m_reg u = m" "cur_w_reg u = cur_w_reg s"
    using initialise_keeps(1) [OF u] assms(3) by (simp_all add: same_regs_def)
  show "m_readWrite m = 3 \<Longrightarrow> w_op w' = 1 \<and> w_reg w' = m_reg m \<and> w_value w' = m_value m"
    using assms(1,2) u m by (auto simp: stage_memory_def Let_def)
  show "m_readWrite m \<noteq> 3 \<Longrightarrow> w_op w' = 0 \<or> m_readWrite m = 2 \<and> w_reg w' = m_reg m"
    using assms(1,2) u m
    by (auto simp: stage_memory_def Let_def memory_load_access_def memory_store_access_def
        memory_stalled_def memory_nop_def split: sum.splits if_splits)
qed

text \<open>
  The registers an instruction has to see when it leaves decode: those after the next cycle, in
  which the older instructions in the memory and the write-back register have retired.
\<close>

lemma retired_next_cycle:
  assumes inv: "machine_inv s" and c1: "cycle s l = Inr (s1, l1)" and c2: "cycle s1 l1 = Inr (s2, l2)"
    and t: "mid_cycle s t" and stall: "w_global_memory_stall (cur_w_reg s) = 0"
    and load: "m_readWrite (cur_m_reg s) = 2 \<Longrightarrow> m_reg (cur_m_reg s) \<noteq> r" and r: "r < 32"
  shows "register_read_one (retired t (fw t)) r = register_read_one (fw s2) r"
proof -
  have files: "register_file (fw s2) = file_after_writeback s1" "register_file (fw s1) = file_after_writeback s"
    using cycle_keeps(2) [OF c2 cycle_keeps(1) [OF c1 inv]] cycle_keeps(2) [OF c1 inv] by simp_all
  have t': "register_file (fw t) = register_file (fw s1)" using t files(2) by (simp add: mid_cycle_def)
  have len: "length (register_file (fw s1)) = 32" "wf_m (cur_m_reg s)" "wf_w (cur_w_reg s)"
    using cycle_keeps(1) [OF c1 inv] inv by (simp_all add: machine_inv_def wf_framework_def)
  have wr: "w_reg (cur_w_reg s1) < 32" using cycle_keeps(1) [OF c1 inv] by (simp add: machine_inv_def wf_w_def)
  obtain a b where mem: "stage_memory (in_stage STAGE_M_BIT a) (new_w_reg l) = Inr (cur_w_reg s1, b)"
    "same_regs s a"
    using cycle_memory [OF c1 inv] by blast
  have "w_tainted_executions (cur_w_reg (in_stage STAGE_M_BIT a)) = 0" "cur_m_reg s = cur_m_reg (in_stage STAGE_M_BIT a)"
    using len(3) stall mem(2) by (auto simp: wf_w_def same_regs_def)
  note w = memory_result [OF mem(1) this]
  note tr = mid_cycle_registers [OF t inv]
  have small: "v < 32 \<Longrightarrow> unat (v mod 32) = unat r \<longleftrightarrow> v = r" for v :: u64
    using small_mod by (auto simp: word_unat_eq_iff)
  have "retired_w t (fw t) = fw t" using tr(3) by simp
  then have "register_read_one (retired t (fw t)) r = (if m_readWrite (cur_m_reg s) = 3 \<and>
      r = m_reg (cur_m_reg s) \<and> r \<noteq> 0 then m_value (cur_m_reg s) else register_read_one (fw t) r)"
    using regs.rd_wr [OF tr(1)] tr(5) len(2) small_mod [OF r] small_mod [of "m_reg (cur_m_reg s)"]
    by (auto simp: retired_def wf_m_def)
  moreover have "register_read_one (fw s2) r = (if w_op (cur_w_reg s1) \<noteq> 0 \<and>
      r = w_reg (cur_w_reg s1) \<and> r \<noteq> 0 then w_value (cur_w_reg s1) else register_read_one (fw s1) r)"
    using len(1) r small [OF wr] wr
    by (auto simp: read_small files(1) file_after_writeback_def nth_list_update word_less_nat_alt)
  moreover have "register_read_one (fw t) r = register_read_one (fw s1) r"
    using t' by (simp add: read_small [OF r])
  ultimately show ?thesis
    using w load by (cases "m_readWrite (cur_m_reg s) = 3") auto
qed

lemma issued_operands:
  assumes "machine_inv s" "cycle s l = Inr (s1, l1)" "cycle s1 l1 = Inr (s2, l2)"
    and "x = cur_x_reg s1" "x_not_stalled x \<noteq> 0"
    and "operand_registers (d_instruction (cur_d_reg s)) = (rs1, rs2, rd)"
  shows "x_pc x = d_pc (cur_d_reg s) \<and> x_instruction x = d_instruction (cur_d_reg s) \<and>
    (x_rs1 x, x_rs2 x, x_rd x) = (rs1, rs2, rd) \<and>
    (rs1 \<noteq> - 1 \<and> rs1 \<noteq> 0 \<longrightarrow> x_rs1_value x = register_read_one (fw s2) (scast rs1)) \<and>
    (rs2 \<noteq> - 1 \<and> rs2 \<noteq> 0 \<longrightarrow> x_rs2_value x = register_read_one (fw s2) (scast rs2)) \<and>
    \<not> (m_readWrite (cur_m_reg s) = 2 \<and> m_reg (cur_m_reg s) \<in> {scast rs1, scast rs2, scast rd})"
proof -
  obtain t u where dec: "stage_decode t (new_x_reg l) = Inr (x, u)" and t: "mid_cycle s t"
    and ini: "has_initialised t"
    using cycle_decode [OF assms(2,1)] assms(4) by metis
  note tr = mid_cycle_registers [OF t assms(1)]
  have ops: "operand_registers (d_instruction (cur_d_reg t)) = (rs1, rs2, rd)"
    using assms(6) tr(7) by simp
  have "wf_m (cur_m_reg t)" using assms(1) tr(5) by (simp add: machine_inv_def)
  then have m: "w_reg (cur_w_reg t) < 32" "quiet_w (cur_w_reg t)"
    "m_readWrite (cur_m_reg t) = 3 \<longrightarrow> m_reg (cur_m_reg t) < 32"
    using tr(4) by (simp_all add: wf_w_def wf_m_def)
  note issued = decode_issued [OF dec assms(5) ini ops]
  have small: "rs1 \<noteq> - 1 \<Longrightarrow> scast rs1 < (32 :: u64)" "rs2 \<noteq> - 1 \<Longrightarrow> scast rs2 < (32 :: u64)"
    using operand_registers_cases [OF ops] register_field by auto
  have stall: "w_global_memory_stall (cur_w_reg s) = 0" using issued(3) tr(6) by simp
  note next_cycle = retired_next_cycle [OF assms(1-3) t]
  show ?thesis
    using decode_operands_correct [OF dec assms(5) ini tr(1) m(2) tr(3,2) m(3,1) ops]
      next_cycle(1) [OF stall _ small(1)] next_cycle(1) [OF stall _ small(2)] tr(5,7)
    by auto
qed

lemma issued_zero:
  assumes "machine_inv s" "cycle s l = Inr (s1, l1)" "zero_kept s"
    and "x = cur_x_reg s1" "x_not_stalled x \<noteq> 0"
    and "operand_registers (d_instruction (cur_d_reg s)) = (rs1, rs2, rd)"
  shows "(rs1 = 0 \<longrightarrow> x_rs1_value x = 0) \<and> (rs2 = 0 \<longrightarrow> x_rs2_value x = 0)"
proof -
  obtain t u where dec: "stage_decode t (new_x_reg l) = Inr (x, u)" and t: "mid_cycle s t"
    and ini: "has_initialised t"
    using cycle_decode [OF assms(2,1)] assms(4) by metis
  note tr = mid_cycle_registers [OF t assms(1)]
  have ops: "operand_registers (d_instruction (cur_d_reg t)) = (rs1, rs2, rd)"
    and kept: "zero_kept t"
    using assms(3,6) tr(5-7) by (simp_all add: zero_kept_def)
  show ?thesis
    using decode_reads(2,3) [OF dec assms(5) ini ops] forward_zero [OF _ kept tr(2)] by fastforce
qed

text \<open>
  Property C10: operands. Take a machine in which decode issues an instruction during a cycle, and
  let the next cycle complete. Each source register other than register 0 has been read with the
  value the register file has after that next cycle, when both older instructions that were still
  on their way have retired, whether it came from the register file or was forwarded; the
  instruction is the one fetch had delivered, and no load is about to write one of its registers.
\<close>
theorem issued_operands_architectural:
  assumes "machine_inv s" "cycle s l = Inr (s1, l1)" "cycle s1 l1 = Inr (s2, l2)"
    and "x = cur_x_reg s1" "x_not_stalled x \<noteq> 0"
    and "operand_registers (d_instruction (cur_d_reg s)) = (rs1, rs2, rd)"
  shows "x_pc x = d_pc (cur_d_reg s) \<and> x_instruction x = d_instruction (cur_d_reg s) \<and>
    (x_rs1 x, x_rs2 x, x_rd x) = (rs1, rs2, rd) \<and>
    (rs1 \<noteq> - 1 \<and> rs1 \<noteq> 0 \<longrightarrow> x_rs1_value x = register_read_one (fw s2) (scast rs1)) \<and>
    (rs2 \<noteq> - 1 \<and> rs2 \<noteq> 0 \<longrightarrow> x_rs2_value x = register_read_one (fw s2) (scast rs2)) \<and>
    \<not> (m_readWrite (cur_m_reg s) = 2 \<and> m_reg (cur_m_reg s) \<in> {scast rs1, scast rs2, scast rd})"
  by (rule issued_operands [OF assms])

section \<open>An instruction from decode to write-back\<close>

lemma execute_alu:
  assumes "stage_execute s m = Inr (m', t)" "cur_x_reg s = x" "w = x_instruction x"
    and "w_global_memory_stall (cur_w_reg s) = 0" "x_not_stalled x \<noteq> 0"
    and "m_tainted_executions (cur_m_reg s) = 0" "w \<noteq> 0"
    and "\<And>c. major_dispatch_table (u_opcode (data_u w)) x w c = Inr (put_reg (r_dest w) v c)"
  shows "m_readWrite m' = 3 \<and> m_reg m' = r_dest w \<and> m_value m' = v"
  using assms
  by (auto simp: stage_execute_def Let_def finish_execute_def put_reg_def
      prepare_register_write_def split: sum.splits if_splits)

text \<open>Results depend on the operands an instruction has, and on no other.\<close>

lemma alu_operands:
  assumes "operand_registers w = (rs1, rs2, rd)" "rs1 \<noteq> - 1 \<longrightarrow> a = a'" "rs2 \<noteq> - 1 \<longrightarrow> b = b'"
  shows "isa_alu w a b = isa_alu w a' b'" "alu_agrees w a b = alu_agrees w a' b'"
proof -
  have op: "i_opcode (data_i w) = r_opcode (data_r w)" by (simp add: data_i_def data_r_def)
  have "r_opcode (data_r w) \<in> {0b0010011, 0b0011011} \<Longrightarrow> a = a'"
    "r_opcode (data_r w) \<in> {0b0110011, 0b0111011} \<Longrightarrow> a = a' \<and> b = b'"
    using assms register_field(3)
    by (auto simp: operand_registers_def decoding_type_def op Let_def split: if_splits)
  then show "isa_alu w a b = isa_alu w a' b'" "alu_agrees w a b = alu_agrees w a' b'"
    unfolding isa_alu_def alu_agrees_def Let_def by auto
qed

lemma alu_word: "alu_agrees w a b \<Longrightarrow> w \<noteq> 0"
  by (auto simp: alu_agrees_def Let_def data_r_def)

text \<open>Once such an instruction is in the execute register, three cycles write its result back.\<close>

lemma execute_retires:
  assumes inv: "machine_inv s" and c: "cycle s l = Inr (s1, l1)" "cycle s1 l1 = Inr (s2, l2)"
    "cycle s2 l2 = Inr (s3, l3)"
    and x: "w = x_instruction (cur_x_reg s)" "x_not_stalled (cur_x_reg s) \<noteq> 0" "w \<noteq> 0"
    and flags: "m_tainted_executions (cur_m_reg s) = 0" "w_global_memory_stall (cur_w_reg s) = 0"
      "w_global_memory_stall (cur_w_reg s1) = 0"
    and disp: "\<And>c. major_dispatch_table (u_opcode (data_u w)) (cur_x_reg s) w c = Inr (put_reg (r_dest w) v c)"
  shows "register_file (fw s3) = (register_file (fw s2))[unat (r_rd (data_r w)) := v]"
proof -
  have inv1: "machine_inv s1" using cycle_keeps(1) [OF c(1) inv] .
  from cycle_execute [OF c(1) inv] obtain t u where
    ex: "stage_execute (in_stage STAGE_X_BIT t) (new_m_reg l) = Inr (cur_m_reg s1, u)" and t: "same_regs s t"
    by blast
  have "m_readWrite (cur_m_reg s1) = 3 \<and> m_reg (cur_m_reg s1) = r_dest w \<and> m_value (cur_m_reg s1) = v"
    using t x flags by (intro execute_alu [OF ex _ _ _ _ _ x(3) disp]) (simp_all add: same_regs_def)
  moreover have "w_tainted_executions (cur_w_reg s1) = 0"
    using inv1 flags(3) by (auto simp: machine_inv_def wf_w_def)
  moreover have "unat (r_dest w mod 32) = unat (r_rd (data_r w))"
    using small_mod [OF r_dest_small [of w]] by (simp add: r_dest_def unat_ucast_up)
  ultimately show ?thesis
    using register_write_retires [OF inv1 c(2,3)] by simp
qed

section \<open>A run\<close>

text \<open>
  \<open>addi x5, x1, -3\<close> in decode, with a result 10 for x1 in the memory register, in a machine whose
  fetch waits.
\<close>

definition issue_machine :: machine where
  "issue_machine = faulted_machine\<lparr>fw := (fw faulted_machine)\<lparr>program_counter := 4\<rparr>,
     cur_d_reg := (cur_d_reg faulted_machine)\<lparr>d_new_pc := 4,
       d_instruction := 0xFFD08293, d_not_stalled := 1\<rparr>,
     cur_x_reg := zero_x\<lparr>x_rd := - 1\<rparr>, cur_m_reg := zero_m\<lparr>m_readWrite := 3, m_reg := 1, m_value := 10\<rparr>\<rparr>"

lemma issue_operands: "operand_registers 0xFFD08293 = (1, - 1, 5)"
  by (simp add: operand_registers_def decoding_type_def data_i_def Let_def)

lemma issue_machine: "machine_inv issue_machine" "fetch_waits issue_machine zero_locals" "zero_kept issue_machine"
  using faulted_machine(1,2)
  by (simp_all add: issue_machine_def machine_inv_def wf_m_def fetch_waits_def fetch_faulted_def
      zero_m_def zero_kept_def faulted_machine_def boot_machine_def zero_w_def wf_framework_def)

definition issued_x :: "stage_reg_x \<Rightarrow> bool" where
  "issued_x x \<longleftrightarrow> x_instruction x = 0xFFD08293 \<and> x_not_stalled x = 1 \<and> x_pc x = 0 \<and> x_new_pc x = 4 \<and>
     x_rs1_value x = 10"

lemma issue_decode:
  assumes "same_regs issue_machine t" "has_initialised t"
  shows "\<exists>x. stage_decode t zero_x = Inr (x, t) \<and> issued_x x"
proof -
  have regs: "ucast (r_rs1 (data_r 0xFFD08293)) = (1 :: u64)" by (simp add: data_r_def)
  show ?thesis
    using assms
    by (simp add: stage_decode_def initialise_def same_regs_def issue_machine_def faulted_machine_def
        boot_machine_def zero_d_def zero_w_def zero_m_def zero_x_def Let_def issue_operands regs
        forwarded_register_read_def forwarded_register_read_single_def issued_x_def)
qed

lemma addi_opcode: "u_opcode (data_u 0xFFD08293) = 0b0010011"
  by (simp add: data_u_def)

lemma addi_table:
  assumes "x_rs1_value x = 10"
  shows "\<exists>v. \<forall>c. major_dispatch_table 0b0010011 x 0xFFD08293 c = Inr (put_reg (r_dest 0xFFD08293) v c)"
proof -
  have "alu_agrees 0xFFD08293 (x_rs1_value x) (x_rs2_value x)"
    using assms by (simp add: alu_agrees_def Let_def data_r_def imm_I_def no_overflow_def)
  from alu_dispatch [OF this] show ?thesis unfolding addi_opcode by blast
qed

lemma issue_execute:
  assumes "issued_x (cur_x_reg s)" "m_tainted_executions (cur_m_reg s) = 0"
    "w_global_memory_stall (cur_w_reg s) = 0" "same_regs s t" "has_initialised t"
  shows "\<exists>m' p. stage_execute t m = Inr (m', t\<lparr>printed := p\<rparr>) \<and> m_readWrite m' = 3"
proof -
  obtain v where v: "\<And>c. major_dispatch_table 0b0010011 (cur_x_reg s) 0xFFD08293 c =
      Inr (put_reg (r_dest 0xFFD08293) v c)"
    using addi_table [of "cur_x_reg s"] assms(1) by (auto simp: issued_x_def)
  show ?thesis
    using assms
    by (simp add: stage_execute_def initialise_def same_regs_def Let_def addi_opcode v issued_x_def
        finish_execute_def put_reg_def prepare_register_write_def)
      (rule exI [of _ "printed t"], simp)
qed

lemma issue_run:
  obtains s1 l1 s2 l2 s3 l3 s4 l4 where
    "cycle issue_machine zero_locals = Inr (s1, l1)" "cycle s1 l1 = Inr (s2, l2)"
    "cycle s2 l2 = Inr (s3, l3)" "cycle s3 l3 = Inr (s4, l4)" "issued_x (cur_x_reg s1)"
    "m_tainted_executions (cur_m_reg s1) = 0" "w_global_memory_stall (cur_w_reg s1) = 0"
    "w_global_memory_stall (cur_w_reg s2) = 0" "fetch_faulted s1 l1" "fetch_faulted s2 l2"
proof -
  let ?s = issue_machine
  have m: "m_readWrite (cur_m_reg ?s) \<notin> {1, 2}" "w_tainted_executions (cur_w_reg ?s) = 0"
    "w_global_memory_stall (cur_w_reg ?s) = 0" "x_not_stalled (cur_x_reg ?s) = 0" "new_x_reg zero_locals = zero_x"
    by (simp_all add: issue_machine_def faulted_machine_def boot_machine_def zero_w_def zero_x_def zero_locals_def)
  obtain s1 l1 where 1: "cycle ?s zero_locals = Inr (s1, l1)" "fetch_faulted s1 l1"
    "m_readWrite (cur_m_reg s1) = 0" "m_tainted_executions (cur_m_reg s1) = 0" "issued_x (cur_x_reg s1)"
    "w_tainted_executions (cur_w_reg s1) = 0" "w_global_memory_stall (cur_w_reg s1) = 0"
    using fetch_waits_cycle [OF issue_machine(2) m(1-3) idle_execute [OF m(4,3)], of issued_x]
      issue_decode m(5) by auto
  then obtain s2 l2 where 2: "cycle s1 l1 = Inr (s2, l2)" "fetch_faulted s2 l2"
    "m_readWrite (cur_m_reg s2) = 3" "x_not_stalled (cur_x_reg s2) = 0"
    "w_tainted_executions (cur_w_reg s2) = 0" "w_global_memory_stall (cur_w_reg s2) = 0"
    using fetch_faulted_cycle [OF 1(2) _ 1(6,7) issue_execute [OF 1(5,4,7)]] by auto
  then obtain s3 l3 where 3: "cycle s2 l2 = Inr (s3, l3)" "fetch_faulted s3 l3" "drained s3"
    using fetch_faulted_cycle [OF 2(2) _ 2(5,6) idle_execute [OF 2(4,6)]] by (auto simp: drained_def)
  obtain s4 l4 where "cycle s3 l3 = Inr (s4, l4)" using drained_cycle [OF 3(2,3)] by blast
  with 1 2 3 that show thesis by blast
qed

theorem issued_operands_architectural_witness:
  "\<exists>s1 l1 s2 l2. cycle issue_machine zero_locals = Inr (s1, l1) \<and> cycle s1 l1 = Inr (s2, l2) \<and>
    x_rs1_value (cur_x_reg s1) = 10 \<and> register_read_one (fw s2) 1 = 10"
proof (rule issue_run)
  fix s1 l1 s2 l2
  assume c: "cycle issue_machine zero_locals = Inr (s1, l1)" "cycle s1 l1 = Inr (s2, l2)"
    and x: "issued_x (cur_x_reg s1)"
  then have x': "x_not_stalled (cur_x_reg s1) \<noteq> 0" "x_rs1_value (cur_x_reg s1) = 10"
    by (simp_all add: issued_x_def)
  have "operand_registers (d_instruction (cur_d_reg issue_machine)) = (1, - 1, 5)"
    by (simp add: issue_machine_def issue_operands)
  from issued_operands_architectural [OF issue_machine(1) c refl x'(1) this] c x'(2) show ?thesis by auto
qed

end
