(* ===== verification/Control_Flow.thy ===== *)
theory Control_Flow
  imports Hazards
begin

text \<open>
  Control flow: where the fetch of a cycle takes place. Three stages set the program counter before
  fetch reads it, and the last one wins: execute (a mispredicted branch or jump, or a memory access
  that stalled), then decode (an operand that is not ready). \<open>fetch_address\<close> says so in one place;
  the theorems follow redirects, flushes and restarted accesses from it.
\<close>

section \<open>What the stages do to the program counter\<close>

text \<open>The address of the next instruction, as the handlers compute it.\<close>

definition next_pc :: "stage_reg_x \<Rightarrow> u64" where
  "next_pc x =
     (let w = x_instruction x; opcode = u_opcode (data_u w) in
      if opcode = 0b1101111 then x_pc x + scast (imm_J w)
      else if opcode = 0b1100111 then x_rs1_value x + scast (imm_I w)
      else if opcode = 0b1100011 \<and>
              branch_cond (i_funct3 (data_i w)) (x_rs1_value x) (x_rs2_value x) = Some True
      then x_pc x + scast (branch_range w)
      else x_pc x + 4)"

lemma dispatch_next_pc:
  assumes "major_dispatch_table (u_opcode (data_u (x_instruction x))) x (x_instruction x) c = Inr c'"
    and "ctx_pc c = x_pc x + 4"
  shows "ctx_pc c' = next_pc x"
proof -
  let ?w = "x_instruction x"
  let ?o = "u_opcode (data_u ?w)"
  consider (alu) "?o \<in> {0b0010011, 0b0011011, 0b0110011, 0b0111011}"
    | (jal) "?o = 0b1101111" | (jalr) "?o = 0b1100111" | (branch) "?o = 0b1100011"
    | (rest) "?o \<notin> {0b0010011, 0b0011011, 0b0110011, 0b0111011, 0b1101111, 0b1100111, 0b1100011}"
    by blast
  then show ?thesis
  proof cases
    case alu
    then have "alu_outcome ?w c c'"
      using assms(1) by (auto simp: major_dispatch_table_def intro: arithmetic_outcome)
    then have "ctx_pc c' = ctx_pc c" by (auto simp: alu_outcome_def put_reg_def)
    with alu assms(2) show ?thesis by (auto simp: next_pc_def Let_def)
  next
    case branch
    with assms show ?thesis
      by (auto simp: major_dispatch_table_def branch_dispatch_eq illegal_Inr next_pc_def Let_def
          split: option.splits bool.splits)
  next
    case rest
    then have "ctx_pc c' = ctx_pc c"
      using assms(1)
      by (auto simp: major_dispatch_table_def load_dispatch_eq store_dispatch_eq riscv_auipc_def
          riscv_lui_def riscv_nop_def illegal_Inr put_reg_def Let_def split: if_splits option.splits)
    with rest assms(2) show ?thesis by (auto simp: next_pc_def Let_def)
  qed (use assms in \<open>auto simp: major_dispatch_table_def jal_eq jalr_eq next_pc_def Let_def put_reg_def\<close>)
qed

text \<open>The instruction in the execute register takes effect in this cycle.\<close>

definition executes :: "machine \<Rightarrow> bool" where
  "executes s \<longleftrightarrow>
     w_global_memory_stall (cur_w_reg s) = 0 \<and> x_not_stalled (cur_x_reg s) \<noteq> 0 \<and>
     m_tainted_executions (cur_m_reg s) = 0 \<and> x_instruction (cur_x_reg s) \<noteq> 0"

definition mispredicted :: "machine \<Rightarrow> bool" where
  "mispredicted s \<longleftrightarrow> executes s \<and> next_pc (cur_x_reg s) \<noteq> x_new_pc (cur_x_reg s)"

text \<open>The execute stage, by what it finds in the registers before it.\<close>

lemma execute_idle:
  assumes "stage_execute s m = Inr (m', t)" "w_global_memory_stall (cur_w_reg s) = 0" "\<not> executes s"
  shows "program_counter (fw t) = program_counter (fw s) \<and> btable t = btable s \<and> m_readWrite m' = 0 \<and>
    m_pc m' = x_pc (cur_x_reg s) \<and> m_tainted_executions m' =
      (if x_not_stalled (cur_x_reg s) = 0 then 0 else m_tainted_executions (cur_m_reg s) - 
        of_bool (m_tainted_executions (cur_m_reg s) \<noteq> 0))"
  using assms
  by (auto simp: stage_execute_def executes_def Let_def word_gt_0 dest: initialise_keeps
      split: sum.splits if_splits)

lemma execute_active:
  assumes "stage_execute s m = Inr (m', t)" "executes s"
  shows "program_counter (fw t) = (if mispredicted s then next_pc (cur_x_reg s) else program_counter (fw s)) \<and>
    m_tainted_executions m' = of_bool (mispredicted s) \<and> m_pc m' = x_pc (cur_x_reg s)"
proof -
  let ?x = "cur_x_reg s"
  let ?m1 = "m\<lparr>m_wasStalled := 0, m_tainted_executions := 0, m_readWrite := 0, m_pc := x_pc ?x\<rparr>"
  from assms obtain u c where u: "initialise s = Inr u"
    and c: "major_dispatch_table (u_opcode (data_u (x_instruction ?x))) ?x (x_instruction ?x)
      \<lparr>ctx_pc = x_pc ?x + 4, ctx_m = ?m1, ctx_out = printed u\<rparr> = Inr c"
    and f: "finish_execute u ?x c = (m', t)"
    by (auto simp: stage_execute_def executes_def Let_def split: sum.splits if_splits)
  have "ctx_pc c = next_pc ?x" by (rule dispatch_next_pc [OF c]) simp
  moreover have "m_pc (ctx_m c) = x_pc ?x" "m_tainted_executions (ctx_m c) = 0"
    using dispatch_effects [OF c refl] by simp_all
  moreover have "mispredicted s = (next_pc ?x \<noteq> x_new_pc ?x)" using assms(2) by (simp add: mispredicted_def)
  moreover have "m' = fst (finish_execute u ?x c)" "t = snd (finish_execute u ?x c)" by (simp_all add: f)
  ultimately show ?thesis using initialise_keeps(2) [OF u] by (simp add: finish_execute_def Let_def)
qed

lemma execute_restart:
  assumes "stage_execute s m = Inr (m', t)" "w_global_memory_stall (cur_w_reg s) \<noteq> 0"
  shows "program_counter (fw t) = m_pc (w_memory_register (cur_w_reg s))"
    "m' = (w_memory_register (cur_w_reg s))\<lparr>m_tainted_executions := 1\<rparr>"
  using assms by (auto simp: stage_execute_def Let_def)

text \<open>When decode cannot issue the instruction it holds.\<close>

definition decode_hazard :: "machine \<Rightarrow> bool" where
  "decode_hazard s \<longleftrightarrow>
     (let w = d_instruction (cur_d_reg s); (rs1, rs2, rd) = operand_registers w; m = cur_m_reg s;
          x_dest = scast (x_rd (cur_x_reg s)) :: u64 in
      d_not_stalled (cur_d_reg s) \<noteq> 0 \<and>
      (m_readWrite m = 2 \<and> m_reg m \<in> {scast rs1, scast rs2, scast rd} \<or>
       rs1 \<noteq> - 1 \<and> x_dest \<in> {scast rs1, if rs2 = - 1 then 0 else scast rs2}))"

text \<open>The two ways through decode when there is an instruction and no stall.\<close>

lemma decode_outcome:
  assumes "stage_decode s x = Inr (x', t)" "has_initialised s" "w_global_memory_stall (cur_w_reg s) = 0"
    and "d_not_stalled (cur_d_reg s) \<noteq> 0"
  shows "x_not_stalled x' = of_bool (\<not> decode_hazard s) \<and>
    t = (if decode_hazard s then s\<lparr>fw := set_pc (fw s) (d_pc (cur_d_reg s))\<rparr> else s)"
proof -
  let ?w = "d_instruction (cur_d_reg s)"
  obtain rs1 rs2 rd where ops: "operand_registers ?w = (rs1, rs2, rd)" by (cases "operand_registers ?w") auto
  have ini: "initialise s = Inr s" using assms(2) by (simp add: initialise_def)
  have stall: "fst (forwarded_register_read s a b va vb) \<longleftrightarrow> scast (x_rd (cur_x_reg s)) \<in> {a, b}" for a b va vb
    by (auto simp: forwarded_register_read_def forwarded_register_read_single_def split_beta Let_def)
  show ?thesis
  proof (cases "m_readWrite (cur_m_reg s) = 2 \<and> m_reg (cur_m_reg s) \<in> {scast rs1, scast rs2, scast rd}")
    case True
    with assms ini ops show ?thesis
      by (auto simp: stage_decode_def decode_hazard_def Let_def decode_stalled_def)
  next
    case load: False
    let ?a = "ucast (r_rs1 (data_r ?w)) :: u64" and ?b = "ucast (r_rs2 (data_r ?w)) :: u64"
    consider (none) "rs1 = - 1" "rs2 = - 1"
      | (one) "rs1 = ucast (r_rs1 (data_r ?w))" "rs2 = - 1"
      | (two) "rs1 = ucast (r_rs1 (data_r ?w))" "rs2 = ucast (r_rs2 (data_r ?w))"
      using operand_registers_cases [OF ops] by blast
    then show ?thesis
    proof cases
      case none
      with load assms ini ops show ?thesis
        by (auto simp: stage_decode_def decode_hazard_def Let_def)
    next
      case one
      obtain st va vb where f: "forwarded_register_read s ?a 0 (x_rs1_value x) (x_rs2_value x) = (st, va, vb)"
        by (cases "forwarded_register_read s ?a 0 (x_rs1_value x) (x_rs2_value x)")
      then have "st \<longleftrightarrow> scast (x_rd (cur_x_reg s)) \<in> {?a, 0}" by (metis stall fst_conv)
      then have "decode_hazard s = st"
        using load assms(4) ops one register_field [of "r_rs1 (data_r ?w)"]
        by (auto simp: decode_hazard_def Let_def)
      with f load assms ini ops one register_field(3) [of "r_rs1 (data_r ?w)"] show ?thesis
        by (auto simp: stage_decode_def Let_def decode_stalled_def split: if_splits)
    next
      case two
      obtain st va vb where f: "forwarded_register_read s ?a ?b (x_rs1_value x) (x_rs2_value x) = (st, va, vb)"
        by (cases "forwarded_register_read s ?a ?b (x_rs1_value x) (x_rs2_value x)")
      then have "st \<longleftrightarrow> scast (x_rd (cur_x_reg s)) \<in> {?a, ?b}" by (metis stall fst_conv)
      then have "decode_hazard s = st"
        using load assms(4) ops two register_field [of "r_rs1 (data_r ?w)"]
          register_field [of "r_rs2 (data_r ?w)"]
        by (auto simp: decode_hazard_def Let_def)
      with f load assms ini ops two register_field(3) [of "r_rs1 (data_r ?w)"]
        register_field(3) [of "r_rs2 (data_r ?w)"] show ?thesis
        by (auto simp: stage_decode_def Let_def decode_stalled_def split: if_splits)
    qed
  qed
qed

text \<open>The fetch stage: it completes, or it waits and leaves the program counter where it is.\<close>

lemma fetch_outcome:
  assumes "stage_fetch s d = Inr (d', t)" "machine_inv s"
  shows "btable t = btable s \<and>
    (if d_will_be_stalled d' = 0
     then d_pc d' = program_counter (fw s) \<and> d_not_stalled d' = 1 \<and>
       program_counter (fw t) = predict_address (btable s) (d_pc d') \<and>
       d_new_pc d' = program_counter (fw t)
     else program_counter (fw t) = program_counter (fw s))"
proof -
  from assms(1) obtain u where u: "initialise s = Inr u"
    by (auto simp: stage_fetch_def split: sum.splits)
  note k = initialise_keeps [OF u]
  from assms(1) u obtain st pa tb f where ga: "get_address (fw u) (itlb u) (ucast (get_pc (fw u))) 0
      (if d_will_be_stalled (cur_d_reg u) = 2 then d_tlb_stall_status (cur_d_reg u) else 0xFF) =
      Inr (st, pa, tb, f)"
    by (auto simp: stage_fetch_def Let_def split: sum.splits)
  have pc: "program_counter f = program_counter (fw s)"
    using get_address_frame [OF ga] k(2,3) assms(2) by (simp add: machine_inv_def port_frame_def)
  show ?thesis
  proof (cases "st \<noteq> 0xFE \<and> st \<noteq> 0xFF")
    case True
    with assms(1) u ga have "t = u\<lparr>itlb := tb, fw := f\<rparr> \<and> d_will_be_stalled d' = 2"
      by (auto simp: stage_fetch_def Let_def)
    with pc k(5) show ?thesis by simp
  next
    case False
    with assms(1) u ga obtain rs v ic f1 where ra: "read_access f (instruction_cache u) (ucast pa) 4
        (le_bytes 4 (d_instruction d)) (d_will_be_stalled (cur_d_reg u) = 1) (st = 0xFE) =
        Inr (rs, v, ic, f1)"
      by (auto simp: stage_fetch_def Let_def split: sum.splits)
    have "icache (instruction_cache u)" using machine_inv_caches [OF k(8) [OF assms(2)] k(7)] by simp
    then have "program_counter f1 = program_counter f"
      using read_access_keeps [OF ra] by (auto simp: port_frame_def)
    with assms(1) u ga ra False pc k(2,5) show ?thesis
      by (cases "rs = 0") (auto simp: stage_fetch_def Let_def get_pc_def split: if_splits)
  qed
qed

section \<open>The address of a fetch\<close>

text \<open>
  The address that the fetch of a cycle works on: a stalled access restarts at its own address;
  otherwise an instruction that decode cannot issue is fetched again, before the target of a
  mispredicted instruction is considered; otherwise fetch goes on where it was.
\<close>

definition fetch_address :: "machine \<Rightarrow> u64" where
  "fetch_address s =
     (if w_global_memory_stall (cur_w_reg s) \<noteq> 0 then m_pc (w_memory_register (cur_w_reg s))
      else if decode_hazard s then d_pc (cur_d_reg s)
      else if mispredicted s then next_pc (cur_x_reg s)
      else program_counter (fw s))"

text \<open>Where the fetch of the last cycle stood, seen from the registers it left.\<close>

definition fetch_point :: "machine \<Rightarrow> u64" where
  "fetch_point s =
     (if d_will_be_stalled (cur_d_reg s) = 0 then d_pc (cur_d_reg s) else program_counter (fw s))"

lemma same_regs_hazard:
  "same_regs s t \<Longrightarrow> decode_hazard t = decode_hazard s" "same_regs s t \<Longrightarrow> mispredicted t = mispredicted s"
  "same_regs s t \<Longrightarrow> executes t = executes s"
  by (simp_all add: same_regs_def decode_hazard_def mispredicted_def executes_def)

lemma in_stage_pc [simp]: "program_counter (fw (in_stage b s)) = program_counter (fw s)"
  "btable (in_stage b s) = btable s"
  by (simp_all add: in_stage_def)

lemma fetch_address_eq:
  assumes "cycle s l = Inr (s', l')" "machine_inv s"
  shows "fetch_point s' = fetch_address s"
    and "d_will_be_stalled (cur_d_reg s') = 0 \<Longrightarrow> d_not_stalled (cur_d_reg s') = 1 \<and>
      program_counter (fw s') = predict_address (btable s') (fetch_point s') \<and>
      d_new_pc (cur_d_reg s') = program_counter (fw s')"
proof (atomize (full), rule cycle_stages [OF assms])
  fix s1 s2 s3 s4 s5 w m x d
  assume ex: "stage_execute (in_stage STAGE_X_BIT s2) (new_m_reg l) = Inr (m, s3)"
    and de: "stage_decode (in_stage STAGE_D_BIT s3) (new_x_reg l) = Inr (x, s4)"
    and fe: "stage_fetch (in_stage STAGE_F_BIT s4) (new_d_reg l) = Inr (d, s5)"
    and s': "s' = s5\<lparr>cur_d_reg := d, cur_x_reg := x, cur_m_reg := m, cur_w_reg := w,
       fw := memory_retire_completed ((fw s5)\<lparr>cycle_counter := cycle_counter (fw s5) + 1\<rparr>)\<rparr>"
    and mid: "mid_cycle s s2" "mid_cycle s s3" "mid_cycle s s4"
    and front: "same_front s s2" "has_initialised s2"
  have same: "same_regs s (in_stage STAGE_X_BIT s2)" "same_regs s (in_stage STAGE_D_BIT s3)"
    using mid by (simp_all add: mid_cycle_def same_regs_def in_stage_def)
  note regs = same(1) [unfolded same_regs_def] same(2) [unfolded same_regs_def] same_regs_hazard [OF same(1)]
    same_regs_hazard [OF same(2)]
  have pc3: "program_counter (fw s3) = (if w_global_memory_stall (cur_w_reg s) \<noteq> 0
      then m_pc (w_memory_register (cur_w_reg s))
      else if mispredicted s then next_pc (cur_x_reg s) else program_counter (fw s))"
    using execute_idle [OF ex] execute_active [OF ex] execute_restart(1) [OF ex] regs front(1)
    by (cases "executes s") (auto simp: same_front_def mispredicted_def)
  have "program_counter (fw s4) = fetch_address s"
  proof (cases "w_global_memory_stall (cur_w_reg s) \<noteq> 0 \<or> d_not_stalled (cur_d_reg s) = 0")
    case True
    with de regs have "s4 = in_stage STAGE_D_BIT s3" by (auto simp: stage_decode_def)
    with True pc3 show ?thesis by (auto simp: fetch_address_def decode_hazard_def)
  next
    case False
    moreover have "has_initialised (in_stage STAGE_D_BIT s3)"
      using execute_initialised [OF ex] front(2) by simp
    ultimately show ?thesis
      using decode_outcome [OF de] regs pc3 by (auto simp: fetch_address_def)
  qed
  moreover have "machine_inv (in_stage STAGE_F_BIT s4)" using mid(3) by (simp add: mid_cycle_def)
  moreover have "program_counter (fw s') = program_counter (fw s5)" "cur_d_reg s' = d" "btable s' = btable s5"
    by (simp_all add: s' memory_retire_completed_def)
  ultimately show "fetch_point s' = fetch_address s \<and> (d_will_be_stalled (cur_d_reg s') = 0 \<longrightarrow>
      d_not_stalled (cur_d_reg s') = 1 \<and>
      program_counter (fw s') = predict_address (btable s') (fetch_point s') \<and>
      d_new_pc (cur_d_reg s') = program_counter (fw s'))"
    using fetch_outcome [OF fe] by (auto simp: fetch_point_def split: if_splits)
qed

text \<open>
  Property C11: the address of a fetch. The fetch of a completed cycle works on \<open>fetch_address\<close>:
  the address of a stalled memory access if there is one, otherwise that of an instruction decode
  could not issue, otherwise the target of a mispredicted instruction, otherwise the old program
  counter. A fetch that completes marks the decode register valid, records that address in it, and
  leaves the program counter, and the predicted address in the register, at the address the branch
  predictor gives for it; one that waits leaves the program counter where it was. (The instruction word
  is not part of this: after a miss in the middle of a line it is made of stale bytes.)
\<close>
theorem fetch_address_correct:
  assumes "cycle s l = Inr (s', l')" "machine_inv s"
  shows "fetch_point s' = fetch_address s \<and>
    (d_will_be_stalled (cur_d_reg s') = 0 \<longrightarrow> d_not_stalled (cur_d_reg s') = 1 \<and>
      program_counter (fw s') = predict_address (btable s') (fetch_point s') \<and>
      d_new_pc (cur_d_reg s') = program_counter (fw s'))"
  using fetch_address_eq [OF assms] by blast

section \<open>Mispredictions\<close>

lemma cycle_execute_mid:
  assumes "cycle s l = Inr (s', l')" "machine_inv s"
  obtains t u where "stage_execute t (new_m_reg l) = Inr (cur_m_reg s', u)" "same_regs s t"
proof -
  from cycle_execute [OF assms] obtain t u where
    "stage_execute (in_stage STAGE_X_BIT t) (new_m_reg l) = Inr (cur_m_reg s', u)" "same_regs s t"
    by blast
  with that [of "in_stage STAGE_X_BIT t" u] show thesis by (simp add: same_regs_def in_stage_def)
qed

text \<open>The flush mark after a cycle, and what a flushed instruction leaves behind.\<close>

lemma cycle_mispredicted:
  assumes "cycle s l = Inr (s', l')" "machine_inv s" "mispredicted s"
  shows "m_tainted_executions (cur_m_reg s') = 1"
proof -
  obtain t u where ex: "stage_execute t (new_m_reg l) = Inr (cur_m_reg s', u)" "same_regs s t"
    by (rule cycle_execute_mid [OF assms(1,2)])
  have "mispredicted t" "executes t" using same_regs_hazard [OF ex(2)] assms(3) by (simp_all add: mispredicted_def)
  with execute_active [OF ex(1)] show ?thesis by simp
qed

lemma cycle_flushed:
  assumes "cycle s l = Inr (s', l')" "machine_inv s" "w_global_memory_stall (cur_w_reg s) = 0"
    and "m_tainted_executions (cur_m_reg s) = 1 \<or> x_not_stalled (cur_x_reg s) = 0"
  shows "m_readWrite (cur_m_reg s') = 0 \<and> m_tainted_executions (cur_m_reg s') = 0"
proof -
  obtain t u where ex: "stage_execute t (new_m_reg l) = Inr (cur_m_reg s', u)" "same_regs s t"
    by (rule cycle_execute_mid [OF assms(1,2)])
  have "\<not> executes t" "w_global_memory_stall (cur_w_reg t) = 0"
    using assms(3,4) ex(2) by (auto simp: executes_def same_regs_def)
  with execute_idle [OF ex(1)] assms(4) ex(2) show ?thesis by (auto simp: same_regs_def)
qed

lemma cycle_decode_issue:
  assumes "cycle s l = Inr (s', l')" "machine_inv s" "w_global_memory_stall (cur_w_reg s) = 0"
    and "d_not_stalled (cur_d_reg s) \<noteq> 0"
  shows "x_not_stalled (cur_x_reg s') = of_bool (\<not> decode_hazard s)"
proof -
  obtain t u where de: "stage_decode t (new_x_reg l) = Inr (cur_x_reg s', u)" "mid_cycle s t" "has_initialised t"
    by (rule cycle_decode [OF assms(1,2)])
  have same: "same_regs s t" using de(2) by (simp add: mid_cycle_def)
  with decode_outcome [OF de(1,3)] same_regs_hazard(1) [OF same] assms(3,4) show ?thesis
    by (simp add: same_regs_def)
qed

lemma cycle_issues:
  assumes "cycle s l = Inr (s', l')" "machine_inv s" "w_global_memory_stall (cur_w_reg s) = 0"
    and "d_not_stalled (cur_d_reg s) \<noteq> 0" "\<not> decode_hazard s"
  shows "x_not_stalled (cur_x_reg s') = 1 \<and> x_instruction (cur_x_reg s') = d_instruction (cur_d_reg s) \<and>
    x_pc (cur_x_reg s') = d_pc (cur_d_reg s)"
proof -
  obtain t u where de: "stage_decode t (new_x_reg l) = Inr (cur_x_reg s', u)" "mid_cycle s t" "has_initialised t"
    by (rule cycle_decode [OF assms(1,2)])
  have "cur_d_reg t = cur_d_reg s" using de(2) by (simp add: mid_cycle_def same_regs_def)
  with cycle_decode_issue [OF assms(1-4)] decode_passes_on [OF de(1)] assms(5) show ?thesis by simp
qed

text \<open>
  Property C16: a misprediction. When the instruction in the execute register goes elsewhere than
  predicted, decode has no hazard and no older memory access stalls in this cycle, the fetch of the
  same cycle works on the right address and the flush mark is set; the next cycle leaves nothing to do
  in the memory register, so the instruction behind it has no effect, and clears the flush mark.
\<close>
theorem misprediction_redirects:
  assumes "machine_inv s" "cycle s l = Inr (s1, l1)" "cycle s1 l1 = Inr (s2, l2)"
    and "mispredicted s" "\<not> decode_hazard s" "w_global_memory_stall (cur_w_reg s1) = 0"
  shows "fetch_point s1 = next_pc (cur_x_reg s) \<and> m_tainted_executions (cur_m_reg s1) = 1 \<and>
    m_readWrite (cur_m_reg s2) = 0 \<and> m_tainted_executions (cur_m_reg s2) = 0"
proof -
  have "w_global_memory_stall (cur_w_reg s) = 0" using assms(4) by (simp add: mispredicted_def executes_def)
  with fetch_address_eq(1) [OF assms(2,1)] assms(4,5) have "fetch_point s1 = next_pc (cur_x_reg s)"
    by (simp add: fetch_address_def)
  moreover note t = cycle_mispredicted [OF assms(2,1,4)]
  moreover have "m_readWrite (cur_m_reg s2) = 0 \<and> m_tainted_executions (cur_m_reg s2) = 0"
    using cycle_flushed [OF assms(3) cycle_keeps(1) [OF assms(2,1)] assms(6)] t by blast
  ultimately show ?thesis by blast
qed

text \<open>
  Property C38: a lost jump. Decode sets the program counter after execute: when it has a hazard in
  the cycle in which execute finds a misprediction, the fetch goes back to the instruction in
  decode, which is on the wrong path, and as decode passes on a bubble the flush mark is used up
  by the next cycle. This is for a cycle in which no older memory access stalls; such an access would
  restart instead.
\<close>
theorem misprediction_lost_by_hazard:
  assumes "machine_inv s" "cycle s l = Inr (s1, l1)" "cycle s1 l1 = Inr (s2, l2)"
    and "mispredicted s" "decode_hazard s" "w_global_memory_stall (cur_w_reg s1) = 0"
  shows "fetch_point s1 = d_pc (cur_d_reg s) \<and> x_not_stalled (cur_x_reg s1) = 0 \<and>
    m_tainted_executions (cur_m_reg s2) = 0"
proof -
  have stall: "w_global_memory_stall (cur_w_reg s) = 0" "d_not_stalled (cur_d_reg s) \<noteq> 0"
    using assms(4,5) by (auto simp: mispredicted_def executes_def decode_hazard_def Let_def split_beta)
  with fetch_address_eq(1) [OF assms(2,1)] assms(5) have "fetch_point s1 = d_pc (cur_d_reg s)"
    by (simp add: fetch_address_def)
  moreover have x: "x_not_stalled (cur_x_reg s1) = 0"
    using cycle_decode_issue [OF assms(2,1) stall] assms(5) by simp
  moreover have "m_tainted_executions (cur_m_reg s2) = 0"
    using cycle_flushed [OF assms(3) cycle_keeps(1) [OF assms(2,1)] assms(6)] x by blast
  ultimately show ?thesis by blast
qed

section \<open>Stalled fetches\<close>

text \<open>The register a fetch that waits for the TLB leaves, and the local copy for the next cycle.\<close>

lemma cycle_tlb_wait:
  assumes "cycle s l = Inr (s', l')" "machine_inv s" "d_will_be_stalled (cur_d_reg s') = 2"
  obtains st where "cur_d_reg s' = (new_d_reg l)\<lparr>d_will_be_stalled := 2, d_tlb_stall_status := st\<rparr>"
proof (rule cycle_stages [OF assms(1,2)])
  fix s1 s2 s3 s4 s5 w m x d
  assume "stage_fetch (in_stage STAGE_F_BIT s4) (new_d_reg l) = Inr (d, s5)"
    and "s' = s5\<lparr>cur_d_reg := d, cur_x_reg := x, cur_m_reg := m, cur_w_reg := w,
      fw := memory_retire_completed ((fw s5)\<lparr>cycle_counter := cycle_counter (fw s5) + 1\<rparr>)\<rparr>"
  with assms(3) that show thesis by (auto elim: fetch_tlb_wait)
qed

lemma cycle_locals:
  assumes "cycle s l = Inr (s', l')" "machine_inv s"
  shows "new_d_reg l' = cur_d_reg s'"
  by (rule cycle_stages [OF assms]) simp

text \<open>
  Property C37: a fetch that waits for the TLB. It leaves in the decode register the instruction, the
  address and the valid flag of the last fetch. So, over three completed cycles of which the first
  leaves a valid instruction in the decode register and the second fetches and waits for the TLB, when
  decode has no hazard and no memory access stalls in the second and the third, both of these cycles
  issue the same instruction to execute.
\<close>
theorem tlb_stall_reissues:
  assumes "machine_inv s0" "cycle s0 l0 = Inr (s1, l1)" "cycle s1 l1 = Inr (s2, l2)" "cycle s2 l2 = Inr (s3, l3)"
    and "d_not_stalled (cur_d_reg s1) \<noteq> 0" "d_will_be_stalled (cur_d_reg s2) = 2"
    and "\<not> decode_hazard s1" "w_global_memory_stall (cur_w_reg s1) = 0"
    and "\<not> decode_hazard s2" "w_global_memory_stall (cur_w_reg s2) = 0"
  shows "d_instruction (cur_d_reg s2) = d_instruction (cur_d_reg s1) \<and> d_pc (cur_d_reg s2) = d_pc (cur_d_reg s1) \<and>
    d_not_stalled (cur_d_reg s2) = d_not_stalled (cur_d_reg s1) \<and>
    (\<forall>s \<in> {s2, s3}. x_not_stalled (cur_x_reg s) = 1 \<and> x_pc (cur_x_reg s) = d_pc (cur_d_reg s1) \<and>
       x_instruction (cur_x_reg s) = d_instruction (cur_d_reg s1))"
proof -
  note inv1 = cycle_keeps(1) [OF assms(2,1)]
  note inv2 = cycle_keeps(1) [OF assms(3) inv1]
  obtain st where d: "cur_d_reg s2 = (cur_d_reg s1)\<lparr>d_will_be_stalled := 2, d_tlb_stall_status := st\<rparr>"
    using cycle_tlb_wait [OF assms(3) inv1 assms(6)] cycle_locals [OF assms(2,1)] by metis
  have "d_not_stalled (cur_d_reg s2) \<noteq> 0" using assms(5) by (simp add: d)
  from cycle_issues [OF assms(3) inv1 assms(8,5,7)] cycle_issues [OF assms(4) inv2 assms(10) this assms(9)]
  show ?thesis by (simp add: d)
qed

section \<open>Stalled accesses\<close>

text \<open>
  The two marks a stall leaves in the saved access, and the flush mark: set for every stalled load
  and for a store that waits for its address, but not for a store that waits for the cache.
\<close>

definition saved_access :: "stage_reg_m \<Rightarrow> stage_reg_m \<Rightarrow> bool" where
  "saved_access m m' \<longleftrightarrow> (\<exists>a b. m' = m\<lparr>m_wasStalled := a, m_stallStatus := b\<rparr>)"

lemma memory_stalls:
  assumes "stage_memory s w = Inr (w', t)" "w_global_memory_stall w' \<noteq> 0"
  shows "saved_access (cur_m_reg s) (w_memory_register w') \<and> m_readWrite (cur_m_reg s) \<in> {1, 2} \<and>
    w_tainted_executions w' =
      (if m_readWrite (cur_m_reg s) = 1 \<and> w_global_memory_stall w' \<in> {1, 5} then 0 else 1)"
proof -
  from assms(1) obtain u where u: "initialise s = Inr u"
    by (auto simp: stage_memory_def split: sum.splits)
  let ?m = "cur_m_reg s"
  have regs: "cur_m_reg u = ?m" "cur_w_reg u = cur_w_reg s"
    using initialise_keeps(1) [OF u] by (simp_all add: same_regs_def)
  have taint: "\<not> w_tainted_executions (cur_w_reg s) > 0"
    using assms u regs by (auto simp: stage_memory_def Let_def memory_nop_def split: if_splits)
  have rw: "m_readWrite ?m = 2 \<or> m_readWrite ?m = 1"
    using assms u regs taint by (auto simp: stage_memory_def Let_def memory_nop_def split: if_splits)
  obtain st pa tb f where ga: "get_address (fw u) (dtlb u) (ucast (m_address ?m)) 0
        (if m_wasStalled ?m \<noteq> 0 then m_stallStatus ?m else 0xFF) = Inr (st, pa, tb, f)"
    using assms u regs rw taint by (auto simp: stage_memory_def Let_def split: sum.splits)
  let ?s1 = "u\<lparr>dtlb := tb, fw := f\<rparr>" and ?w = "w\<lparr>w_tainted_executions := 0\<rparr>"
  have saved: "saved_access ?m (?m\<lparr>m_wasStalled := a, m_stallStatus := b\<rparr>)" for a b
    by (auto simp: saved_access_def)
  consider (tlb) g where "w' = (memory_stalled ?w ?m g 1 st 1)\<lparr>w_tlb_stall_status := st\<rparr>"
      "g = (if m_readWrite ?m = 2 then 2 else 3)"
    | (load) "memory_load_access ?s1 ?w pa (st = 0xFE) = Inr (w', t)" "m_readWrite ?m = 2"
    | (store) "memory_store_access ?s1 ?w pa (st = 0xFE) = Inr (w', t)" "m_readWrite ?m = 1"
    using assms u regs rw ga taint by (auto simp: stage_memory_def Let_def split: if_splits)
  then show ?thesis
  proof cases
    case tlb
    with rw saved show ?thesis by (auto simp: memory_stalled_def split: if_splits)
  next
    case load
    with saved regs assms(2) show ?thesis
      by (auto simp: memory_load_access_def Let_def memory_stalled_def split: sum.splits if_splits)
  next
    case store
    with saved regs assms(2) show ?thesis
      by (auto simp: memory_store_access_def Let_def memory_stalled_def memory_nop_def
          split: sum.splits if_splits)
  qed
qed

lemma cycle_memory_stalls:
  assumes "cycle s l = Inr (s', l')" "machine_inv s" "w_global_memory_stall (cur_w_reg s') \<noteq> 0"
  shows "saved_access (cur_m_reg s) (w_memory_register (cur_w_reg s')) \<and> m_readWrite (cur_m_reg s) \<in> {1, 2} \<and>
    w_tainted_executions (cur_w_reg s') = (if m_readWrite (cur_m_reg s) = 1 \<and>
      w_global_memory_stall (cur_w_reg s') \<in> {1, 5} then 0 else 1)"
proof -
  obtain a b where me: "stage_memory (in_stage STAGE_M_BIT a) (new_w_reg l) = Inr (cur_w_reg s', b)"
    "same_regs s a"
    using cycle_memory [OF assms(1,2)] by blast
  with memory_stalls [OF me(1) assms(3)] show ?thesis by (simp add: same_regs_def)
qed

lemma stalled_restart:
  assumes "machine_inv s" "cycle s l = Inr (s1, l1)" "cycle s1 l1 = Inr (s2, l2)"
    and "w_global_memory_stall (cur_w_reg s1) \<noteq> 0"
  shows "\<exists>m. saved_access (cur_m_reg s) m \<and> cur_m_reg s2 = m\<lparr>m_tainted_executions := 1\<rparr>"
    "fetch_point s2 = m_pc (cur_m_reg s)"
proof -
  let ?m = "w_memory_register (cur_w_reg s1)"
  have saved: "saved_access (cur_m_reg s) ?m" using cycle_memory_stalls [OF assms(2,1,4)] by blast
  have inv: "machine_inv s1" by (rule cycle_keeps(1) [OF assms(2,1)])
  obtain t u where ex: "stage_execute t (new_m_reg l1) = Inr (cur_m_reg s2, u)" "same_regs s1 t"
    by (rule cycle_execute_mid [OF assms(3) inv])
  from execute_restart(2) [OF ex(1)] ex(2) assms(4) saved
  show "\<exists>m. saved_access (cur_m_reg s) m \<and> cur_m_reg s2 = m\<lparr>m_tainted_executions := 1\<rparr>"
    by (auto simp: same_regs_def)
  show "fetch_point s2 = m_pc (cur_m_reg s)"
    using fetch_address_eq(1) [OF assms(3) inv] assms(4) saved
    by (auto simp: fetch_address_def saved_access_def)
qed

text \<open>
  Property C39: a stalled access. When the memory stage could not complete a load or a store, the
  next cycle puts the same access back into the memory register, with the flush mark set, and
  fetches from the address of the access itself, so the access runs again after it has completed.
  The instruction behind it, which execute had already passed on, reaches write-back without a
  register write, unless the access is a store that waits for the cache.
\<close>
theorem stalled_access_restarts:
  assumes "machine_inv s" "cycle s l = Inr (s1, l1)" "cycle s1 l1 = Inr (s2, l2)"
    and "w_global_memory_stall (cur_w_reg s1) \<noteq> 0"
  shows "(\<exists>m. saved_access (cur_m_reg s) m \<and> cur_m_reg s2 = m\<lparr>m_tainted_executions := 1\<rparr>) \<and>
    fetch_point s2 = m_pc (cur_m_reg s) \<and> m_readWrite (cur_m_reg s) \<in> {1, 2} \<and>
    (m_readWrite (cur_m_reg s) = 2 \<or> w_global_memory_stall (cur_w_reg s1) \<notin> {1, 5} \<longrightarrow>
      w_op (cur_w_reg s2) = 0)"
proof -
  note stall = cycle_memory_stalls [OF assms(2,1,4)]
  have "w_op (cur_w_reg s2) = 0" if "w_tainted_executions (cur_w_reg s1) = 1"
  proof -
    obtain a b where me: "stage_memory (in_stage STAGE_M_BIT a) (new_w_reg l1) = Inr (cur_w_reg s2, b)"
      "same_regs s1 a"
      using cycle_memory [OF assms(3) cycle_keeps(1) [OF assms(2,1)]] by blast
    then obtain u where u: "initialise (in_stage STAGE_M_BIT a) = Inr u"
      by (auto simp: stage_memory_def split: sum.splits)
    have "w_tainted_executions (cur_w_reg u) = 1"
      using initialise_keeps(1) [OF u] me(2) that by (simp add: same_regs_def)
    with me(1) u show ?thesis
      by (auto simp: stage_memory_def Let_def memory_nop_def dest!: sym [of _ "cur_w_reg s2"])
  qed
  with stall stalled_restart [OF assms] show ?thesis by auto
qed

text \<open>
  Property C40: a store that waits for the cache. The register write of the instruction behind it is
  not flushed: it reaches the register file although the fetch goes back to the store, so that the
  instruction is executed a second time after the store.
\<close>
theorem store_stall_keeps_younger:
  assumes "machine_inv s" "cycle s l = Inr (s1, l1)" "cycle s1 l1 = Inr (s2, l2)"
    and "m_readWrite (cur_m_reg s) = 1" "w_global_memory_stall (cur_w_reg s1) \<in> {1, 5}"
    and "m_readWrite (cur_m_reg s1) = 3"
  shows "fetch_point s2 = m_pc (cur_m_reg s) \<and>
    w_op (cur_w_reg s2) = 1 \<and> w_reg (cur_w_reg s2) = m_reg (cur_m_reg s1) \<and>
    w_value (cur_w_reg s2) = m_value (cur_m_reg s1) \<and>
    (\<forall>s3 l3. cycle s2 l2 = Inr (s3, l3) \<longrightarrow> register_file (fw s3) =
      (register_file (fw s2))[unat (m_reg (cur_m_reg s1)) := m_value (cur_m_reg s1)])"
proof -
  have stall: "w_global_memory_stall (cur_w_reg s1) \<noteq> 0" using assms(5) by auto
  have inv: "machine_inv s1" "machine_inv s2" using cycle_keeps(1) assms(1-3) by blast+
  have reg: "m_reg (cur_m_reg s1) < 32" using inv(1) assms(6) by (simp add: machine_inv_def wf_m_def)
  obtain a b where me: "stage_memory (in_stage STAGE_M_BIT a) (new_w_reg l1) = Inr (cur_w_reg s2, b)"
    "same_regs s1 a"
    using cycle_memory [OF assms(3) inv(1)] by blast
  have "w_tainted_executions (cur_w_reg s1) = 0"
    using cycle_memory_stalls [OF assms(2,1) stall] assms(4,5) by simp
  then have w: "w_op (cur_w_reg s2) = 1 \<and> w_reg (cur_w_reg s2) = m_reg (cur_m_reg s1) \<and>
      w_value (cur_w_reg s2) = m_value (cur_m_reg s1)"
    using memory_result(1) [OF me(1) _ refl] me(2) assms(6) by (simp add: same_regs_def)
  then have "register_file (fw s3) =
      (register_file (fw s2))[unat (m_reg (cur_m_reg s1)) := m_value (cur_m_reg s1)]"
    if "cycle s2 l2 = Inr (s3, l3)" for s3 l3
    using cycle_keeps(2) [OF that inv(2)] small_mod [OF reg] by (simp add: file_after_writeback_def)
  with w stalled_restart(2) [OF assms(1-3) stall] show ?thesis by blast
qed

section \<open>Runs\<close>

text \<open>
  Cycles of a machine whose fetch waits for its page walk: they complete when the memory and the
  execute stage do.
\<close>

lemma decode_total:
  assumes "has_initialised s"
  shows "\<exists>x' t. stage_decode s x = Inr (x', t) \<and> same_regs s t \<and> has_initialised t \<and> itlb t = itlb s"
proof -
  have "initialise s = Inr s" using assms by (simp add: initialise_def)
  then show ?thesis
    using assms by (auto simp: stage_decode_def same_regs_def Let_def split_beta)
qed

lemma waiting_cycle:
  assumes ff: "fetch_waits s l"
    and me: "stage_memory (in_stage STAGE_M_BIT s1) (new_w_reg l) = Inr (w, s2)"
    and wb: "stage_writeback (in_stage STAGE_W_BIT (s\<lparr>fw := register_reset_cycle (fw s)\<rparr>)) = Inr s1"
    and keep: "same_regs s s2" "itlb s2 = itlb s"
    and ex: "\<And>t. same_regs s t \<Longrightarrow> has_initialised t \<Longrightarrow> \<exists>m t'. stage_execute t (new_m_reg l) = Inr (m, t') \<and>
      same_regs t t' \<and> has_initialised t' \<and> itlb t' = itlb t"
  shows "\<exists>s' l'. cycle s l = Inr (s', l') \<and> fetch_faulted s' l' \<and> cur_w_reg s' = w"
proof -
  have fs: "d_not_stalled (new_d_reg l) = 0" "d_will_be_stalled (cur_d_reg s) = 2"
    "d_tlb_stall_status (cur_d_reg s) = 0x80" "\<not> bit (cached_second_index (itlb s)) 31"
    using ff by (simp_all add: fetch_waits_def)
  have stage [simp]: "itlb (in_stage b t) = itlb t" for b t by (simp add: in_stage_def)
  let ?t2 = "in_stage STAGE_X_BIT s2"
  have "same_regs s ?t2" using keep(1) by (rule same_regs_trans) simp
  with ex [of ?t2] memory_initialised [OF me] obtain m s3 where
    3: "stage_execute ?t2 (new_m_reg l) = Inr (m, s3)" "same_regs s s3" "has_initialised s3" "itlb s3 = itlb s"
    using same_regs_trans keep(2) by (metis stage in_stage_initialised)
  obtain x s4 where 4: "stage_decode (in_stage STAGE_D_BIT s3) (new_x_reg l) = Inr (x, s4)"
    "same_regs (in_stage STAGE_D_BIT s3) s4" "has_initialised s4" "itlb s4 = itlb s"
    using decode_total [of "in_stage STAGE_D_BIT s3" "new_x_reg l"] 3(3,4) by auto
  have "same_regs s s4" using 3(2) 4(2) same_regs_trans by simp
  then have "stage_fetch (in_stage STAGE_F_BIT s4) (new_d_reg l) =
      Inr ((new_d_reg l)\<lparr>d_will_be_stalled := 2, d_tlb_stall_status := 0x80\<rparr>, in_stage STAGE_F_BIT s4)"
    using fs 4(3,4) by (intro fetch_faulted_stage) (simp_all add: same_regs_def)
  with wb me 3 4 fs show ?thesis
    by (simp add: cycle_def Let_def fetch_faulted_def fetch_waits_def)
qed

text \<open>When neither memory nor write-back has anything to wait for:\<close>

lemma waiting_cycle_idle:
  assumes ff: "fetch_waits s l"
    and mem: "m_readWrite (cur_m_reg s) \<notin> {1, 2}" "w_tainted_executions (cur_w_reg s) = 0"
    and ex: "\<And>t. same_regs s t \<Longrightarrow> has_initialised t \<Longrightarrow> \<exists>m t'. stage_execute t (new_m_reg l) = Inr (m, t') \<and>
      same_regs t t' \<and> has_initialised t' \<and> itlb t' = itlb t"
  shows "\<exists>s' l'. cycle s l = Inr (s', l') \<and> fetch_faulted s' l' \<and> w_global_memory_stall (cur_w_reg s') = 0 \<and>
    w_tainted_executions (cur_w_reg s') = 0"
proof -
  have ini: "has_initialised s" using ff by (simp add: fetch_waits_def)
  let ?s0 = "in_stage STAGE_W_BIT (s\<lparr>fw := register_reset_cycle (fw s)\<rparr>)"
  obtain s1 where wb: "stage_writeback ?s0 = Inr s1" "same_regs s s1" "has_initialised s1" "itlb s1 = itlb s"
    using ini by (cases "w_op (cur_w_reg s) = 0")
      (auto simp: stage_writeback_def initialise_def same_regs_def in_stage_def)
  have "\<exists>w. stage_memory (in_stage STAGE_M_BIT s1) (new_w_reg l) = Inr (w, in_stage STAGE_M_BIT s1) \<and>
      w_global_memory_stall w = 0 \<and> w_tainted_executions w = 0"
    using wb mem
    by (cases "m_readWrite (cur_m_reg s) = 3")
      (simp_all add: stage_memory_def initialise_def Let_def memory_nop_def same_regs_def)
  then obtain w where me: "stage_memory (in_stage STAGE_M_BIT s1) (new_w_reg l) = Inr (w, in_stage STAGE_M_BIT s1)"
    "w_global_memory_stall w = 0" "w_tainted_executions w = 0" by blast
  have "same_regs s (in_stage STAGE_M_BIT s1)" "itlb (in_stage STAGE_M_BIT s1) = itlb s"
    using wb by (simp_all add: same_regs_def in_stage_def)
  from waiting_cycle [OF ff me(1) wb(1) this ex] me(2,3) show ?thesis by auto
qed

text \<open>A flushed or absent instruction never keeps execute from completing.\<close>

lemma flushed_execute:
  assumes "w_global_memory_stall (cur_w_reg s) = 0"
    "m_tainted_executions (cur_m_reg s) = 1 \<or> x_not_stalled (cur_x_reg s) = 0"
    and "same_regs s t" "has_initialised t"
  shows "\<exists>m' t'. stage_execute t m = Inr (m', t') \<and> same_regs t t' \<and> has_initialised t' \<and> itlb t' = itlb t"
  using assms by (auto simp: stage_execute_def same_regs_def Let_def)

text \<open>
  \<open>jal x1, 8\<close> in the execute register, predicted to fall through, with the instruction word \<open>w\<close>
  behind it.
\<close>

definition jump_machine :: "u32 \<Rightarrow> machine" where
  "jump_machine w = faulted_machine\<lparr>cur_d_reg := (cur_d_reg faulted_machine)\<lparr>d_pc := 4, d_new_pc := 8,
       d_instruction := w, d_not_stalled := 1\<rparr>,
     cur_x_reg := zero_x\<lparr>x_instruction := 0x008000EF, x_not_stalled := 1, x_new_pc := 4, x_rd := 1\<rparr>\<rparr>"

lemma jump_machine: "machine_inv (jump_machine w)" "fetch_waits (jump_machine w) zero_locals"
  using faulted_machine(1,2)
  by (simp_all add: jump_machine_def machine_inv_def fetch_waits_def fetch_faulted_def)

lemma jal_fields: "u_opcode (data_u 0x008000EF) = 0b1101111" "imm_J 0x008000EF = 8"
  by (simp_all add: data_u_def imm_J_def)

lemma jump_mispredicted: "mispredicted (jump_machine w)" "next_pc (cur_x_reg (jump_machine w)) = 8"
  by (simp_all add: mispredicted_def executes_def jump_machine_def next_pc_def jal_fields Let_def
      faulted_machine_def boot_machine_def zero_x_def zero_w_def zero_m_def)

lemma jump_run:
  obtains s1 l1 s2 l2 where "cycle (jump_machine w) zero_locals = Inr (s1, l1)" "cycle s1 l1 = Inr (s2, l2)"
    "w_global_memory_stall (cur_w_reg s1) = 0"
proof -
  let ?s = "jump_machine w"
  have regs: "m_readWrite (cur_m_reg ?s) \<notin> {1, 2}" "w_tainted_executions (cur_w_reg ?s) = 0"
    by (simp_all add: jump_machine_def faulted_machine_def boot_machine_def zero_w_def zero_m_def)
  have "\<exists>m t'. stage_execute t (new_m_reg zero_locals) = Inr (m, t') \<and> same_regs t t' \<and>
      has_initialised t' \<and> itlb t' = itlb t" if "same_regs ?s t" "has_initialised t" for t
    using that
    by (simp add: stage_execute_def initialise_def same_regs_def Let_def major_dispatch_table_def jal_eq
        jal_fields jump_machine_def faulted_machine_def boot_machine_def zero_w_def zero_m_def zero_x_def
        finish_execute_def)
  from waiting_cycle_idle [OF jump_machine(2) regs this] obtain s1 l1 where
    1: "cycle ?s zero_locals = Inr (s1, l1)" "fetch_faulted s1 l1" "w_global_memory_stall (cur_w_reg s1) = 0"
      "w_tainted_executions (cur_w_reg s1) = 0"
    by blast
  have m: "m_tainted_executions (cur_m_reg s1) = 1"
    using cycle_mispredicted [OF 1(1) jump_machine(1) jump_mispredicted(1)] .
  obtain t u where ex: "stage_execute t (new_m_reg zero_locals) = Inr (cur_m_reg s1, u)" "same_regs ?s t"
    by (rule cycle_execute_mid [OF 1(1) jump_machine(1)])
  then have "m_readWrite (cur_m_reg s1) \<notin> {1, 2}"
    by (auto simp: stage_execute_def same_regs_def Let_def major_dispatch_table_def jal_eq jal_fields
        jump_machine_def faulted_machine_def boot_machine_def zero_w_def zero_m_def zero_x_def
        finish_execute_def put_reg_def prepare_register_write_def split: sum.splits
        dest!: sym [of _ "cur_m_reg s1"])
  moreover have "fetch_waits s1 l1" using 1(2) by (simp add: fetch_faulted_def)
  ultimately obtain s2 l2 where "cycle s1 l1 = Inr (s2, l2)"
    using waiting_cycle_idle [OF _ _ 1(4) flushed_execute [OF 1(3)], of l1] m by blast
  with 1 that show thesis by blast
qed

text \<open>With \<open>addi x5, x2, -3\<close> behind it the jump goes to 8; with \<open>addi x5, x1, -3\<close> it does not.\<close>

lemma jump_hazard:
  "\<not> decode_hazard (jump_machine 0xFFD10293)" "decode_hazard (jump_machine 0xFFD08293)"
proof -
  have ops: "operand_registers 0xFFD10293 = (2, - 1, 5)"
    by (simp add: operand_registers_def decoding_type_def data_i_def Let_def)
  show "\<not> decode_hazard (jump_machine 0xFFD10293)" "decode_hazard (jump_machine 0xFFD08293)"
    by (simp_all add: decode_hazard_def Let_def jump_machine_def ops issue_operands faulted_machine_def
        boot_machine_def zero_m_def)
qed

text \<open>\<open>lui x5, 1\<close> in decode while the fetch waits for its walk, cycle after cycle.\<close>

definition lui_waits :: "machine \<Rightarrow> locals \<Rightarrow> bool" where
  "lui_waits s l \<longleftrightarrow>
     has_initialised s \<and> new_d_reg l = cur_d_reg s \<and> \<not> bit (cached_second_index (itlb s)) 31 \<and>
     cur_d_reg s = zero_d\<lparr>d_new_pc := 4, d_instruction := 0x000012B7, d_not_stalled := 1,
       d_will_be_stalled := 2, d_tlb_stall_status := 0x80\<rparr> \<and>
     (x_not_stalled (cur_x_reg s) = 0 \<or> x_not_stalled (cur_x_reg s) = 1 \<and>
        x_instruction (cur_x_reg s) = 0x000012B7 \<and> x_pc (cur_x_reg s) = 0 \<and> x_new_pc (cur_x_reg s) = 4) \<and>
     m_readWrite (cur_m_reg s) \<in> {0, 3} \<and> m_tainted_executions (cur_m_reg s) = 0 \<and>
     w_tainted_executions (cur_w_reg s) = 0 \<and> w_global_memory_stall (cur_w_reg s) = 0"

lemma lui_fields: "operand_registers 0x000012B7 = (- 1, - 1, 5)" "u_opcode (data_u 0x000012B7) = 0b0110111"
  by (simp_all add: operand_registers_def decoding_type_def data_i_def data_u_def Let_def)

lemma lui_waits_cycle:
  assumes "lui_waits s l"
  shows "\<exists>s' l'. cycle s l = Inr (s', l') \<and> lui_waits s' l'"
proof -
  note w = assms [unfolded lui_waits_def]
  have ex: "\<exists>m p. stage_execute t (new_m_reg l) = Inr (m, t\<lparr>printed := p\<rparr>) \<and>
      (m_readWrite m \<in> {0, 3} \<and> m_tainted_executions m = 0)" if "same_regs s t" "has_initialised t" for t
  proof (cases "x_not_stalled (cur_x_reg s) = 0")
    case True
    with idle_execute [OF _ _ that(1), of "new_m_reg l"] w show ?thesis by auto
  next
    case False
    with that w show ?thesis
      by (simp add: stage_execute_def initialise_def same_regs_def Let_def major_dispatch_table_def lui_fields
          riscv_lui_def finish_execute_def put_reg_def prepare_register_write_def)
        (rule exI [of _ "printed t"], simp)
  qed
  have rw: "m_readWrite (cur_m_reg s) \<noteq> 2" using w by auto
  have de: "\<exists>x. stage_decode t (new_x_reg l) = Inr (x, t) \<and> (x_not_stalled x = 1 \<and>
        x_instruction x = 0x000012B7 \<and> x_pc x = 0 \<and> x_new_pc x = 4)"
    if "same_regs s t" "has_initialised t" for t
    using that w rw
    by (simp add: stage_decode_def initialise_def same_regs_def Let_def lui_fields zero_d_def)
  from tlb_wait_cycle [OF _ _ _ _ _ _ _ ex de] w show ?thesis
    by (fastforce simp: lui_waits_def)
qed

lemma lui_waits_keeps:
  assumes "lui_waits s l"
  shows "\<not> decode_hazard s" "w_global_memory_stall (cur_w_reg s) = 0" "d_not_stalled (cur_d_reg s) \<noteq> 0"
    "d_will_be_stalled (cur_d_reg s) = 2" "d_instruction (cur_d_reg s) = 0x000012B7"
  using assms by (auto simp: lui_waits_def decode_hazard_def lui_fields Let_def)

definition lui_machine :: machine where
  "lui_machine = faulted_machine\<lparr>cur_d_reg := zero_d\<lparr>d_new_pc := 4, d_instruction := 0x000012B7,
     d_not_stalled := 1, d_will_be_stalled := 2, d_tlb_stall_status := 0x80\<rparr>\<rparr>"

lemma lui_machine: "machine_inv lui_machine"
  "lui_waits lui_machine (zero_locals\<lparr>new_d_reg := cur_d_reg lui_machine\<rparr>)"
  using faulted_machine(1,2)
  by (simp_all add: lui_machine_def lui_waits_def machine_inv_def fetch_faulted_def fetch_waits_def
      faulted_machine_def boot_machine_def zero_x_def zero_m_def zero_w_def)

theorem tlb_stall_reissues_witness:
  "\<exists>s1 l1 s2 l2 s3 l3. cycle lui_machine (zero_locals\<lparr>new_d_reg := cur_d_reg lui_machine\<rparr>) = Inr (s1, l1) \<and>
    cycle s1 l1 = Inr (s2, l2) \<and> cycle s2 l2 = Inr (s3, l3) \<and>
    x_not_stalled (cur_x_reg s2) = 1 \<and> x_instruction (cur_x_reg s2) = 0x000012B7 \<and>
    x_not_stalled (cur_x_reg s3) = 1 \<and> x_instruction (cur_x_reg s3) = 0x000012B7"
proof -
  obtain s1 l1 where 1: "cycle lui_machine (zero_locals\<lparr>new_d_reg := cur_d_reg lui_machine\<rparr>) = Inr (s1, l1)"
    "lui_waits s1 l1"
    using lui_waits_cycle [OF lui_machine(2)] by blast
  obtain s2 l2 where 2: "cycle s1 l1 = Inr (s2, l2)" "lui_waits s2 l2"
    using lui_waits_cycle [OF 1(2)] by blast
  obtain s3 l3 where 3: "cycle s2 l2 = Inr (s3, l3)"
    using lui_waits_cycle [OF 2(2)] by blast
  note w1 = lui_waits_keeps [OF 1(2)] and w2 = lui_waits_keeps [OF 2(2)]
  from tlb_stall_reissues [OF lui_machine(1) 1(1) 2(1) 3 w1(3) w2(4) w1(1,2) w2(1,2)] w1(5) 1(1) 2(1) 3
  show ?thesis by auto
qed

theorem fetch_address_correct_witness:
  "\<exists>s1 l1. cycle (jump_machine 0xFFD10293) zero_locals = Inr (s1, l1) \<and> fetch_point s1 = 8"
proof (rule jump_run [of "0xFFD10293"])
  fix s1 l1 assume c: "cycle (jump_machine 0xFFD10293) zero_locals = Inr (s1, l1)"
  have "fetch_address (jump_machine 0xFFD10293) = 8"
    using jump_hazard(1) jump_mispredicted [of "0xFFD10293"]
    by (simp add: fetch_address_def mispredicted_def executes_def)
  with fetch_address_correct [OF c jump_machine(1)] c show ?thesis by auto
qed

theorem misprediction_redirects_witness:
  "\<exists>s1 l1 s2 l2. cycle (jump_machine 0xFFD10293) zero_locals = Inr (s1, l1) \<and> cycle s1 l1 = Inr (s2, l2) \<and>
    fetch_point s1 = 8 \<and> m_readWrite (cur_m_reg s2) = 0"
proof (rule jump_run [of "0xFFD10293"])
  fix s1 l1 s2 l2
  assume c: "cycle (jump_machine 0xFFD10293) zero_locals = Inr (s1, l1)" "cycle s1 l1 = Inr (s2, l2)"
    "w_global_memory_stall (cur_w_reg s1) = 0"
  from misprediction_redirects [OF jump_machine(1) c(1,2) jump_mispredicted(1) jump_hazard(1) c(3)]
    jump_mispredicted(2) c show ?thesis by auto
qed

theorem misprediction_lost_by_hazard_witness:
  "\<exists>s1 l1. cycle (jump_machine 0xFFD08293) zero_locals = Inr (s1, l1) \<and>
    next_pc (cur_x_reg (jump_machine 0xFFD08293)) = 8 \<and> fetch_point s1 = 4"
proof (rule jump_run [of "0xFFD08293"])
  fix s1 l1 s2 l2
  assume c: "cycle (jump_machine 0xFFD08293) zero_locals = Inr (s1, l1)" "cycle s1 l1 = Inr (s2, l2)"
    "w_global_memory_stall (cur_w_reg s1) = 0"
  have "d_pc (cur_d_reg (jump_machine 0xFFD08293)) = 4" by (simp add: jump_machine_def)
  with misprediction_lost_by_hazard [OF jump_machine(1) c(1,2) jump_mispredicted(1) jump_hazard(2) c(3)]
    jump_mispredicted(2) c(1) show ?thesis by auto
qed

text \<open>
  A store to the page of \<open>paged_framework\<close> whose walk ends in this cycle, with \<open>addi x5, x1, -3\<close>
  behind it: the store has to wait for the cache.
\<close>

definition store_machine :: machine where
  "store_machine = faulted_machine\<lparr>fw := paged_framework, dtlb := empty_tlb\<lparr>cached_second_index := 0x80000002\<rparr>,
     cur_x_reg := zero_x\<lparr>x_instruction := 0xFFD08293, x_not_stalled := 1, x_rs1_value := 10, x_new_pc := 4\<rparr>,
     cur_m_reg := zero_m\<lparr>m_readWrite := 1, m_size := 4, m_address := 0x24010, m_wasStalled := 1,
       m_stallStatus := 2, m_pc := 0x100\<rparr>\<rparr>"

lemma store_machine: "machine_inv store_machine" "fetch_waits store_machine zero_locals"
  "issued_x (cur_x_reg store_machine)" "w_op (cur_w_reg store_machine) = 0"
  using faulted_machine(1,2) tlb_inv_empty
  by (simp_all add: store_machine_def machine_inv_def fetch_waits_def fetch_faulted_def issued_x_def
      zero_x_def zero_m_def wf_m_def wf_framework_def paged_framework_def boot_framework_def fw_defs
      faulted_machine_def boot_machine_def zero_w_def)

lemma store_waits:
  "\<exists>w u. stage_memory (store_machine) zero_w = Inr (w, u) \<and> w_global_memory_stall w = 5 \<and>
    same_regs store_machine u \<and> itlb u = itlb store_machine"
proof -
  let ?t = "empty_tlb\<lparr>cached_second_index := 0x80000002\<rparr>"
  have rd: "may_read paged_framework" "memory_read_latency paged_framework = 0" "proper paged_framework 0x2090 4"
    by (simp_all add: may_read_def port_free_def proper_def in_block_def paged_framework_def
        boot_framework_def fw_defs)
  have lb: "length (local_buffer paged_framework) = 4" by (simp add: local_buffer_def)
  have v: "le_word (fetch_bytes (riscv_mem paged_framework) 0x2090 4) = (0x80000010 :: u32)"
    using paged_second by (simp add: pte2_def)
  have c: "drop_bit 17 (0x24010 :: u32) = tlb_slot 0x24010" "translated_address 4 0x24010 = 0x10010"
    by (simp_all add: tlb_slot_def translated_address_def)
  have walk: "get_address paged_framework ?t 0x24010 0 2 =
      Inr (0xFF, 0x10010, tlb_fill ?t (superpage 0x24010) 4, read_issued paged_framework 4)"
    using get_address_second [of ?t paged_framework "0x24010" 2 0] rd lb v c
    by (simp add: paged_first paged_second memory_read_now bit_iff_odd physical_superpage_def)
  have "write_access f boot_dcache 0x10010 0 4 True False = Inr (2, boot_dcache, f)" for f
    using boot_caches(2) boot_dcache_cold(1,2) [of "0x10010"]
    by (simp add: write_access_miss evict_write_def select_way_victim dcache_def)
  then show ?thesis
    using walk
    by (simp add: stage_memory_def initialise_def store_machine_def faulted_machine_def boot_machine_def
        zero_w_def zero_m_def Let_def memory_store_access_def memory_stalled_def same_regs_def
        settings_def read_issued_def)
qed

lemma restart_execute:
  assumes "w_global_memory_stall (cur_w_reg s) \<noteq> 0" "same_regs s t" "has_initialised t"
  shows "\<exists>m' t'. stage_execute t m = Inr (m', t') \<and> same_regs t t' \<and> has_initialised t' \<and> itlb t' = itlb t"
  using assms by (simp add: stage_execute_def same_regs_def Let_def)

lemma store_run:
  obtains s1 l1 s2 l2 where "cycle store_machine zero_locals = Inr (s1, l1)" "cycle s1 l1 = Inr (s2, l2)"
    "w_global_memory_stall (cur_w_reg s1) = 5" "m_readWrite (cur_m_reg s1) = 3"
proof -
  let ?s = store_machine
  have f: "in_stage STAGE_M_BIT (in_stage STAGE_W_BIT (?s\<lparr>fw := register_reset_cycle (fw ?s)\<rparr>)) = ?s"
    by (simp add: in_stage_def register_reset_cycle_def store_machine_def paged_framework_def boot_framework_def)
  obtain w u where me: "stage_memory ?s zero_w = Inr (w, u)" "w_global_memory_stall w = 5"
      "same_regs ?s u" "itlb u = itlb ?s"
    using store_waits by blast
  have wb: "stage_writeback (in_stage STAGE_W_BIT (?s\<lparr>fw := register_reset_cycle (fw ?s)\<rparr>)) =
      Inr (in_stage STAGE_W_BIT (?s\<lparr>fw := register_reset_cycle (fw ?s)\<rparr>))"
    using store_machine(4) by (simp add: stage_writeback_def)
  have flags: "m_tainted_executions (cur_m_reg ?s) = 0" "w_global_memory_stall (cur_w_reg ?s) = 0"
    by (simp_all add: store_machine_def faulted_machine_def boot_machine_def zero_m_def zero_w_def)
  note ex = issue_execute [OF store_machine(3) flags]
  have "\<exists>m t'. stage_execute t (new_m_reg zero_locals) = Inr (m, t') \<and> same_regs t t' \<and>
      has_initialised t' \<and> itlb t' = itlb t" if "same_regs ?s t" "has_initialised t" for t
    using ex [OF that, of "new_m_reg zero_locals"] that by (auto simp: same_regs_def)
  from waiting_cycle [OF store_machine(2) _ wb me(3,4) this] f me(1,2) obtain s1 l1 where
    1: "cycle ?s zero_locals = Inr (s1, l1)" "fetch_faulted s1 l1" "w_global_memory_stall (cur_w_reg s1) = 5"
    by (auto simp: zero_locals_def)
  obtain t u where t: "stage_execute t (new_m_reg zero_locals) = Inr (cur_m_reg s1, u)" "same_regs ?s t"
    by (rule cycle_execute_mid [OF 1(1) store_machine(1)])
  have x: "cur_x_reg t = cur_x_reg ?s" "x_instruction (cur_x_reg ?s) = 0xFFD08293"
    "x_not_stalled (cur_x_reg ?s) \<noteq> 0" "x_rs1_value (cur_x_reg ?s) = 10"
    using t(2) store_machine(3) by (simp_all add: same_regs_def issued_x_def)
  obtain v where v: "\<And>c. major_dispatch_table (u_opcode (data_u 0xFFD08293)) (cur_x_reg ?s) 0xFFD08293 c =
      Inr (put_reg (r_dest 0xFFD08293) v c)"
    using addi_table [OF x(4)] unfolding addi_opcode by blast
  have m: "m_readWrite (cur_m_reg s1) = 3"
    using execute_alu [OF t(1) x(1) x(2) [symmetric] _ x(3) _ _ v] flags t(2) by (simp add: same_regs_def)
  have rw: "m_readWrite (cur_m_reg ?s) = 1" by (simp add: store_machine_def)
  have taint: "w_tainted_executions (cur_w_reg s1) = 0" "w_global_memory_stall (cur_w_reg s1) \<noteq> 0"
    using cycle_memory_stalls [OF 1(1) store_machine(1)] 1(3) rw by simp_all
  have "fetch_waits s1 l1" using 1(2) by (simp add: fetch_faulted_def)
  from waiting_cycle_idle [OF this _ taint(1) restart_execute [OF taint(2)]] m obtain s2 l2 where
    "cycle s1 l1 = Inr (s2, l2)"
    by auto
  with 1 m that show thesis by blast
qed

theorem stalled_access_restarts_witness:
  "\<exists>s1 l1 s2 l2. cycle store_machine zero_locals = Inr (s1, l1) \<and> cycle s1 l1 = Inr (s2, l2) \<and>
    fetch_point s2 = 0x100"
proof (rule store_run)
  fix s1 l1 s2 l2
  assume c: "cycle store_machine zero_locals = Inr (s1, l1)" "cycle s1 l1 = Inr (s2, l2)"
    and "w_global_memory_stall (cur_w_reg s1) = 5"
  then have "w_global_memory_stall (cur_w_reg s1) \<noteq> 0" by simp
  moreover have "m_pc (cur_m_reg store_machine) = 0x100" by (simp add: store_machine_def)
  ultimately show ?thesis
    using stalled_access_restarts [OF store_machine(1) c] c by auto
qed

theorem store_stall_keeps_younger_witness:
  "\<exists>s1 l1 s2 l2. cycle store_machine zero_locals = Inr (s1, l1) \<and> cycle s1 l1 = Inr (s2, l2) \<and>
    fetch_point s2 = 0x100 \<and> w_op (cur_w_reg s2) = 1"
proof (rule store_run)
  fix s1 l1 s2 l2
  assume c: "cycle store_machine zero_locals = Inr (s1, l1)" "cycle s1 l1 = Inr (s2, l2)"
    and "w_global_memory_stall (cur_w_reg s1) = 5" and m: "m_readWrite (cur_m_reg s1) = 3"
  then have "w_global_memory_stall (cur_w_reg s1) \<in> {1, 5}" by simp
  moreover have "m_pc (cur_m_reg store_machine) = 0x100" "m_readWrite (cur_m_reg store_machine) = 1"
    by (simp_all add: store_machine_def)
  ultimately show ?thesis
    using store_stall_keeps_younger [OF store_machine(1) c _ _ m] c by auto
qed

end
