(* ===== verification/In_Order.thy ===== *)
theory In_Order
  imports Control_Flow
begin

text \<open>
  A run of the pipeline against the instruction set. \<open>isa_exec\<close> is the effect of one instruction of the
  instruction set on the registers and \<open>isa_next\<close> the address it goes to; \<open>isa_step\<close> is the sequential
  machine made of them. The lemmas say that a sequence of cycles changes the register file as if the
  instructions that took effect in execute had been executed one after the other, although five of
  them are in flight, results are forwarded and hazards stall decode, and that each of them is at the
  address the one before it goes to.
\<close>

section \<open>The effect of one instruction\<close>

definition reg_value :: "u64 list \<Rightarrow> 5 word \<Rightarrow> u64" where
  "reg_value regs r = (if r = 0 then 0 else regs ! unat r)"

definition isa_exec :: "u64 list \<Rightarrow> u32 \<times> u64 \<Rightarrow> u64 list" where
  "isa_exec regs i =
     (let (w, pc) = i; d = data_r w; rd = unat (r_rd d) in
      if r_opcode d \<in> {0b1101111, 0b1100111} then regs[rd := pc + 4]
      else if r_opcode d = 0b1100011 then regs
      else (case isa_alu w (reg_value regs (r_rs1 d)) (reg_value regs (r_rs2 d)) of
              None \<Rightarrow> regs
            | Some v \<Rightarrow> regs[rd := v]))"

text \<open>The address of the next instruction.\<close>

definition isa_next :: "u64 list \<Rightarrow> u32 \<Rightarrow> u64 \<Rightarrow> u64" where
  "isa_next regs w pc =
     (let d = data_r w; a = reg_value regs (r_rs1 d); b = reg_value regs (r_rs2 d) in
      if r_opcode d = 0b1101111 then pc + scast (imm_J w)
      else if r_opcode d = 0b1100111 then (a + scast (imm_I w)) AND NOT 1
      else if r_opcode d = 0b1100011 \<and> branch_cond (r_funct3 d) a b = Some True then pc + scast (imm_B w)
      else pc + 4)"

text \<open>The instruction set as a machine on the registers and the program counter.\<close>

definition isa_step :: "u64 list \<times> u64 \<Rightarrow> u32 \<Rightarrow> u64 list \<times> u64" where
  "isa_step st w = (isa_exec (fst st) (w, snd st), isa_next (fst st) w (snd st))"

text \<open>
  Where the handlers are right: jumps (\<open>jalr\<close> to an even address), branches whose displacement the
  code reads correctly, and the arithmetic instructions on the operands of \<open>alu_agrees\<close>.
\<close>

definition isa_domain :: "u32 \<Rightarrow> u64 list \<Rightarrow> bool" where
  "isa_domain w regs \<longleftrightarrow>
     (let d = data_r w; a = reg_value regs (r_rs1 d); b = reg_value regs (r_rs2 d); imm = imm_B w in
      r_opcode d = 0b1101111 \<or>
      r_opcode d = 0b1100111 \<and> \<not> bit (a + scast (imm_I w)) 0 \<or>
      r_opcode d = 0b1100011 \<and> (bit imm 11 \<longleftrightarrow> bit imm 12) \<and>
        (bit imm 12 \<longleftrightarrow> bit imm 1 \<or> bit imm 2 \<or> bit imm 4) \<or>
      alu_agrees w a b)"

lemma opcode_views:
  "u_opcode (data_u w) = r_opcode (data_r w)" "i_opcode (data_i w) = r_opcode (data_r w)"
  "u_rd (data_u w) = r_rd (data_r w)" "i_rd (data_i w) = r_rd (data_r w)"
  by (simp_all add: data_u_def data_r_def data_i_def)

lemma alu_opcode: "alu_agrees w a b \<Longrightarrow>
   r_opcode (data_r w) \<in> {0b0110111, 0b0010011, 0b0110011, 0b0011011, 0b0111011}"
  by (auto simp: alu_agrees_def Let_def)

text \<open>The registers of such an instruction, as decode reports them.\<close>

lemma domain_registers:
  assumes "isa_domain w regs" "operand_registers w = (rs1, rs2, rd)"
  shows "r_opcode (data_r w) = 0b1100011 \<or> rd = ucast (r_rd (data_r w))"
  using assms
  by (auto simp: isa_domain_def Let_def operand_registers_def decoding_type_def opcode_views operand_views
      dest!: alu_opcode split: if_splits)

lemma isa_exec_frame:
  assumes "isa_domain w regs" "operand_registers w = (rs1, rs2, rd)" "(ucast r :: u16) \<noteq> rd"
  shows "reg_value (isa_exec regs (w, pc)) r = reg_value regs r"
proof -
  have "r_opcode (data_r w) \<noteq> 0b1100011 \<Longrightarrow> unat (r_rd (data_r w)) \<noteq> unat r"
    using domain_registers [OF assms(1,2)] assms(3) by (auto simp: word_unat_eq_iff [symmetric])
  then show ?thesis
    by (auto simp: isa_exec_def Let_def reg_value_def split: option.splits)
qed

section \<open>One instruction in the pipeline\<close>

lemma execute_jump:
  assumes "stage_execute s m = Inr (m', t)" "executes s" "w = x_instruction (cur_x_reg s)"
  shows "r_opcode (data_r w) \<in> {0b1101111, 0b1100111} \<Longrightarrow>
      m_readWrite m' = 3 \<and> m_reg m' = r_dest w \<and> m_value m' = x_pc (cur_x_reg s) + 4"
    "r_opcode (data_r w) = 0b1100011 \<Longrightarrow> m_readWrite m' = 0"
proof -
  show "r_opcode (data_r w) \<in> {0b1101111, 0b1100111} \<Longrightarrow>
      m_readWrite m' = 3 \<and> m_reg m' = r_dest w \<and> m_value m' = x_pc (cur_x_reg s) + 4"
    using assms
    by (auto simp: stage_execute_def executes_def Let_def opcode_views major_dispatch_table_def jal_eq jalr_eq
        finish_execute_def put_reg_def prepare_register_write_def dest_views split: sum.splits if_splits)
  show "r_opcode (data_r w) = 0b1100011 \<Longrightarrow> m_readWrite m' = 0"
    using assms
    by (auto simp: stage_execute_def executes_def Let_def opcode_views major_dispatch_table_def
        branch_dispatch_eq illegal_Inr finish_execute_def
        split: sum.splits if_splits option.splits bool.splits)
qed

lemma cycle_executes:
  assumes "cycle s l = Inr (s', l')" "machine_inv s"
  obtains t u where "stage_execute t (new_m_reg l) = Inr (cur_m_reg s', u)" "cur_x_reg t = cur_x_reg s"
    "cur_m_reg t = cur_m_reg s" "cur_w_reg t = cur_w_reg s" "executes t = executes s"
  by (rule cycle_execute_mid [OF assms]) (auto simp: same_regs_def executes_def intro: that)

text \<open>An access that is no access leaves the register file alone.\<close>

lemma nothing_retires:
  assumes "machine_inv s" "cycle s l = Inr (s1, l1)" "cycle s1 l1 = Inr (s2, l2)"
    and "w_global_memory_stall (cur_w_reg s) = 0" "m_readWrite (cur_m_reg s) = 0"
  shows "register_file (fw s2) = register_file (fw s1)"
proof -
  obtain a b where mem: "stage_memory (in_stage STAGE_M_BIT a) (new_w_reg l) = Inr (cur_w_reg s1, b)"
    "same_regs s a"
    using cycle_memory [OF assms(2,1)] by blast
  have "w_tainted_executions (cur_w_reg s) = 0" using assms(1,4) by (auto simp: machine_inv_def wf_w_def)
  then have "w_op (cur_w_reg s1) = 0"
    using memory_result(2) [OF mem(1) _ refl] mem(2) assms(5) by (auto simp: same_regs_def)
  with cycle_keeps(2) [OF assms(3) cycle_keeps(1) [OF assms(2,1)]] show ?thesis
    by (simp add: file_after_writeback_def)
qed

lemma bubble_retires:
  assumes "machine_inv s" "cycle s l = Inr (s1, l1)" "cycle s1 l1 = Inr (s2, l2)" "cycle s2 l2 = Inr (s3, l3)"
    and "w_global_memory_stall (cur_w_reg s) = 0" "w_global_memory_stall (cur_w_reg s1) = 0" "\<not> executes s"
  shows "register_file (fw s3) = register_file (fw s2)"
proof -
  obtain t u where ex: "stage_execute t (new_m_reg l) = Inr (cur_m_reg s1, u)" "cur_w_reg t = cur_w_reg s"
    "executes t = executes s"
    by (rule cycle_executes [OF assms(2,1)])
  then have "m_readWrite (cur_m_reg s1) = 0" using execute_idle [OF ex(1)] assms(5,7) by simp
  with nothing_retires [OF cycle_keeps(1) [OF assms(2,1)] assms(3,4,6)] show ?thesis .
qed

lemma instruction_retires:
  assumes inv: "machine_inv s" and c: "cycle s l = Inr (s1, l1)" "cycle s1 l1 = Inr (s2, l2)" "cycle s2 l2 = Inr (s3, l3)"
    and ex: "executes s" "w_global_memory_stall (cur_w_reg s1) = 0"
    and w: "x = cur_x_reg s" "w = x_instruction x" "operand_registers w = (rs1, rs2, rd)"
    and regs: "regs = register_file (fw s2)" "isa_domain w regs"
    and ops: "rs1 \<noteq> - 1 \<longrightarrow> x_rs1_value x = reg_value regs (r_rs1 (data_r w))"
      "rs2 \<noteq> - 1 \<longrightarrow> x_rs2_value x = reg_value regs (r_rs2 (data_r w))"
  shows "register_file (fw s3) = isa_exec regs (w, x_pc x)"
proof -
  let ?o = "r_opcode (data_r w)"
  have inv1: "machine_inv s1" using cycle_keeps(1) [OF c(1) inv] .
  have taint: "w_tainted_executions (cur_w_reg s1) = 0"
    using inv1 ex(2) by (auto simp: machine_inv_def wf_w_def)
  have rd: "unat (r_dest w mod 32) = unat (r_rd (data_r w))"
    using small_mod [OF r_dest_small [of w]] by (simp add: r_dest_def unat_ucast_up)
  obtain t u where st: "stage_execute t (new_m_reg l) = Inr (cur_m_reg s1, u)" "cur_x_reg t = x" "executes t"
    using cycle_executes [OF c(1) inv] ex(1) w(1) by metis
  consider (jump) "?o \<in> {0b1101111, 0b1100111}" | (branch) "?o = 0b1100011"
    | (alu) "alu_agrees w (reg_value regs (r_rs1 (data_r w))) (reg_value regs (r_rs2 (data_r w)))"
    using regs(2) by (auto simp: isa_domain_def Let_def)
  then show ?thesis
  proof cases
    case jump
    with register_write_retires [OF inv1 c(2,3) _ taint] execute_jump(1) [OF st(1,3), of w] st(2) w(2) rd regs(1)
    show ?thesis by (auto simp: isa_exec_def Let_def)
  next
    case branch
    with nothing_retires [OF inv1 c(2,3) ex(2)] execute_jump(2) [OF st(1,3), of w] st(2) w(2) regs(1)
    show ?thesis by (auto simp: isa_exec_def Let_def)
  next
    case alu
    have "rs1 \<noteq> - 1 \<longrightarrow> reg_value regs (r_rs1 (data_r w)) = x_rs1_value x"
      "rs2 \<noteq> - 1 \<longrightarrow> reg_value regs (r_rs2 (data_r w)) = x_rs2_value x" using ops by auto
    note op = alu_operands [OF w(3) this]
    obtain v where v: "isa_alu w (x_rs1_value x) (x_rs2_value x) = Some v"
      and disp: "\<And>c. major_dispatch_table (u_opcode (data_u w)) x w c = Inr (put_reg (r_dest w) v c)"
      using alu_dispatch [of w x] alu op(2) by auto
    have "register_file (fw s3) = regs[unat (r_rd (data_r w)) := v]"
      using execute_retires [OF inv c, of w v] disp ex w alu_word [OF alu] regs(1) by (simp add: executes_def)
    with v op(1) alu_opcode [OF alu] show ?thesis by (auto simp: isa_exec_def Let_def)
  qed
qed

section \<open>Operands\<close>

lemma read_value: "register_read_one f (ucast r) = reg_value (register_file f) r"
  using register_field(2,4) [of r]
  by (auto simp: read_small reg_value_def unat_ucast_up word_unat_eq_iff)

text \<open>An instruction that has left decode carries its registers, and has met no hazard.\<close>

lemma issued_registers:
  assumes "cycle s l = Inr (s1, l1)" "machine_inv s" "x = cur_x_reg s1" "x_not_stalled x \<noteq> 0"
    and "operand_registers (x_instruction x) = (rs1, rs2, rd)"
  shows "x_instruction x = d_instruction (cur_d_reg s)" "x_rd x = rd" "\<not> decode_hazard s"
    "d_not_stalled (cur_d_reg s) \<noteq> 0"
proof -
  obtain t u where de: "stage_decode t (new_x_reg l) = Inr (x, u)" "mid_cycle s t" "has_initialised t"
    using cycle_decode [OF assms(1,2)] assms(3) by metis
  obtain a b c where ops: "operand_registers (d_instruction (cur_d_reg t)) = (a, b, c)"
    by (cases "operand_registers (d_instruction (cur_d_reg t))")
  note r = decode_reads(1) [OF de(1) assms(4) de(3) ops]
  have t: "cur_d_reg t = cur_d_reg s" using mid_cycle_registers(7) [OF de(2) assms(2)] .
  show "x_instruction x = d_instruction (cur_d_reg s)" "x_rd x = rd" using r t ops assms(5) by auto
  have "w_global_memory_stall (cur_w_reg t) = 0" "d_not_stalled (cur_d_reg t) \<noteq> 0"
    using decode_issued [OF de(1) assms(4) de(3) ops] by simp_all
  from decode_outcome [OF de(1,3) this] assms(4) have "\<not> decode_hazard t" by auto
  then show "\<not> decode_hazard s" "d_not_stalled (cur_d_reg s) \<noteq> 0" using t \<open>d_not_stalled (cur_d_reg t) \<noteq> 0\<close> same_regs_hazard(1) [OF mid_cycle_same [OF de(2)]] by simp_all
qed

text \<open>
  The instruction before it may still write its result; decode would have waited if that were one of
  the operands.
\<close>

lemma operands_in_order:
  assumes "machine_inv s0" "cycle s0 l0 = Inr (s1, l1)" "cycle s1 l1 = Inr (s2, l2)" "zero_kept s0"
    and "x = cur_x_reg s1" "x_not_stalled x \<noteq> 0" "w = x_instruction x" "operand_registers w = (rs1, rs2, rd)"
    and older: "\<And>r. scast (x_rd (cur_x_reg s0)) \<noteq> (ucast r :: u64) \<Longrightarrow>
      reg_value regs r = reg_value (register_file (fw s2)) r"
  shows "rs1 \<noteq> - 1 \<longrightarrow> x_rs1_value x = reg_value regs (r_rs1 (data_r w))"
    "rs2 \<noteq> - 1 \<longrightarrow> x_rs2_value x = reg_value regs (r_rs2 (data_r w))"
proof -
  note iss = issued_registers [OF assms(2,1,5,6), folded assms(7), OF assms(8)]
  have ops: "operand_registers (d_instruction (cur_d_reg s0)) = (rs1, rs2, rd)"
    using iss(1) assms(7,8) by simp
  note op = issued_operands [OF assms(1-3,5,6) ops] and zero = issued_zero [OF assms(1,2,4-6) ops]
  have seen: "rs1 \<noteq> - 1 \<longrightarrow> scast (x_rd (cur_x_reg s0)) \<noteq> (scast rs1 :: u64) \<and>
      (rs2 \<noteq> - 1 \<longrightarrow> scast (x_rd (cur_x_reg s0)) \<noteq> (scast rs2 :: u64))"
    using iss(3,4) ops
    by (auto simp: decode_hazard_def Let_def split: if_splits)
  have arch: "v = reg_value regs r"
    if "rs = ucast r" "rs \<noteq> 0 \<longrightarrow> v = register_read_one (fw s2) (scast rs)" "rs = 0 \<longrightarrow> v = 0"
      "scast (x_rd (cur_x_reg s0)) \<noteq> (scast rs :: u64)" for v r and rs :: u16
  proof (cases "rs = 0")
    case True
    then have "unat (ucast r :: u64) = 0" using that(1) register_field(4) [of r] by simp
    then have "r = 0" by (simp add: unat_ucast_up unat_eq_zero)
    with True that(3) show ?thesis by (simp add: reg_value_def)
  next
    case False
    with that older [of r] show ?thesis by (simp add: register_field(1) read_value)
  qed
  from operand_registers_cases [OF assms(8)] show "rs1 \<noteq> - 1 \<longrightarrow> x_rs1_value x = reg_value regs (r_rs1 (data_r w))"
    using arch [of rs1 "r_rs1 (data_r w)" "x_rs1_value x"] op zero seen by blast
  from operand_registers_cases [OF assms(8)] show "rs2 \<noteq> - 1 \<longrightarrow> x_rs2_value x = reg_value regs (r_rs2 (data_r w))"
    using arch [of rs2 "r_rs2 (data_r w)" "x_rs2_value x"] op zero seen register_field(3) by metis
qed

section \<open>Sequences of cycles\<close>

text \<open>
  Consecutive cycles, as the states and the locals between them, in which no memory access stalls and
  no result other than zero is on its way to register 0. At the start nothing is in execute.
\<close>

definition quiet_run :: "(nat \<Rightarrow> machine) \<Rightarrow> (nat \<Rightarrow> locals) \<Rightarrow> nat \<Rightarrow> bool" where
  "quiet_run S L n \<longleftrightarrow>
     machine_inv (S 0) \<and> x_not_stalled (cur_x_reg (S 0)) = 0 \<and>
     (\<forall>i < n + 2. cycle (S i) (L i) = Inr (S (Suc i), L (Suc i))) \<and>
     (\<forall>i \<le> n. w_global_memory_stall (cur_w_reg (S i)) = 0) \<and> (\<forall>i. Suc i < n \<longrightarrow> zero_kept (S i))"

definition in_execute :: "machine \<Rightarrow> u32 \<times> u64" where
  "in_execute s = (x_instruction (cur_x_reg s), x_pc (cur_x_reg s))"

text \<open>The instructions that took effect in the first \<open>n\<close> cycles, in order.\<close>

definition executed :: "(nat \<Rightarrow> machine) \<Rightarrow> nat \<Rightarrow> u32 list" where
  "executed S n = map (\<lambda>i. x_instruction (cur_x_reg (S i))) (filter (\<lambda>i. executes (S i)) [0..<n])"

lemma quiet_run_inv:
  assumes "quiet_run S L n" "i \<le> n + 2"
  shows "machine_inv (S i)"
  using assms(2)
proof (induction i)
  case 0
  then show ?case using assms(1) by (simp add: quiet_run_def)
next
  case (Suc i)
  then have "cycle (S i) (L i) = Inr (S (Suc i), L (Suc i))" using assms(1) by (simp add: quiet_run_def)
  with cycle_keeps(1) [OF this] Suc show ?case by simp
qed

text \<open>The effect of an instruction two cycles after it was in execute.\<close>

definition file_after :: "(nat \<Rightarrow> machine) \<Rightarrow> nat \<Rightarrow> u64 list" where
  "file_after S i =
     (let regs = register_file (fw (S (i + 2))) in
      if executes (S i) then isa_exec regs (in_execute (S i)) else regs)"

definition in_domain :: "(nat \<Rightarrow> machine) \<Rightarrow> nat \<Rightarrow> bool" where
  "in_domain S i \<longleftrightarrow>
     (executes (S i) \<longrightarrow> isa_domain (fst (in_execute (S i))) (register_file (fw (S (i + 2)))))"

lemma older_result:
  assumes run: "quiet_run S L n" and i: "Suc i < n" "in_domain S i"
    and r: "scast (x_rd (cur_x_reg (S i))) \<noteq> (ucast r :: u64)"
  shows "reg_value (file_after S i) r = reg_value (register_file (fw (S (i + 2)))) r"
proof (cases "executes (S i)")
  case True
  then obtain j where j: "i = Suc j" using run by (cases i) (auto simp: quiet_run_def executes_def)
  obtain rs1 rs2 rd where ops: "operand_registers (x_instruction (cur_x_reg (S i))) = (rs1, rs2, rd)"
    by (cases "operand_registers (x_instruction (cur_x_reg (S i)))")
  have "cycle (S j) (L j) = Inr (S i, L i)" "machine_inv (S j)"
    using run i(1) quiet_run_inv [OF run] j by (simp_all add: quiet_run_def)
  from issued_registers(2) [OF this refl _ ops] True have "x_rd (cur_x_reg (S i)) = rd"
    by (simp add: executes_def)
  with r have "(ucast r :: u16) \<noteq> rd" using register_field(1) [of r] by auto
  from isa_exec_frame [OF _ ops this] True i(2) show ?thesis
    by (simp add: in_domain_def file_after_def in_execute_def)
qed (simp add: file_after_def)

lemma step_operands:
  assumes run: "quiet_run S L n" and i: "Suc i < n" "in_domain S i"
    and old: "register_file (fw (S (i + 3))) = file_after S i"
    and x: "executes (S (Suc i))" "x = cur_x_reg (S (Suc i))" "w = x_instruction x"
    and ops: "operand_registers w = (rs1, rs2, rd)"
  shows "rs1 \<noteq> - 1 \<longrightarrow> x_rs1_value x = reg_value (register_file (fw (S (i + 3)))) (r_rs1 (data_r w))"
    "rs2 \<noteq> - 1 \<longrightarrow> x_rs2_value x = reg_value (register_file (fw (S (i + 3)))) (r_rs2 (data_r w))"
proof -
  have c: "cycle (S i) (L i) = Inr (S (Suc i), L (Suc i))" "zero_kept (S i)" "x_not_stalled x \<noteq> 0"
    "cycle (S (Suc i)) (L (Suc i)) = Inr (S (i + 2), L (i + 2))" "machine_inv (S i)"
    using run i(1) x quiet_run_inv [OF run, of i] by (auto simp: quiet_run_def executes_def)
  have older: "reg_value (register_file (fw (S (i + 3)))) r = reg_value (register_file (fw (S (i + 2)))) r"
    if "scast (x_rd (cur_x_reg (S i))) \<noteq> (ucast r :: u64)" for r
    using older_result [OF run i that] old by simp
  show "rs1 \<noteq> - 1 \<longrightarrow> x_rs1_value x = reg_value (register_file (fw (S (i + 3)))) (r_rs1 (data_r w))"
    "rs2 \<noteq> - 1 \<longrightarrow> x_rs2_value x = reg_value (register_file (fw (S (i + 3)))) (r_rs2 (data_r w))"
    using operands_in_order [OF c(5,1,4,2) x(2) c(3) x(3) ops older] by blast+
qed

lemma retires_in_order:
  assumes run: "quiet_run S L n" and dom: "\<forall>i < n. in_domain S i"
  shows "i < n \<Longrightarrow> register_file (fw (S (i + 3))) = file_after S i"
proof (induction i)
  have step: "cycle (S i) (L i) = Inr (S (Suc i), L (Suc i))" if "i < n + 2" for i
    using run that by (simp add: quiet_run_def)
  have quiet: "w_global_memory_stall (cur_w_reg (S i)) = 0" if "i \<le> n" for i
    using run that by (simp add: quiet_run_def)
  have cyc: "cycle (S i) (L i) = Inr (S (Suc i), L (Suc i))"
    "cycle (S (Suc i)) (L (Suc i)) = Inr (S (i + 2), L (i + 2))"
    "cycle (S (i + 2)) (L (i + 2)) = Inr (S (i + 3), L (i + 3))" "machine_inv (S i)" if "i < n" for i
    using step [of i] step [of "Suc i"] step [of "i + 2"] quiet_run_inv [OF run, of i] that
    by (simp_all add: numeral_3_eq_3)
  have idle: "register_file (fw (S (i + 3))) = file_after S i" if "i < n" "\<not> executes (S i)" for i
    using bubble_retires [OF cyc(4,1-3) [OF that(1)] quiet quiet that(2)] that by (simp add: file_after_def)
  {
    case 0
    have "\<not> executes (S 0)" using run by (simp add: quiet_run_def executes_def)
    with idle [OF 0] show ?case by simp
  next
    case (Suc i)
    let ?x = "cur_x_reg (S (Suc i))" and ?regs = "register_file (fw (S (i + 3)))"
    show ?case
    proof (cases "executes (S (Suc i))")
      case True
      obtain rs1 rs2 rd where ops: "operand_registers (x_instruction ?x) = (rs1, rs2, rd)"
        by (cases "operand_registers (x_instruction ?x)")
      have i: "in_domain S i" "register_file (fw (S (i + 3))) = file_after S i"
        using Suc dom by simp_all
      note vals = step_operands [OF run Suc.prems i True refl refl ops]
      have "isa_domain (x_instruction ?x) ?regs"
        using dom Suc.prems True by (auto simp: in_domain_def in_execute_def numeral_3_eq_3)
      with instruction_retires [OF cyc(4,1-3) [OF Suc.prems] True _ refl refl ops refl] vals quiet [of "i + 2"] Suc.prems True
      show ?thesis by (simp add: file_after_def in_execute_def numeral_3_eq_3)
    qed (rule idle [OF Suc.prems])
  }
qed

section \<open>The path of the program\<close>

text \<open>
  Where decode stands: at the instruction it holds, or where fetch will go on; and the address of the
  next instruction to take effect.
\<close>

definition decode_point :: "machine \<Rightarrow> u64" where
  "decode_point s = (if d_not_stalled (cur_d_reg s) \<noteq> 0 then d_pc (cur_d_reg s) else program_counter (fw s))"

definition next_address :: "machine \<Rightarrow> u64" where
  "next_address s =
     (if x_not_stalled (cur_x_reg s) \<noteq> 0 \<and> m_tainted_executions (cur_m_reg s) = 0
      then x_pc (cur_x_reg s) else decode_point s)"

text \<open>Fetch is where the instruction before it was predicted to go, and so is decode.\<close>

definition on_path :: "machine \<Rightarrow> bool" where
  "on_path s \<longleftrightarrow>
     (d_not_stalled (cur_d_reg s) \<noteq> 0 \<longrightarrow> d_new_pc (cur_d_reg s) = program_counter (fw s)) \<and>
     (x_not_stalled (cur_x_reg s) \<noteq> 0 \<longrightarrow> m_tainted_executions (cur_m_reg s) \<in> {0, 1} \<and>
        (m_tainted_executions (cur_m_reg s) = 0 \<longrightarrow> decode_point s = x_new_pc (cur_x_reg s)))"

text \<open>
  What keeps the machine on the path: a fetch that waits leaves nothing in decode, decode has no
  hazard in a cycle with a misprediction, and no zero word reaches execute.
\<close>

definition orderly :: "machine \<Rightarrow> machine \<Rightarrow> bool" where
  "orderly s s' \<longleftrightarrow>
     (d_will_be_stalled (cur_d_reg s') = 0 \<or> d_not_stalled (cur_d_reg s') = 0) \<and>
     \<not> (mispredicted s \<and> decode_hazard s) \<and>
     (x_not_stalled (cur_x_reg s) \<noteq> 0 \<longrightarrow> x_instruction (cur_x_reg s) \<noteq> 0)"

lemma decode_passes:
  assumes "cycle s l = Inr (s', l')" "machine_inv s" "w_global_memory_stall (cur_w_reg s) = 0"
  shows "if d_not_stalled (cur_d_reg s) = 0 \<or> decode_hazard s then x_not_stalled (cur_x_reg s') = 0
    else x_not_stalled (cur_x_reg s') = 1 \<and> x_pc (cur_x_reg s') = d_pc (cur_d_reg s) \<and>
      x_new_pc (cur_x_reg s') = d_new_pc (cur_d_reg s)"
proof -
  obtain t u where de: "stage_decode t (new_x_reg l) = Inr (cur_x_reg s', u)" "mid_cycle s t" "has_initialised t"
    by (rule cycle_decode [OF assms(1,2)])
  have d: "cur_d_reg t = cur_d_reg s" using mid_cycle_registers(7) [OF de(2) assms(2)] .
  show ?thesis
  proof (cases "d_not_stalled (cur_d_reg s) = 0")
    case True
    with de(1) d show ?thesis by (auto simp: stage_decode_def dest!: sym [of _ "cur_x_reg s'"])
  next
    case False
    note issue = cycle_decode_issue [OF assms False]
    show ?thesis
    proof (cases "decode_hazard s")
      case no: False
      then have "x_not_stalled (cur_x_reg s') \<noteq> 0" using issue by simp
      from decode_reads(1) [OF de(1) this de(3)] d issue no False show ?thesis
        by (cases "operand_registers (d_instruction (cur_d_reg t))") auto
    qed (use issue in simp)
  qed
qed

lemma execute_marks:
  assumes "cycle s l = Inr (s', l')" "machine_inv s" "w_global_memory_stall (cur_w_reg s) = 0"
    and "x_not_stalled (cur_x_reg s) \<noteq> 0 \<longrightarrow> m_tainted_executions (cur_m_reg s) \<in> {0, 1}"
  shows "m_tainted_executions (cur_m_reg s') = of_bool (mispredicted s)"
proof -
  obtain t u where ex: "stage_execute t (new_m_reg l) = Inr (cur_m_reg s', u)" "same_regs s t"
    by (rule cycle_execute_mid [OF assms(1,2)])
  note same = same_regs_hazard [OF ex(2)] ex(2) [unfolded same_regs_def]
  show ?thesis
  proof (cases "executes s")
    case True
    then show ?thesis using execute_active [OF ex(1)] same by simp
  next
    case False
    then have "\<not> mispredicted s" by (simp add: mispredicted_def)
    with False show ?thesis using execute_idle [OF ex(1)] same assms(3,4) by auto
  qed
qed

lemma path_step:
  assumes c: "cycle s l = Inr (s', l')" "machine_inv s" "w_global_memory_stall (cur_w_reg s) = 0"
    and path: "on_path s" "orderly s s'"
  shows "on_path s'" "executes s \<Longrightarrow> next_address s = x_pc (cur_x_reg s)"
    "next_address s' = (if executes s then next_pc (cur_x_reg s) else next_address s)"
proof -
  note f = fetch_address_eq [OF c(1,2)]
  have d': "decode_point s' = fetch_address s"
    "d_not_stalled (cur_d_reg s') \<noteq> 0 \<Longrightarrow> d_new_pc (cur_d_reg s') = program_counter (fw s')"
    using f path(2)
    by (cases "d_will_be_stalled (cur_d_reg s') = 0"; auto simp: orderly_def decode_point_def fetch_point_def)+
  have m': "m_tainted_executions (cur_m_reg s') = of_bool (mispredicted s)"
    using execute_marks [OF c] path(1) by (simp add: on_path_def)
  note x' = decode_passes [OF c]
  have fa: "fetch_address s = (if decode_hazard s then d_pc (cur_d_reg s)
      else if mispredicted s then next_pc (cur_x_reg s) else program_counter (fw s))"
    using c(3) by (simp add: fetch_address_def)
  have ex: "executes s \<longleftrightarrow> x_not_stalled (cur_x_reg s) \<noteq> 0 \<and> m_tainted_executions (cur_m_reg s) = 0"
    using c(3) path(2) by (auto simp: executes_def orderly_def)
  have hz: "decode_hazard s \<Longrightarrow> d_not_stalled (cur_d_reg s) \<noteq> 0"
    by (auto simp: decode_hazard_def Let_def split_beta)
  show "executes s \<Longrightarrow> next_address s = x_pc (cur_x_reg s)" using ex by (simp add: next_address_def)
  show "on_path s'"
    using d' m' x' fa path(1) by (auto simp: on_path_def split: if_splits)
  show "next_address s' = (if executes s then next_pc (cur_x_reg s) else next_address s)"
    using d' m' x' fa path ex hz
    by (auto simp: next_address_def on_path_def orderly_def mispredicted_def decode_point_def split: if_splits)
qed

text \<open>On its operands the code goes where the instruction set says.\<close>

lemma next_pc_isa:
  assumes "isa_domain w regs" "w = x_instruction x" "operand_registers w = (rs1, rs2, rd)"
    and "rs1 \<noteq> - 1 \<longrightarrow> x_rs1_value x = reg_value regs (r_rs1 (data_r w))"
      "rs2 \<noteq> - 1 \<longrightarrow> x_rs2_value x = reg_value regs (r_rs2 (data_r w))"
  shows "next_pc x = isa_next regs w (x_pc x)"
proof -
  have even: "\<not> bit a 0 \<Longrightarrow> a AND NOT 1 = a" for a :: u64
    by (rule bit_word_eqI) (auto simp: bit_and_iff bit_not_iff bit_1_iff intro: gr0I ccontr)
  have ops: "r_opcode (data_r w) = 0b1100111 \<Longrightarrow> rs1 \<noteq> - 1" "r_opcode (data_r w) = 0b1100011 \<Longrightarrow> rs1 \<noteq> - 1 \<and> rs2 \<noteq> - 1"
    using assms(3) register_field(3)
    by (auto simp: operand_registers_def decoding_type_def opcode_views operand_views Let_def split: if_splits)
  have f3: "i_funct3 (data_i w) = r_funct3 (data_r w)" by (simp add: data_i_def data_r_def)
  consider "r_opcode (data_r w) = 0b1101111" | "r_opcode (data_r w) = 0b1100111"
    "\<not> bit (reg_value regs (r_rs1 (data_r w)) + scast (imm_I w)) 0"
    | "r_opcode (data_r w) = 0b1100011" "scast (branch_range w) = (scast (imm_B w) :: u64)"
    | "r_opcode (data_r w) \<notin> {0b1101111, 0b1100111, 0b1100011}"
    using assms(1) branch_range_iff [of w] by (auto simp: isa_domain_def Let_def dest: alu_opcode)
  then show ?thesis
    using ops assms(2,4,5) f3 even
    by cases (auto simp: next_pc_def isa_next_def Let_def opcode_views)
qed

section \<open>The pipeline and the instruction set\<close>

lemma step_in_order:
  assumes run: "quiet_run S L n" and dom: "\<forall>i < n. in_domain S i" and i: "i < n"
    and path: "on_path (S i)" "orderly (S i) (S (Suc i))"
  shows "on_path (S (Suc i))" "(register_file (fw (S (i + 3))), next_address (S (Suc i))) =
    (let st = (register_file (fw (S (i + 2))), next_address (S i)) in
     if executes (S i) then isa_step st (x_instruction (cur_x_reg (S i))) else st)"
proof -
  have c: "cycle (S i) (L i) = Inr (S (Suc i), L (Suc i))" "w_global_memory_stall (cur_w_reg (S i)) = 0"
    using run i by (simp_all add: quiet_run_def)
  note p = path_step [OF c(1) quiet_run_inv [OF run] c(2) path]
  show "on_path (S (Suc i))" using p(1) i by simp
  have regs: "register_file (fw (S (i + 3))) = file_after S i" by (rule retires_in_order [OF run dom i])
  show "(register_file (fw (S (i + 3))), next_address (S (Suc i))) =
    (let st = (register_file (fw (S (i + 2))), next_address (S i)) in
     if executes (S i) then isa_step st (x_instruction (cur_x_reg (S i))) else st)"
  proof (cases "executes (S i)")
    case True
    let ?x = "cur_x_reg (S i)" and ?regs = "register_file (fw (S (i + 2)))"
    obtain rs1 rs2 rd where ops: "operand_registers (x_instruction ?x) = (rs1, rs2, rd)"
      by (cases "operand_registers (x_instruction ?x)")
    obtain j where j: "i = Suc j" using True run by (cases i) (auto simp: quiet_run_def executes_def)
    then have "in_domain S j" "register_file (fw (S (j + 3))) = file_after S j"
      using dom i retires_in_order [OF run dom, of j] by simp_all
    note vals = step_operands [OF run i [unfolded j] this True [unfolded j] refl refl ops [unfolded j]]
    have "isa_domain (x_instruction ?x) ?regs" using dom i True by (auto simp: in_domain_def in_execute_def)
    from next_pc_isa [OF this refl ops] vals have "next_pc ?x = isa_next ?regs (x_instruction ?x) (x_pc ?x)"
      by (simp add: j numeral_3_eq_3)
    with True regs p(2,3) i show ?thesis by (simp add: isa_step_def file_after_def in_execute_def Let_def)
  qed (use regs p(3) i in \<open>simp add: file_after_def Let_def\<close>)
qed

text \<open>\<open>addi x5, x1, -3\<close> with 10 for x1 still on its way, in the run of \<open>issue_machine\<close>.\<close>

lemma addi_fields: "r_opcode (data_r 0xFFD08293) = 0b0010011" "r_rs1 (data_r 0xFFD08293) = 1"
  "r_rd (data_r 0xFFD08293) = 5" "r_funct3 (data_r 0xFFD08293) = 0" "imm_I 0xFFD08293 = - 3"
  by (simp_all add: data_r_def imm_I_def)

lemma addi_effect:
  assumes "reg_value regs 1 = 10"
  shows "isa_domain 0xFFD08293 regs" "isa_exec regs (0xFFD08293, pc) = regs[5 := 7]"
  using assms
  by (simp_all add: isa_domain_def isa_exec_def alu_agrees_def isa_alu_def Let_def addi_fields
      no_overflow_def isa_op_imm_def)

end
