(* ===== verification/Data_Path.thy ===== *)
theory Data_Path
  imports Control_Flow
begin

text \<open>
  Loads and stores through the pipeline: the memory stage over the data TLB and the data cache,
  and the cycles around it. Memory is seen through the cache, as \<open>view\<close> of the framework and the
  table.
\<close>

section \<open>The memory stage\<close>

definition mem_view :: "machine \<Rightarrow> u64 \<Rightarrow> u8" where
  "mem_view s = view (fw s) (data_cache s)"

definition mem_inv :: "machine \<Rightarrow> bool" where
  "mem_inv s \<longleftrightarrow> dcache_inv (fw s) (data_cache s)"

text \<open>The physical address of the access in the memory register, when the TLB knows it.\<close>

definition data_address :: "machine \<Rightarrow> u64 option" where
  "data_address s =
     (let va = ucast (m_address (cur_m_reg s)) in
      map_option (\<lambda>pp. ucast (translated_address pp va)) (tlb_lookup (dtlb s) (superpage va)))"

text \<open>The value of the instruction set for the loaded bytes.\<close>

definition isa_load :: "u8 \<Rightarrow> bool \<Rightarrow> u8 list \<Rightarrow> u64" where
  "isa_load sz sign bs =
     (if sign then signed_take_bit (8 * unat sz - 1) (le_word bs) else le_word bs)"

text \<open>
  When the cache can serve an access at once: a read of a line it holds, or a miss at the start of
  a line, with a memory that answers at once and a clean way to replace; for writes, the cases
  in which the cache keeps the bytes that are written.
\<close>

definition read_served :: "framework \<Rightarrow> cache_table \<Rightarrow> u64 \<Rightarrow> bool" where
  "read_served f c a \<longleftrightarrow> dcache_lookup c a \<noteq> None \<or>
     proper f a 8 \<and> memory_read_latency f = 0 \<and> \<not> rd_dirty (d_way c a (victim c a))"

definition write_served :: "framework \<Rightarrow> cache_table \<Rightarrow> u64 \<Rightarrow> u8 \<Rightarrow> bool" where
  "write_served f c a sz \<longleftrightarrow> off a + unat sz \<le> 8 \<and>
     (d_match (d_row0 c a) a \<and> rd_dirty (d_row0 c a) \<or>
      dcache_lookup c a = None \<and> \<not> rd_dirty (d_way c a (victim c a)) \<and>
      (sz = 8 \<or> proper f a 8 \<and> memory_read_latency f = 0 \<and> (victim c a \<longrightarrow> \<not> rd_valid (d_row1 c a))))"

text \<open>The memory stage with an untainted access whose address is translated.\<close>

lemma memory_translated:
  assumes "has_initialised s" "w_tainted_executions (cur_w_reg s) = 0" "m_wasStalled (cur_m_reg s) = 0"
    and "data_address s = Some pa" "m_readWrite (cur_m_reg s) \<in> {1, 2}"
  shows "\<exists>p. ucast p = pa \<and> stage_memory s w =
    (if m_readWrite (cur_m_reg s) = 2
     then memory_load_access s (w\<lparr>w_tainted_executions := 0\<rparr>) p True
     else memory_store_access s (w\<lparr>w_tainted_executions := 0\<rparr>) p True)"
proof -
  let ?va = "ucast (m_address (cur_m_reg s)) :: u32"
  obtain pp where pp: "tlb_lookup (dtlb s) (superpage ?va) = Some pp" "pa = ucast (translated_address pp ?va)"
    using assms(4) by (auto simp: data_address_def Let_def)
  have ga: "get_address (fw s) (dtlb s) ?va 0 0xFF = Inr (0xFE, translated_address pp ?va, dtlb s, fw s)"
    using pp(1) by (simp add: get_address_fresh)
  show ?thesis
    using assms(1-3,5) ga pp(2)
    by (intro exI [of _ "translated_address pp ?va"]) (auto simp: stage_memory_def initialise_def Let_def)
qed

lemma memory_stage_load:
  assumes inv: "machine_inv s" "has_initialised s" "mem_inv s"
    and m: "m = cur_m_reg s" "m_readWrite m = 2" "m_wasStalled m = 0"
    and "w_tainted_executions (cur_w_reg s) = 0" "data_address s = Some pa"
    and acc: "d_access pa (ucast (m_size m))" "read_served (fw s) (data_cache s) pa" "may_read (fw s)"
    and upper: "drop_bit (8 * unat (m_size m)) (w_value w) = 0"
  shows "\<exists>w' t. stage_memory s w = Inr (w', t) \<and> mem_inv t \<and> mem_view t = mem_view s \<and>
    w_op w' = 1 \<and> w_global_memory_stall w' = 0 \<and> w_reg w' = m_reg m \<and>
    w_value w' = isa_load (m_size m) (m_signExtend m \<noteq> 0) (fetch_bytes (mem_view s) pa (unat (m_size m)))"
proof -
  let ?w = "w\<lparr>w_tainted_executions := 0\<rparr>"
  obtain p where p: "ucast p = pa" "stage_memory s w = memory_load_access s ?w p True"
    using memory_translated [OF inv(2) assms(7), of pa w] m assms(8) by auto
  have wf: "m_size m \<in> {1, 2, 4, 8}" "m_signExtend m \<noteq> 0 \<longrightarrow> m_size m \<noteq> 8"
    using inv(1) m(1,2) by (auto simp: machine_inv_def wf_m_def)
  have n: "unat (ucast (m_size m) :: u64) = unat (m_size m)" "unat (m_size m) \<le> 8"
    using wf(1) by (simp add: unat_ucast_up, auto)
  obtain c1 f1 where rd: "read_access (fw s) (data_cache s) pa (ucast (m_size m)) (le_bytes 8 (w_value ?w)) False True =
      Inr (0, view_bytes (fw s) (data_cache s) pa (unat (m_size m)) @ drop (unat (m_size m)) (le_bytes 8 (w_value ?w)), c1, f1)"
    and keep: "dcache_inv f1 c1" "view f1 c1 = view (fw s) (data_cache s)"
    using data_read [OF inv(3) [unfolded mem_inv_def] acc(1), of "le_bytes 8 (w_value ?w)"] acc(2,3) n
    by (auto simp: read_served_def)
  have "length (view_bytes (fw s) (data_cache s) pa (unat (m_size m))) = unat (m_size m)"
    by (simp add: view_bytes_def)
  from load_value [OF _ m(1) wf this refl, of p ?w True c1 f1] rd p m(1,3) upper keep show ?thesis
    by (auto simp: mem_inv_def mem_view_def isa_load_def view_bytes_def)
qed

lemma memory_stage_store:
  assumes inv: "machine_inv s" "has_initialised s" "mem_inv s"
    and m: "m = cur_m_reg s" "m_readWrite m = 1" "m_wasStalled m = 0"
    and "w_tainted_executions (cur_w_reg s) = 0" "data_address s = Some pa"
    and acc: "write_served (fw s) (data_cache s) pa (m_size m)" "may_read (fw s)"
  shows "\<exists>w' t. stage_memory s w = Inr (w', t) \<and> mem_inv t \<and> w_op w' = 0 \<and> w_global_memory_stall w' = 0 \<and>
    mem_view t = store_bytes (mem_view s) pa (le_bytes (unat (m_size m)) (m_value m))"
proof -
  obtain p where p: "ucast p = pa" "stage_memory s w = memory_store_access s (w\<lparr>w_tainted_executions := 0\<rparr>) p True"
    using memory_translated [OF inv(2) assms(7), of pa w] m assms(8) by auto
  have "m_size m \<in> {1, 2, 4, 8}" using inv(1) m(1,2) by (auto simp: machine_inv_def wf_m_def)
  then obtain c1 f1 where "write_access (fw s) (data_cache s) pa (m_value m) (m_size m) False True = Inr (0, c1, f1)"
    "dcache_inv f1 c1" "view f1 c1 = store_bytes (view (fw s) (data_cache s)) pa (le_bytes (unat (m_size m)) (m_value m))"
    using data_write [OF inv(3) [unfolded mem_inv_def], of pa "m_size m" "m_value m"] acc
    unfolding write_served_def by blast
  with p m show ?thesis
    by (simp add: memory_store_access_def Let_def memory_nop_def mem_inv_def mem_view_def)
qed

section \<open>The memory stage within a cycle\<close>

text \<open>Execute, decode and fetch leave the memory and the data cache alone.\<close>

definition same_data :: "machine \<Rightarrow> machine \<Rightarrow> bool" where
  "same_data s t \<longleftrightarrow> data_cache t = data_cache s \<and> dtlb t = dtlb s \<and> riscv_mem (fw t) = riscv_mem (fw s)"

lemma same_data_simps [simp]:
  "same_data s s" "same_data s (in_stage b t) = same_data s t" "same_data (in_stage b s) t = same_data s t"
  "riscv_mem (set_pc f pc) = riscv_mem f"
  by (simp_all add: same_data_def in_stage_def set_pc_def)

lemma initialise_id: "has_initialised s \<Longrightarrow> initialise s = Inr s"
  by (simp add: initialise_def)

lemma execute_same_data:
  "stage_execute s m = Inr (m', t) \<Longrightarrow> has_initialised s \<Longrightarrow> same_data s t"
  by (auto simp: stage_execute_def finish_execute_def Let_def initialise_id same_data_def
      split: sum.splits if_splits)

lemma decode_same_data:
  "stage_decode s x = Inr (x', t) \<Longrightarrow> has_initialised s \<Longrightarrow> same_data s t \<and> has_initialised t"
  by (auto simp: stage_decode_def Let_def initialise_id same_data_def split_beta split: if_splits)

lemma fetch_same_data:
  assumes "stage_fetch s d = Inr (d', t)" "machine_inv s" "has_initialised s"
  shows "same_data s t"
proof -
  have u: "initialise s = Inr s" using assms(3) by (rule initialise_id)
  from assms(1) u obtain st pa tb f where ga: "get_address (fw s) (itlb s) (ucast (get_pc (fw s))) 0
      (if d_will_be_stalled (cur_d_reg s) = 2 then d_tlb_stall_status (cur_d_reg s) else 0xFF) =
      Inr (st, pa, tb, f)"
    by (auto simp: stage_fetch_def Let_def split: sum.splits)
  have f: "riscv_mem f = riscv_mem (fw s)"
    using get_address_frame [OF ga] assms(2) by (simp add: machine_inv_def)
  show ?thesis
  proof (cases "st \<noteq> 0xFE \<and> st \<noteq> 0xFF")
    case True
    with assms(1) u ga f show ?thesis by (auto simp: stage_fetch_def Let_def same_data_def)
  next
    case False
    with assms(1) u ga obtain rs v ic f1 where ra: "read_access f (instruction_cache s) (ucast pa) 4
        (le_bytes 4 (d_instruction d)) (d_will_be_stalled (cur_d_reg s) = 1) (st = 0xFE) =
        Inr (rs, v, ic, f1)"
      by (auto simp: stage_fetch_def Let_def split: sum.splits)
    have "riscv_mem f1 = riscv_mem f"
      using read_access_keeps(3) [OF ra] machine_inv_caches [OF assms(2,3)] by simp
    with assms(1) u ga ra False f show ?thesis
      by (auto simp: stage_fetch_def Let_def same_data_def split: if_splits)
  qed
qed

text \<open>The state that the memory stage of a cycle sees, and what the rest of the cycle keeps of its result.\<close>

lemma cycle_data:
  assumes "cycle s l = Inr (s', l')" "machine_inv s" "has_initialised s" "memory_accesses_issued (fw s) = 0"
  obtains t u where "stage_memory t (new_w_reg l) = Inr (cur_w_reg s', u)" "machine_inv t" "has_initialised t"
    "same_regs s t" "same_data s t" "may_read (fw t)" "same_data u s'"
proof (rule cycle_stages [OF assms(1,2)])
  fix s1 s2 s3 s4 s5 w m x d
  assume wb: "stage_writeback (in_stage STAGE_W_BIT (s\<lparr>fw := register_reset_cycle (fw s)\<rparr>)) = Inr s1"
    and me: "stage_memory (in_stage STAGE_M_BIT s1) (new_w_reg l) = Inr (w, s2)"
    and ex: "stage_execute (in_stage STAGE_X_BIT s2) (new_m_reg l) = Inr (m, s3)"
    and de: "stage_decode (in_stage STAGE_D_BIT s3) (new_x_reg l) = Inr (x, s4)"
    and fe: "stage_fetch (in_stage STAGE_F_BIT s4) (new_d_reg l) = Inr (d, s5)"
    and s': "s' = s5\<lparr>cur_d_reg := d, cur_x_reg := x, cur_m_reg := m, cur_w_reg := w,
       fw := memory_retire_completed ((fw s5)\<lparr>cycle_counter := cycle_counter (fw s5) + 1\<rparr>)\<rparr>"
    and mid: "mid_cycle s s1" "mid_cycle s s4" and ini: "has_initialised s2"
  have 1: "has_initialised s1" "same_data s s1" "memory_accesses_issued (fw s1) = 0"
    using wb assms(3,4)
    by (auto simp: stage_writeback_def initialise_id same_data_def in_stage_def register_write_def
        register_reset_cycle_def split: if_splits)
  have 3: "same_data s2 s3" "has_initialised s3"
    using execute_same_data [OF ex] ini execute_initialised [OF ex] by simp_all
  have 4: "same_data s3 s4" "has_initialised s4" using decode_same_data [OF de] 3(2) by simp_all
  have "same_data s4 s5" using fetch_same_data [OF fe] mid(2) 4(2) by (simp add: mid_cycle_def)
  with 3 4 have "same_data s2 s'" by (auto simp: same_data_def s' memory_retire_completed_def)
  moreover have "may_read (fw (in_stage STAGE_M_BIT s1))"
    using 1(3) by (simp add: may_read_def port_free_def in_stage_def)
  moreover have "same_regs s (in_stage STAGE_M_BIT s1)" "machine_inv (in_stage STAGE_M_BIT s1)"
    using mid(1) same_regs_trans [OF _ in_stage_inv(2)] by (simp_all add: mid_cycle_def)
  ultimately show thesis
    using that [of "in_stage STAGE_M_BIT s1" s2] me 1 s' by simp
qed

lemma served_cong:
  assumes "riscv_mem_size g = riscv_mem_size f" "memory_read_latency g = memory_read_latency f"
  shows "read_served g c a = read_served f c a" "write_served g c a sz = write_served f c a sz"
  using assms by (simp_all add: read_served_def write_served_def proper_def in_block_def)

lemma mid_served:
  assumes "same_regs s t" "same_data s t"
  shows "read_served (fw t) (data_cache t) a = read_served (fw s) (data_cache s) a"
    "write_served (fw t) (data_cache t) a sz = write_served (fw s) (data_cache s) a sz"
  using assms served_cong [of "fw t" "fw s"] by (simp_all add: same_regs_def same_data_def settings_def)

lemma mem_cong:
  assumes "same_data s t"
  shows "mem_view t = mem_view s" "mem_inv t = mem_inv s"
  using assms by (auto simp: same_data_def mem_view_def mem_inv_def view_def dcache_inv_def
      clean_coherent_def cong: option.case_cong)

lemma data_address_cong: "same_data s t \<Longrightarrow> same_regs s t \<Longrightarrow> data_address t = data_address s"
  by (simp add: data_address_def same_data_def same_regs_def)

text \<open>A load in the memory register: one cycle reads, the next writes the register.\<close>

lemma load_cycles:
  assumes inv: "machine_inv s" "has_initialised s" "mem_inv s" "memory_accesses_issued (fw s) = 0"
    and c: "cycle s l = Inr (s1, l1)" "cycle s1 l1 = Inr (s2, l2)"
    and m: "m = cur_m_reg s" "m_readWrite m = 2" "m_wasStalled m = 0"
    and "w_tainted_executions (cur_w_reg s) = 0" "data_address s = Some pa"
    and acc: "d_access pa (ucast (m_size m))" "read_served (fw s) (data_cache s) pa"
    and upper: "drop_bit (8 * unat (m_size m)) (w_value (new_w_reg l)) = 0"
  shows "mem_inv s1 \<and> mem_view s1 = mem_view s \<and>
    register_file (fw s2) = (register_file (fw s1))[unat (m_reg m) :=
      isa_load (m_size m) (m_signExtend m \<noteq> 0) (fetch_bytes (mem_view s) pa (unat (m_size m)))]"
proof -
  obtain t u where t: "stage_memory t (new_w_reg l) = Inr (cur_w_reg s1, u)" "machine_inv t" "has_initialised t"
    "same_regs s t" "same_data s t" "may_read (fw t)" "same_data u s1"
    by (rule cycle_data [OF c(1) inv(1,2,4)])
  have mt: "m = cur_m_reg t" "w_tainted_executions (cur_w_reg t) = 0"
    using t(4) m(1) assms(10) by (simp_all add: same_regs_def)
  have "read_served (fw t) (data_cache t) pa" using acc(2) mid_served(1) [OF t(4,5)] by simp
  from memory_stage_load [OF t(2,3) _ mt(1) m(2,3) mt(2) _ acc(1) this t(6) upper] t(1)
  have w: "mem_inv u" "mem_view u = mem_view s" "w_op (cur_w_reg s1) = 1" "w_reg (cur_w_reg s1) = m_reg m"
    "w_value (cur_w_reg s1) = isa_load (m_size m) (m_signExtend m \<noteq> 0) (fetch_bytes (mem_view s) pa (unat (m_size m)))"
    using mem_cong [OF t(5)] inv(3) data_address_cong [OF t(5,4)] assms(11) by auto
  have "m_reg m < 32" using inv(1) m by (simp add: machine_inv_def wf_m_def)
  with w(3-5) cycle_keeps(2) [OF c(2) cycle_keeps(1) [OF c(1) inv(1)]] small_mod
  have "register_file (fw s2) = (register_file (fw s1))[unat (m_reg m) :=
      isa_load (m_size m) (m_signExtend m \<noteq> 0) (fetch_bytes (mem_view s) pa (unat (m_size m)))]"
    by (simp add: file_after_writeback_def)
  with w(1,2) mem_cong [OF t(7)] show ?thesis by simp
qed

lemma store_cycle:
  assumes inv: "machine_inv s" "has_initialised s" "mem_inv s" "memory_accesses_issued (fw s) = 0"
    and c: "cycle s l = Inr (s1, l1)"
    and m: "m = cur_m_reg s" "m_readWrite m = 1" "m_wasStalled m = 0"
    and "w_tainted_executions (cur_w_reg s) = 0" "data_address s = Some pa"
    and acc: "write_served (fw s) (data_cache s) pa (m_size m)"
  shows "mem_inv s1 \<and> w_op (cur_w_reg s1) = 0 \<and> w_global_memory_stall (cur_w_reg s1) = 0 \<and>
    mem_view s1 = store_bytes (mem_view s) pa (le_bytes (unat (m_size m)) (m_value m))"
proof -
  obtain t u where t: "stage_memory t (new_w_reg l) = Inr (cur_w_reg s1, u)" "machine_inv t" "has_initialised t"
    "same_regs s t" "same_data s t" "may_read (fw t)" "same_data u s1"
    by (rule cycle_data [OF c(1) inv(1,2,4)])
  have mt: "m = cur_m_reg t" "w_tainted_executions (cur_w_reg t) = 0"
    using t(4) m(1) assms(9) by (simp_all add: same_regs_def)
  have "write_served (fw t) (data_cache t) pa (m_size m)" using acc mid_served(2) [OF t(4,5)] by simp
  from memory_stage_store [OF t(2,3) _ mt(1) m(2,3) mt(2) _ this t(6), of "new_w_reg l"] t(1)
  show ?thesis
    using mem_cong [OF t(5)] mem_cong [OF t(7)] inv(3) data_address_cong [OF t(5,4)] assms(10) by auto
qed

section \<open>Loads and stores from decode on\<close>

lemma execute_memory_op:
  assumes "stage_execute s m = Inr (m', t)" "cur_x_reg s = x" "w = x_instruction x"
    and "w_global_memory_stall (cur_w_reg s) = 0" "x_not_stalled x \<noteq> 0"
    and "m_tainted_executions (cur_m_reg s) = 0"
  shows "u_opcode (data_u w) = 0b0000011 \<Longrightarrow> load_kind (i_funct3 (data_i w)) = Some (sz, sign) \<Longrightarrow>
      m_readWrite m' = 2 \<and> m_wasStalled m' = 0 \<and> m_address m' = x_rs1_value x + scast (imm_I w) \<and>
      m_size m' = sz \<and> m_reg m' = r_dest w \<and> m_signExtend m' = of_bool sign"
    and "u_opcode (data_u w) = 0b0100011 \<Longrightarrow> store_size (s_funct3 (data_s w)) = Some sz \<Longrightarrow>
      m_readWrite m' = 1 \<and> m_wasStalled m' = 0 \<and> m_address m' = x_rs1_value x + scast (imm_S w) \<and>
      m_size m' = sz \<and> m_value m' = take_bit (8 * unat sz) (x_rs2_value x)"
proof -
  have w: "u_opcode (data_u w) \<noteq> 0 \<Longrightarrow> w \<noteq> 0" by (auto simp: data_u_def)
  show "m_readWrite m' = 2 \<and> m_wasStalled m' = 0 \<and> m_address m' = x_rs1_value x + scast (imm_I w) \<and>
      m_size m' = sz \<and> m_reg m' = r_dest w \<and> m_signExtend m' = of_bool sign"
    if "u_opcode (data_u w) = 0b0000011" "load_kind (i_funct3 (data_i w)) = Some (sz, sign)"
    using assms that w
    by (auto simp: stage_execute_def Let_def major_dispatch_table_def load_dispatch_eq finish_execute_def
        dest_views split: sum.splits if_splits)
  show "m_readWrite m' = 1 \<and> m_wasStalled m' = 0 \<and> m_address m' = x_rs1_value x + scast (imm_S w) \<and>
      m_size m' = sz \<and> m_value m' = take_bit (8 * unat sz) (x_rs2_value x)"
    if "u_opcode (data_u w) = 0b0100011" "store_size (s_funct3 (data_s w)) = Some sz"
    using assms that w
    by (auto simp: stage_execute_def Let_def major_dispatch_table_def store_dispatch_eq finish_execute_def
        split: sum.splits if_splits)
qed

lemma fetch_initialised:
  assumes "stage_fetch s d = Inr (d', t)"
  shows "has_initialised t"
proof -
  from assms obtain u where u: "initialise s = Inr u"
    by (auto simp: stage_fetch_def split: sum.splits)
  with initialise_keeps(7) [OF u] assms show ?thesis
    by (auto simp: stage_fetch_def Let_def split: sum.splits if_splits)
qed

lemma cycle_ready:
  assumes "cycle s l = Inr (s', l')" "machine_inv s"
  shows "has_initialised s'" "memory_accesses_issued (fw s') = 0" "new_w_reg l' = cur_w_reg s'"
proof -
  show "memory_accesses_issued (fw s') = 0" by (rule cycle_keeps(6) [OF assms])
  show "has_initialised s'" "new_w_reg l' = cur_w_reg s'"
    by (rule cycle_stages [OF assms], drule fetch_initialised, simp)+
qed

text \<open>The operand values of an issued instruction, register 0 included.\<close>

lemma issued_values:
  assumes "machine_inv s" "cycle s l = Inr (s1, l1)" "cycle s1 l1 = Inr (s2, l2)" "zero_kept s"
    and "x_not_stalled (cur_x_reg s1) \<noteq> 0"
    and "operand_registers (d_instruction (cur_d_reg s)) = (rs1, rs2, rd)"
  shows "x_instruction (cur_x_reg s1) = d_instruction (cur_d_reg s)"
    "rs1 \<noteq> - 1 \<Longrightarrow> x_rs1_value (cur_x_reg s1) = register_read_one (fw s2) (scast rs1)"
    "rs2 \<noteq> - 1 \<Longrightarrow> x_rs2_value (cur_x_reg s1) = register_read_one (fw s2) (scast rs2)"
  using issued_operands [OF assms(1-3) refl assms(5,6)] issued_zero [OF assms(1,2,4) refl assms(5,6)]
    regs.rd_zero [of 0 "fw s2"] by force+

lemma le_bytes_take_bit: "le_bytes n (take_bit (8 * n) (v :: u64)) = le_bytes n v"
proof (rule nth_equalityI)
  fix i assume "i < length (le_bytes n (take_bit (8 * n) v))"
  then have "i < n" by simp
  then show "le_bytes n (take_bit (8 * n) v) ! i = le_bytes n v ! i"
    by (auto intro!: bit_word_eqI simp: bit_ucast_iff bit_drop_bit_eq bit_take_bit_iff)
qed simp

lemma load_operands:
  assumes "u_opcode (data_u w) = 0b0000011"
  shows "operand_registers w = (ucast (i_rs1 (data_i w)), - 1, ucast (i_rd (data_i w)))"
proof -
  have "i_opcode (data_i w) = 0b0000011" using assms by (simp add: data_i_def data_u_def)
  then show ?thesis by (simp add: operand_registers_def decoding_type_def Let_def)
qed

lemma store_operands:
  assumes "u_opcode (data_u w) = 0b0100011"
  shows "operand_registers w = (ucast (s_rs1 (data_s w)), ucast (s_rs2 (data_s w)), - 1)"
proof -
  have "i_opcode (data_i w) = 0b0100011" using assms by (simp add: data_i_def data_u_def)
  then show ?thesis by (simp add: operand_registers_def decoding_type_def Let_def)
qed

text \<open>An issued access, two cycles later in the memory register.\<close>

lemma load_prepared:
  assumes "machine_inv s" "cycle s l = Inr (s1, l1)" "cycle s1 l1 = Inr (s2, l2)"
    and "w = d_instruction (cur_d_reg s)" "x_not_stalled (cur_x_reg s1) \<noteq> 0" "zero_kept s"
    and "m_tainted_executions (cur_m_reg s1) = 0" "w_global_memory_stall (cur_w_reg s1) = 0"
    and "u_opcode (data_u w) = 0b0000011" "load_kind (i_funct3 (data_i w)) = Some (sz, sign)"
  shows "m_readWrite (cur_m_reg s2) = 2 \<and> m_wasStalled (cur_m_reg s2) = 0 \<and>
    m_address (cur_m_reg s2) = register_read_one (fw s2) (ucast (i_rs1 (data_i w))) + scast (imm_I w) \<and>
    m_size (cur_m_reg s2) = sz \<and> m_reg (cur_m_reg s2) = r_dest w \<and> m_signExtend (cur_m_reg s2) = of_bool sign"
proof -
  have ops: "operand_registers (d_instruction (cur_d_reg s)) =
      (ucast (i_rs1 (data_i w)), - 1, ucast (i_rd (data_i w)))"
    using load_operands [OF assms(9)] assms(4) by simp
  note issued = issued_values [OF assms(1-3,6,5) ops]
  have base: "x_rs1_value (cur_x_reg s1) = register_read_one (fw s2) (ucast (i_rs1 (data_i w)))"
    using issued(2) register_field by simp
  from cycle_execute [OF assms(3) cycle_keeps(1) [OF assms(2,1)]] obtain t u where
    ex: "stage_execute (in_stage STAGE_X_BIT t) (new_m_reg l1) = Inr (cur_m_reg s2, u)" and t: "same_regs s1 t"
    by blast
  show ?thesis
    unfolding base [symmetric] using t assms(4,5,7,8) issued(1) assms(9,10)
    by (intro execute_memory_op(1) [OF ex]) (simp_all add: same_regs_def)
qed

lemma store_prepared:
  assumes "machine_inv s" "cycle s l = Inr (s1, l1)" "cycle s1 l1 = Inr (s2, l2)"
    and "w = d_instruction (cur_d_reg s)" "x_not_stalled (cur_x_reg s1) \<noteq> 0" "zero_kept s"
    and "m_tainted_executions (cur_m_reg s1) = 0" "w_global_memory_stall (cur_w_reg s1) = 0"
    and "u_opcode (data_u w) = 0b0100011" "store_size (s_funct3 (data_s w)) = Some sz"
  shows "m_readWrite (cur_m_reg s2) = 1 \<and> m_wasStalled (cur_m_reg s2) = 0 \<and>
    m_address (cur_m_reg s2) = register_read_one (fw s2) (ucast (s_rs1 (data_s w))) + scast (imm_S w) \<and>
    m_size (cur_m_reg s2) = sz \<and>
    m_value (cur_m_reg s2) = take_bit (8 * unat sz) (register_read_one (fw s2) (ucast (s_rs2 (data_s w))))"
proof -
  have ops: "operand_registers (d_instruction (cur_d_reg s)) =
      (ucast (s_rs1 (data_s w)), ucast (s_rs2 (data_s w)), - 1)"
    using store_operands [OF assms(9)] assms(4) by simp
  note issued = issued_values [OF assms(1-3,6,5) ops]
  have vals: "x_rs1_value (cur_x_reg s1) = register_read_one (fw s2) (ucast (s_rs1 (data_s w)))"
    "x_rs2_value (cur_x_reg s1) = register_read_one (fw s2) (ucast (s_rs2 (data_s w)))"
    using issued(2,3) register_field by simp_all
  from cycle_execute [OF assms(3) cycle_keeps(1) [OF assms(2,1)]] obtain t u where
    ex: "stage_execute (in_stage STAGE_X_BIT t) (new_m_reg l1) = Inr (cur_m_reg s2, u)" and t: "same_regs s1 t"
    by blast
  show ?thesis
    unfolding vals [symmetric] using t assms(4,5,7,8) issued(1) assms(9,10)
    by (intro execute_memory_op(2) [OF ex]) (simp_all add: same_regs_def)
qed

lemma untainted: "machine_inv s \<Longrightarrow> w_global_memory_stall (cur_w_reg s) = 0 \<Longrightarrow> w_tainted_executions (cur_w_reg s) = 0"
  by (auto simp: machine_inv_def wf_w_def)

text \<open>
  Property C4: a load through the pipeline. Let decode issue a load in a machine in which no value but
  zero is on its way to register 0 (\<open>zero_kept\<close>), and let this and the next three cycles complete with
  no flush and no stall of an older access on the way. Let \<open>mem_inv\<close> hold in the cycle of the access:
  every clean line of the data cache holds what memory holds, which a store hit on a clean line breaks,
  and no line is in both ways of its set.
  If the data TLB knows the page, the access is aligned to 4 bytes and stays inside its line
  (\<open>d_access\<close>), the cache can serve it (\<open>read_served\<close>: a hit, or a miss at the start of a line over a
  clean way with a memory that answers at once), and the value left in the write-back register is no
  longer than the access, then the fourth cycle writes to the destination register the bytes that memory
  holds, seen through the data cache, at the translation of base plus offset, extended as the
  instruction says; no other register and no byte of memory changes.
\<close>
theorem load_retires:
  assumes "machine_inv s" "cycle s l = Inr (s1, l1)" "cycle s1 l1 = Inr (s2, l2)"
    "cycle s2 l2 = Inr (s3, l3)" "cycle s3 l3 = Inr (s4, l4)"
    and "w = d_instruction (cur_d_reg s)" "x_not_stalled (cur_x_reg s1) \<noteq> 0" "zero_kept s"
    and "m_tainted_executions (cur_m_reg s1) = 0" "w_global_memory_stall (cur_w_reg s1) = 0"
    and "w_global_memory_stall (cur_w_reg s2) = 0"
    and "u_opcode (data_u w) = 0b0000011" "load_kind (i_funct3 (data_i w)) = Some (sz, sign)"
    and "va = ucast (register_read_one (fw s2) (ucast (i_rs1 (data_i w))) + scast (imm_I w))"
    and "tlb_lookup (dtlb s2) (superpage va) = Some pp" "pa = ucast (translated_address pp va)"
    and "mem_inv s2" "d_access pa (ucast sz)" "read_served (fw s2) (data_cache s2) pa"
    and "drop_bit (8 * unat sz) (w_value (cur_w_reg s2)) = 0"
  shows "mem_inv s3 \<and> mem_view s3 = mem_view s2 \<and>
    register_file (fw s4) = (register_file (fw s3))[unat (i_rd (data_i w)) :=
      isa_load sz sign (fetch_bytes (mem_view s2) pa (unat sz))]"
proof -
  have inv: "machine_inv s1" "machine_inv s2" using cycle_keeps(1) assms(1-3) by blast+
  note ready = cycle_ready [OF assms(3) inv(1)]
  note m = load_prepared [OF assms(1-3,6-10,12,13)]
  note taint = untainted [OF inv(2) assms(11)]
  have "data_address s2 = Some pa" using m assms(14-16) by (simp add: data_address_def)
  from load_cycles [OF inv(2) ready(1) assms(17) ready(2) assms(4,5) refl _ _ taint this] m assms(18-20) ready(3)
  have "mem_inv s3 \<and> mem_view s3 = mem_view s2 \<and> register_file (fw s4) = (register_file (fw s3))[unat (r_dest w) :=
      isa_load sz sign (fetch_bytes (mem_view s2) pa (unat sz))]"
    by simp
  moreover have "unat (r_dest w) = unat (i_rd (data_i w))"
    by (simp add: r_dest_def data_r_def data_i_def unat_ucast_up)
  ultimately show ?thesis by simp
qed

text \<open>
  Property C5: a store through the pipeline. Let decode issue a store in a machine in which no value but
  zero is on its way to register 0 (\<open>zero_kept\<close>), and let this and the next two cycles complete with no
  flush and no stall of an older access on the way. Let \<open>mem_inv\<close> hold in the cycle of the access: every
  clean line of the data cache holds what memory holds, and no line is in both ways of its set. If the
  data TLB knows the page, the access stays inside its line and the cache can serve it (\<open>write_served\<close>: a
  hit on a dirty line in the first way, or a miss over a clean way, where a store of less than 8 bytes
  is at the start of the line, memory answers at once, and the second way is only taken while it is
  invalid), the third cycle stores the low bytes of the second operand
  at the translation of base plus offset, in memory as seen through the data cache, and no register
  write follows.
\<close>
theorem store_retires:
  assumes "machine_inv s" "cycle s l = Inr (s1, l1)" "cycle s1 l1 = Inr (s2, l2)"
    "cycle s2 l2 = Inr (s3, l3)"
    and "w = d_instruction (cur_d_reg s)" "x_not_stalled (cur_x_reg s1) \<noteq> 0" "zero_kept s"
    and "m_tainted_executions (cur_m_reg s1) = 0" "w_global_memory_stall (cur_w_reg s1) = 0"
    and "w_global_memory_stall (cur_w_reg s2) = 0"
    and "u_opcode (data_u w) = 0b0100011" "store_size (s_funct3 (data_s w)) = Some sz"
    and "va = ucast (register_read_one (fw s2) (ucast (s_rs1 (data_s w))) + scast (imm_S w))"
    and "tlb_lookup (dtlb s2) (superpage va) = Some pp" "pa = ucast (translated_address pp va)"
    and "mem_inv s2" "write_served (fw s2) (data_cache s2) pa sz"
    and "b = register_read_one (fw s2) (ucast (s_rs2 (data_s w)))"
  shows "mem_inv s3 \<and> mem_view s3 = store_bytes (mem_view s2) pa (le_bytes (unat sz) b) \<and>
    w_op (cur_w_reg s3) = 0"
proof -
  have inv: "machine_inv s1" "machine_inv s2" using cycle_keeps(1) assms(1-3) by blast+
  note ready = cycle_ready [OF assms(3) inv(1)]
  note m = store_prepared [OF assms(1-3,5-9,11,12)]
  note taint = untainted [OF inv(2) assms(10)]
  have "data_address s2 = Some pa" using m assms(13-15) by (simp add: data_address_def)
  from store_cycle [OF inv(2) ready(1) assms(16) ready(2) assms(4) refl _ _ taint this] m assms(17,18)
  show ?thesis by (simp add: le_bytes_take_bit)
qed

section \<open>Runs\<close>

text \<open>What a cycle with nothing in the memory register keeps, and an empty decode register.\<close>

lemma idle_cycle_keeps:
  assumes "cycle s l = Inr (s', l')" "machine_inv s" "has_initialised s" "memory_accesses_issued (fw s) = 0"
    and "m_readWrite (cur_m_reg s) \<notin> {1, 2}"
  shows "same_data s s'"
proof -
  obtain t u where t: "stage_memory t (new_w_reg l) = Inr (cur_w_reg s', u)" "machine_inv t" "has_initialised t"
    "same_regs s t" "same_data s t" "may_read (fw t)" "same_data u s'"
    by (rule cycle_data [OF assms(1-4)])
  have "u = t"
    using t(1,4) assms(5) initialise_id [OF t(3)]
    by (auto simp: stage_memory_def Let_def same_regs_def split: if_splits)
  with t(5,7) show ?thesis by (simp add: same_data_def)
qed

lemma bubble_cycle:
  assumes "cycle s l = Inr (s', l')" "machine_inv s" "d_not_stalled (cur_d_reg s) = 0"
  shows "x_not_stalled (cur_x_reg s') = 0"
proof -
  obtain t u where t: "stage_decode t (new_x_reg l) = Inr (cur_x_reg s', u)" "mid_cycle s t" "has_initialised t"
    by (rule cycle_decode [OF assms(1,2)])
  then have "d_not_stalled (cur_d_reg t) = 0" using assms(3) by (simp add: mid_cycle_def same_regs_def)
  with t(1) show ?thesis by (auto simp: stage_decode_def dest!: sym [of _ "cur_x_reg s'"])
qed

lemma memory_itlb: "stage_memory s w = Inr (w', t) \<Longrightarrow> has_initialised s \<Longrightarrow> itlb t = itlb s"
  by (auto simp: stage_memory_def memory_load_access_def memory_store_access_def Let_def initialise_id
      split: sum.splits if_splits)

text \<open>A cycle of a machine whose fetch waits, when its memory stage completes.\<close>

lemma waiting_cycle_memory:
  assumes ff: "fetch_waits s l" and inv: "machine_inv s" "memory_accesses_issued (fw s) = 0"
    and me: "\<And>t. machine_inv t \<Longrightarrow> has_initialised t \<Longrightarrow> same_regs s t \<Longrightarrow> same_data s t \<Longrightarrow>
      may_read (fw t) \<Longrightarrow> \<exists>w u. stage_memory t (new_w_reg l) = Inr (w, u) \<and> w_global_memory_stall w = 0"
    and ex: "\<And>t. same_regs s t \<Longrightarrow> has_initialised t \<Longrightarrow> \<exists>m t'. stage_execute t (new_m_reg l) = Inr (m, t') \<and>
      same_regs t t' \<and> has_initialised t' \<and> itlb t' = itlb t"
  shows "\<exists>s' l'. cycle s l = Inr (s', l') \<and> fetch_faulted s' l' \<and> w_global_memory_stall (cur_w_reg s') = 0"
proof -
  have ini: "has_initialised s" using ff by (simp add: fetch_waits_def)
  let ?s0 = "in_stage STAGE_W_BIT (s\<lparr>fw := register_reset_cycle (fw s)\<rparr>)"
  have s0: "machine_inv ?s0"
    using inv(1) unfolding in_stage_inv
    by (simp add: machine_inv_def register_reset_cycle_def wf_framework_def)
  have "\<exists>s1. stage_writeback ?s0 = Inr s1"
    using ini by (cases "w_op (cur_w_reg s) = 0") (simp_all add: stage_writeback_def initialise_def)
  then obtain s1 where wb: "stage_writeback ?s0 = Inr s1" by blast
  then have 1: "has_initialised s1" "same_data s s1" "memory_accesses_issued (fw s1) = 0" "itlb s1 = itlb s"
    "same_regs s s1"
    using ini inv(2)
    by (auto simp: stage_writeback_def initialise_id same_data_def in_stage_def register_write_def
        register_reset_cycle_def same_regs_def settings_def split: if_splits)
  let ?t = "in_stage STAGE_M_BIT s1"
  have "machine_inv s1" using writeback_inv [OF wb s0] by blast
  then have t: "machine_inv ?t" "has_initialised ?t" "same_regs s ?t" "same_data s ?t"
    using 1 same_regs_trans [OF 1(5) in_stage_inv(2)] by simp_all
  have port: "may_read (fw ?t)" using 1(3) by (simp add: may_read_def port_free_def in_stage_def)
  obtain w u where m: "stage_memory ?t (new_w_reg l) = Inr (w, u)" "w_global_memory_stall w = 0"
    using me [OF t port] by blast
  have "same_regs s u" "itlb u = itlb s"
    using memory_inv [OF m(1) t(1)] t(3) memory_itlb [OF m(1) t(2)] 1(4)
    by (auto simp: in_stage_def intro: same_regs_trans)
  from waiting_cycle [OF ff m(1) wb this ex] m(2) show ?thesis by auto
qed

text \<open>
  An access to the address 0x188 in x1, whose value waits in the memory register: \<open>lb x5, 0(x1)\<close> and
  \<open>sd x2, 0(x1)\<close>, with a TLB that maps the first superpage to itself and an empty cache.
\<close>

definition access_machine :: "u32 \<Rightarrow> machine" where
  "access_machine w = faulted_machine\<lparr>fw := data_framework, dtlb := tlb_fill empty_tlb (superpage 0x188) 0,
     cur_d_reg := (cur_d_reg faulted_machine)\<lparr>d_new_pc := 4, d_instruction := w, d_not_stalled := 1\<rparr>,
     cur_x_reg := zero_x\<lparr>x_rd := - 1\<rparr>,
     cur_m_reg := zero_m\<lparr>m_readWrite := 3, m_reg := 1, m_value := 0x188\<rparr>\<rparr>"

lemma access_machine: "machine_inv (access_machine w)" "fetch_waits (access_machine w) zero_locals"
  "zero_kept (access_machine w)" "has_initialised (access_machine w)"
  "memory_accesses_issued (fw (access_machine w)) = 0" "w_tainted_executions (cur_w_reg (access_machine w)) = 0"
  "w_global_memory_stall (cur_w_reg (access_machine w)) = 0"
proof -
  have "tlb_inv (tlb_fill empty_tlb (superpage 0x188) 0)"
    by (rule tlb_inv_fill [OF tlb_inv_empty]) (simp add: tlb_slot_def)
  moreover have "wf_framework data_framework"
    using wf_boot_framework by (simp add: wf_framework_def data_framework_def)
  ultimately show "machine_inv (access_machine w)" "fetch_waits (access_machine w) zero_locals"
    "zero_kept (access_machine w)" "has_initialised (access_machine w)"
    "memory_accesses_issued (fw (access_machine w)) = 0" "w_tainted_executions (cur_w_reg (access_machine w)) = 0"
    "w_global_memory_stall (cur_w_reg (access_machine w)) = 0"
    using faulted_machine(1,2)
    by (simp_all add: access_machine_def machine_inv_def fetch_waits_def fetch_faulted_def wf_m_def zero_m_def
        zero_kept_def faulted_machine_def boot_machine_def zero_w_def data_framework_def boot_framework_def)
qed

lemma access_execute:
  assumes "x_instruction (cur_x_reg s) = w"
    "u_opcode (data_u w) = 0b0000011 \<and> i_funct3 (data_i w) = 0 \<or> u_opcode (data_u w) = 0b0100011 \<and> s_funct3 (data_s w) = 3"
    "same_regs s t" "has_initialised t"
  shows "\<exists>m' t'. stage_execute t m = Inr (m', t') \<and> same_regs t t' \<and> has_initialised t' \<and> itlb t' = itlb t"
  using assms(2)
  by (elim disjE)
    (use assms(1,3,4) in \<open>auto simp: stage_execute_def initialise_id Let_def major_dispatch_table_def
      load_dispatch_eq store_dispatch_eq load_kind_def store_size_def finish_execute_def same_regs_def\<close>)

lemma issued_instruction:
  assumes "cycle s l = Inr (s', l')" "machine_inv s" "x_not_stalled (cur_x_reg s') \<noteq> 0"
  shows "x_instruction (cur_x_reg s') = d_instruction (cur_d_reg s)"
proof -
  obtain t u where t: "stage_decode t (new_x_reg l) = Inr (cur_x_reg s', u)" "mid_cycle s t" "has_initialised t"
    by (rule cycle_decode [OF assms(1,2)])
  obtain rs1 rs2 rd where "operand_registers (d_instruction (cur_d_reg t)) = (rs1, rs2, rd)"
    by (cases "operand_registers (d_instruction (cur_d_reg t))") auto
  from decode_reads(1) [OF t(1) assms(3) t(3) this] t(2) show ?thesis by (simp add: mid_cycle_def same_regs_def)
qed

text \<open>The first two cycles: the access is issued and reaches the memory register.\<close>

lemma access_run:
  assumes w: "u_opcode (data_u w) = 0b0000011 \<and> i_funct3 (data_i w) = 0 \<or> u_opcode (data_u w) = 0b0100011 \<and> s_funct3 (data_s w) = 3"
    and ops: "operand_registers w = (1, rs2, rd)" "rs2 \<in> {- 1, 2}"
  obtains s1 l1 s2 l2 where "cycle (access_machine w) zero_locals = Inr (s1, l1)" "cycle s1 l1 = Inr (s2, l2)"
    "x_not_stalled (cur_x_reg s1) \<noteq> 0" "m_tainted_executions (cur_m_reg s1) = 0"
    "w_global_memory_stall (cur_w_reg s1) = 0" "w_global_memory_stall (cur_w_reg s2) = 0"
    "x_not_stalled (cur_x_reg s2) = 0" "fetch_faulted s2 l2" "same_data (access_machine w) s2"
    "register_read_one (fw s2) 1 = 0x188" "riscv_mem_size (fw s2) = riscv_mem_size data_framework"
    "memory_read_latency (fw s2) = 0" "w_value (cur_w_reg s2) = 0"
proof -
  let ?s = "access_machine w"
  have m: "m_readWrite (cur_m_reg ?s) = 3" "m_reg (cur_m_reg ?s) = 1" "m_value (cur_m_reg ?s) = 0x188"
    "x_not_stalled (cur_x_reg ?s) = 0" "d_not_stalled (cur_d_reg ?s) \<noteq> 0" "d_instruction (cur_d_reg ?s) = w"
    "x_rd (cur_x_reg ?s) = - 1" "fw ?s = data_framework"
    by (simp_all add: access_machine_def zero_x_def)
  obtain s1 l1 where 1: "cycle ?s zero_locals = Inr (s1, l1)" "fetch_faulted s1 l1"
    "w_global_memory_stall (cur_w_reg s1) = 0" "w_tainted_executions (cur_w_reg s1) = 0"
    using waiting_cycle_idle [OF access_machine(2) [of w] _ access_machine(6)
        flushed_execute [OF access_machine(7) disjI2 [OF m(4)]]] m(1)
    by auto
  have inv1: "machine_inv s1" using cycle_keeps(1) [OF 1(1) access_machine(1)] .
  have "\<not> decode_hazard ?s"
    using m ops by (auto simp: decode_hazard_def Let_def)
  then have x: "x_not_stalled (cur_x_reg s1) = 1"
    using cycle_decode_issue [OF 1(1) access_machine(1,7) m(5)] by simp
  have i: "x_instruction (cur_x_reg s1) = w"
    using issued_instruction [OF 1(1) access_machine(1)] x ops(1) m(6) by simp
  have m1: "m_readWrite (cur_m_reg s1) = 0" "m_tainted_executions (cur_m_reg s1) = 0"
    using cycle_flushed [OF 1(1) access_machine(1,7)] m(4) by simp_all
  have "fetch_waits s1 l1" using 1(2) by (simp add: fetch_faulted_def)
  then obtain s2 l2 where 2: "cycle s1 l1 = Inr (s2, l2)" "fetch_faulted s2 l2"
    "w_global_memory_stall (cur_w_reg s2) = 0"
    using waiting_cycle_idle [OF _ _ 1(4) access_execute [OF i w], of l1] m1(1) by auto
  have x2: "x_not_stalled (cur_x_reg s2) = 0"
    using bubble_cycle [OF 2(1) inv1] 1(2) by (simp add: fetch_faulted_def)
  obtain a b where "stage_memory (in_stage STAGE_M_BIT a) (new_w_reg l1) = Inr (cur_w_reg s2, b)" "same_regs s1 a"
    using cycle_memory [OF 2(1) inv1] by blast
  then have "w_op (cur_w_reg s2) = 0"
    using memory_result(2) [OF _ _ refl] m1(1) 1(4) by (fastforce simp: same_regs_def)
  then have v2: "w_value (cur_w_reg s2) = 0"
    using cycle_keeps(1) [OF 2(1) inv1] by (simp add: machine_inv_def wf_w_def quiet_w_def)
  note r1 = cycle_ready [OF 1(1) access_machine(1)]
  have "same_data ?s s1" "same_data s1 s2"
    using idle_cycle_keeps [OF 1(1) access_machine(1,4,5)] idle_cycle_keeps [OF 2(1) inv1 r1(1,2)] m(1) m1(1)
    by simp_all
  then have data: "same_data ?s s2" by (simp add: same_data_def)
  have len: "length (register_file (fw s1)) = 32" using inv1 by (simp add: machine_inv_def wf_framework_def)
  have "register_file (fw s2) = (register_file (fw s1))[1 := 0x188]"
    using register_write_retires [OF access_machine(1) 1(1) 2(1) m(1) access_machine(6)] m(2,3) by simp
  then have r: "register_read_one (fw s2) 1 = 0x188" using len by (simp add: read_small)
  have "riscv_mem_size (fw s2) = riscv_mem_size data_framework" "memory_read_latency (fw s2) = 0"
    using cycle_keeps(5,7) [OF 1(1) access_machine(1)] cycle_keeps(5,7) [OF 2(1) inv1] m(8) data_framework_ready(4)
    by simp_all
  with 1 2 x m1 x2 v2 data r that show thesis by simp
qed

text \<open>The page, the cache and the port are ready for the access.\<close>

lemma access_ready:
  assumes "same_data (access_machine w) s" "riscv_mem_size (fw s) = riscv_mem_size data_framework"
    "memory_read_latency (fw s) = 0"
  shows "tlb_lookup (dtlb s) (superpage 0x188) = Some 0" "mem_inv s" "read_served (fw s) (data_cache s) 0x188"
    "write_served (fw s) (data_cache s) 0x188 8" "mem_view s = (\<lambda>a. ucast a)"
proof -
  have d: "data_cache s = boot_dcache" "dtlb s = tlb_fill empty_tlb (superpage 0x188) 0"
    "riscv_mem (fw s) = (\<lambda>a. ucast a)"
    using assms(1) by (simp_all add: same_data_def access_machine_def data_framework_def faulted_machine_def
        boot_machine_def)
  have "wf_tlb empty_tlb" by (simp add: wf_tlb_def empty_tlb_def)
  then show "tlb_lookup (dtlb s) (superpage 0x188) = Some 0" using d(2) by (simp add: tlb_table.lookup_fill_same)
  show "mem_inv s" using d(1) by (simp add: mem_inv_def dcache_inv_boot)
  have "proper (fw s) 0x188 8"
    using assms(2) by (simp add: proper_def in_block_def data_framework_def boot_framework_def)
  then show "read_served (fw s) (data_cache s) 0x188"
    using d(1) assms(3) boot_dcache_cold by (simp add: read_served_def)
  show "write_served (fw s) (data_cache s) 0x188 8"
    using d(1) boot_dcache_cold by (simp add: write_served_def off_def take_bit_eq_mod)
  show "mem_view s = (\<lambda>a. ucast a)" using d boot_dcache_cold(1) by (auto simp: mem_view_def view_def)
qed

theorem store_retires_witness:
  "\<exists>s1 l1 s2 l2 s3 l3. cycle (access_machine 0x0020B023) zero_locals = Inr (s1, l1) \<and>
    cycle s1 l1 = Inr (s2, l2) \<and> cycle s2 l2 = Inr (s3, l3) \<and>
    mem_view s3 = store_bytes (\<lambda>a. ucast a) 0x188 (le_bytes 8 (register_read_one (fw s2) 2))"
proof -
  let ?w = "0x0020B023 :: u32"
  have f: "u_opcode (data_u ?w) = 0b0100011" "s_funct3 (data_s ?w) = 3" "imm_S ?w = 0"
    "s_rs1 (data_s ?w) = 1" "s_rs2 (data_s ?w) = 2"
    by (simp_all add: data_u_def data_s_def imm_S_def)
  have ops: "operand_registers ?w = (1, 2, - 1)" using store_operands [OF f(1)] f by simp
  have sz: "store_size (s_funct3 (data_s ?w)) = Some 8" using f(2) by (simp add: store_size_def)
  show ?thesis
  proof (rule access_run [OF disjI2 [OF conjI [OF f(1,2)]] ops])
    fix s1 l1 s2 l2
    assume c: "cycle (access_machine ?w) zero_locals = Inr (s1, l1)" "cycle s1 l1 = Inr (s2, l2)"
      and x: "x_not_stalled (cur_x_reg s1) \<noteq> 0" and flags: "m_tainted_executions (cur_m_reg s1) = 0"
      "w_global_memory_stall (cur_w_reg s1) = 0" "w_global_memory_stall (cur_w_reg s2) = 0"
      and x2: "x_not_stalled (cur_x_reg s2) = 0" and ff: "fetch_faulted s2 l2"
      and data: "same_data (access_machine ?w) s2" "riscv_mem_size (fw s2) = riscv_mem_size data_framework"
        "memory_read_latency (fw s2) = 0"
      and r: "register_read_one (fw s2) 1 = 0x188"
    have d: "d_instruction (cur_d_reg (access_machine ?w)) = ?w" by (simp add: access_machine_def)
    have tr: "ucast (translated_address 0 0x188) = (0x188 :: u64)"
      by (simp add: translated_address_def)
    have inv: "machine_inv s1" "machine_inv s2" using cycle_keeps(1) access_machine(1) c by blast+
    note taint = untainted [OF inv(2) flags(3)]
    note ready = access_ready [OF data] and r2 = cycle_ready [OF c(2) inv(1)]
    note m = store_prepared [OF access_machine(1) c _ x access_machine(3) flags(1,2) f(1) sz]
    have da: "data_address s2 = Some 0x188" using m d r f ready(1) by (simp add: data_address_def tr)
    have "\<exists>w u. stage_memory t (new_w_reg l2) = Inr (w, u) \<and> w_global_memory_stall w = 0"
      if t: "machine_inv t" "has_initialised t" "same_regs s2 t" "same_data s2 t" "may_read (fw t)" for t
      using memory_stage_store [OF t(1,2), of "cur_m_reg t" "0x188" "new_w_reg l2"] t m d f ready taint da
        mem_cong [OF t(4)] data_address_cong [OF t(4,3)] mid_served(2) [OF t(3,4)]
      by (auto simp: same_regs_def)
    from waiting_cycle_memory [OF _ inv(2) r2(2) this flushed_execute [OF flags(3) disjI2 [OF x2]]] ff
    obtain s3 l3 where 3: "cycle s2 l2 = Inr (s3, l3)" by (auto simp: fetch_faulted_def)
    have va: "0x188 = (ucast (register_read_one (fw s2) (ucast (s_rs1 (data_s ?w))) + scast (imm_S ?w)) :: u32)"
      using f r by simp
    from store_retires [OF access_machine(1) c 3 d [symmetric] x access_machine(3) flags f(1) sz va ready(1) _ ready(2) _ refl, of "0x188"]
      ready(4,5) c 3 f(5) show ?thesis by (auto simp: tr)
  qed simp
qed

theorem load_retires_witness:
  "\<exists>s1 l1 s2 l2 s3 l3 s4 l4. cycle (access_machine 0x00008283) zero_locals = Inr (s1, l1) \<and>
    cycle s1 l1 = Inr (s2, l2) \<and> cycle s2 l2 = Inr (s3, l3) \<and> cycle s3 l3 = Inr (s4, l4) \<and>
    register_file (fw s4) = (register_file (fw s3))[5 := 0xFFFFFFFFFFFFFF88]"
proof -
  let ?w = "0x00008283 :: u32"
  have f: "u_opcode (data_u ?w) = 0b0000011" "i_funct3 (data_i ?w) = 0" "imm_I ?w = 0"
    "i_rs1 (data_i ?w) = 1" "i_rd (data_i ?w) = 5"
    by (simp_all add: data_u_def data_i_def imm_I_def)
  have ops: "operand_registers ?w = (1, - 1, 5)" using load_operands [OF f(1)] f by simp
  have sz: "load_kind (i_funct3 (data_i ?w)) = Some (1, True)" using f(2) by (simp add: load_kind_def)
  show ?thesis
  proof (rule access_run [OF disjI1 [OF conjI [OF f(1,2)]] ops])
    fix s1 l1 s2 l2
    assume c: "cycle (access_machine ?w) zero_locals = Inr (s1, l1)" "cycle s1 l1 = Inr (s2, l2)"
      and x: "x_not_stalled (cur_x_reg s1) \<noteq> 0" and flags: "m_tainted_executions (cur_m_reg s1) = 0"
      "w_global_memory_stall (cur_w_reg s1) = 0" "w_global_memory_stall (cur_w_reg s2) = 0"
      and x2: "x_not_stalled (cur_x_reg s2) = 0" and ff: "fetch_faulted s2 l2"
      and data: "same_data (access_machine ?w) s2" "riscv_mem_size (fw s2) = riscv_mem_size data_framework"
        "memory_read_latency (fw s2) = 0"
      and r: "register_read_one (fw s2) 1 = 0x188" and v2: "w_value (cur_w_reg s2) = 0"
    have d: "d_instruction (cur_d_reg (access_machine ?w)) = ?w" by (simp add: access_machine_def)
    have tr: "ucast (translated_address 0 0x188) = (0x188 :: u64)"
      by (simp add: translated_address_def)
    have acc: "d_access 0x188 (ucast (1 :: u8))" by (simp add: d_access_def take_bit_eq_mod)
    have inv: "machine_inv s1" "machine_inv s2" using cycle_keeps(1) access_machine(1) c by blast+
    note taint = untainted [OF inv(2) flags(3)]
    note ready = access_ready [OF data] and r2 = cycle_ready [OF c(2) inv(1)]
    note m = load_prepared [OF access_machine(1) c d [symmetric] x access_machine(3) flags(1,2) f(1) sz]
    have da: "data_address s2 = Some 0x188" using m r f ready(1) by (simp add: data_address_def tr)
    have "\<exists>w u. stage_memory t (new_w_reg l2) = Inr (w, u) \<and> w_global_memory_stall w = 0"
      if t: "machine_inv t" "has_initialised t" "same_regs s2 t" "same_data s2 t" "may_read (fw t)" for t
      using memory_stage_load [OF t(1,2), of "cur_m_reg t" "0x188" "new_w_reg l2"] t m acc ready taint da v2 r2(3)
        mem_cong [OF t(4)] data_address_cong [OF t(4,3)] mid_served(1) [OF t(3,4)]
      by (auto simp: same_regs_def)
    from waiting_cycle_memory [OF _ inv(2) r2(2) this flushed_execute [OF flags(3) disjI2 [OF x2]]] ff
    obtain s3 l3 where 3: "cycle s2 l2 = Inr (s3, l3)" "fetch_faulted s3 l3" "w_global_memory_stall (cur_w_reg s3) = 0"
      by (auto simp: fetch_faulted_def)
    have inv3: "machine_inv s3" using cycle_keeps(1) [OF 3(1) inv(2)] .
    have m3: "m_readWrite (cur_m_reg s3) \<notin> {1, 2}" "x_not_stalled (cur_x_reg s3) = 0"
      using cycle_flushed [OF 3(1) inv(2) flags(3)] x2 bubble_cycle [OF 3(1) inv(2)] ff
      by (auto simp: fetch_faulted_def)
    obtain s4 l4 where 4: "cycle s3 l3 = Inr (s4, l4)"
      using waiting_cycle_idle [OF _ m3(1) untainted [OF inv3 3(3)] flushed_execute [OF 3(3) disjI2 [OF m3(2)]], of l3]
        3(2) by (auto simp: fetch_faulted_def)
    have va: "0x188 = (ucast (register_read_one (fw s2) (ucast (i_rs1 (data_i ?w))) + scast (imm_I ?w)) :: u32)"
      using f r by simp
    have "isa_load 1 True (fetch_bytes (\<lambda>a. ucast a) 0x188 (unat (1 :: u8))) = 0xFFFFFFFFFFFFFF88"
      by (simp add: isa_load_def fetch_bytes_def)
    with load_retires [OF access_machine(1) c 3(1) 4 d [symmetric] x access_machine(3) flags f(1) sz va ready(1) _ ready(2), of "0x188"]
      acc ready(3,5) v2 c 3(1) 4 f(5) show ?thesis by (auto simp: tr)
  qed simp
qed

end
