(* ===== verification/Single_Step.thy ===== *)
theory Single_Step
  imports Simulator
begin

text \<open>
  The loop of \<open>src/src/riscv_sim_framework.c\<close> for a build with \<open>SIM_NO_PIPELINE\<close>: one instruction
  per iteration. The instruction is executed by \<open>execute_single_instruction\<close>, which the framework
  declares as provided by its user and which no file of the repository defines; it is the argument
  \<open>exec\<close>, and its private state the type \<open>'p\<close>. It is called with the program counter and a
  reference to the local \<open>new_pc\<close>, so it also gets the value this variable has before.
\<close>

section \<open>Operations\<close>

record 'p single_machine =
  sfw :: framework
  memory_cycle_reads :: u32
  memory_cycle_writes :: u32
  own_state :: 'p

type_synonym 'p executor =
  "'p single_machine \<Rightarrow> u64 \<Rightarrow> u64 \<Rightarrow> ('p single_machine \<times> u64) result"

definition memory_reset_cycle :: "'p single_machine \<Rightarrow> 'p single_machine" where
  "memory_reset_cycle s = s\<lparr>memory_cycle_reads := 0, memory_cycle_writes := 0\<rparr>"

fun single_steps ::
  "'p executor \<Rightarrow> nat \<Rightarrow> 'p single_machine \<Rightarrow> u32 \<Rightarrow> u64 \<Rightarrow> 'p single_machine result" where
  "single_steps exec 0 s inst0 new_pc = Inr s"
| "single_steps exec (Suc n) s inst0 new_pc =
     (case memory_dump (sfw s) (Some (le_bytes 4 inst0)) (get_pc (sfw s)) 4 of
        Inl e \<Rightarrow> Inl e
      | Inr (_, v) \<Rightarrow>
          let i = le_word (the v); s1 = memory_reset_cycle s;
              s2 = s1\<lparr>sfw := register_reset_cycle (sfw s1)\<rparr>
          in if i = RISCV_INSTR_EBREAK then Inr s
             else (case exec s2 (get_pc (sfw s2)) new_pc of
                     Inl e \<Rightarrow> Inl e
                   | Inr (s3, pc) \<Rightarrow> single_steps exec n (s3\<lparr>sfw := set_pc (sfw s3) pc\<rparr>) i pc))"

text \<open>
  \<open>simulator_execute_instructions\<close> of this build; the two locals are not initialised, their
  contents are arguments.
\<close>

definition simulator_execute_single ::
  "'p executor \<Rightarrow> 'p single_machine \<Rightarrow> u32 \<Rightarrow> u64 \<Rightarrow> u64 \<Rightarrow> 'p single_machine result" where
  "simulator_execute_single exec s inst0 new_pc n_steps =
     single_steps exec (unat n_steps) s inst0 new_pc"

section \<open>The architectural state\<close>

text \<open>
  What an instruction set architecture talks about: the memory, the registers and the program
  counter. A word of memory is an \<open>EBREAK\<close> only when it lies in the memory block.
\<close>

type_synonym arch = "((u64 \<Rightarrow> u8) \<times> u64 list) \<times> u64"

definition arch :: "'p single_machine \<Rightarrow> arch" where
  "arch s = ((riscv_mem (sfw s), register_file (sfw s)), program_counter (sfw s))"

definition ebreak_at :: "u64 \<Rightarrow> arch \<Rightarrow> bool" where
  "ebreak_at sz a \<longleftrightarrow>
     unat (snd a) + 4 \<le> unat sz \<and> le_word (fetch_bytes (fst (fst a)) (snd a) 4) = RISCV_INSTR_EBREAK"

text \<open>
  An executor implements an architecture when, called with the access counters of the cycle at zero,
  it returns, moves the architectural state by one step of it, leaving the new program counter in
  \<open>new_pc\<close>, and does not resize the memory. With exhausted counters nothing is asked of it: the
  register routines then refuse their work, and the counters it leaves behind are its own affair.
\<close>

definition fresh_counters :: "'p single_machine \<Rightarrow> bool" where
  "fresh_counters s \<longleftrightarrow>
     memory_cycle_reads s = 0 \<and> memory_cycle_writes s = 0 \<and>
     register_cycle_reads (sfw s) = 0 \<and> register_cycle_writes (sfw s) = 0"

definition implements :: "'p executor \<Rightarrow> (arch \<Rightarrow> arch) \<Rightarrow> bool" where
  "implements exec step \<longleftrightarrow>
     (\<forall>s q. fresh_counters s \<longrightarrow> (\<exists>s' q'. exec s (program_counter (sfw s)) q = Inr (s', q') \<and>
        (fst (arch s'), q') = step (arch s) \<and> riscv_mem_size (sfw s') = riscv_mem_size (sfw s)))"

lemma dumped_word:
  "memory_dump (sfw s) (Some (le_bytes 4 inst0)) (get_pc (sfw s)) 4 =
     (if snd (arch s) + 4 > riscv_mem_size (sfw s) then Inr (False, Some (le_bytes 4 inst0))
      else if unat (snd (arch s)) + 4 > unat (riscv_mem_size (sfw s)) then Inl OutOfBounds
      else Inr (True, Some (fetch_bytes (riscv_mem (sfw s)) (snd (arch s)) 4)))"
  by (simp add: memory_dump_def arch_def get_pc_def in_block_def buf_put_ok)

lemma held_word [simp]: "take_bit 32 (i :: u32) = i"
  by (rule take_bit_word_eq_self) simp

lemma reset_arch [simp]:
  "arch ((memory_reset_cycle s)\<lparr>sfw := register_reset_cycle f\<rparr>) =
     ((riscv_mem f, register_file f), program_counter f)"
  "riscv_mem_size (register_reset_cycle f) = riscv_mem_size f"
  "sfw (memory_reset_cycle s) = sfw s"
  by (simp_all add: arch_def memory_reset_cycle_def register_reset_cycle_def)

lemma implements_step:
  assumes "implements exec step"
  obtains s' pc where
    "exec ((memory_reset_cycle s)\<lparr>sfw := register_reset_cycle (sfw s)\<rparr>) (get_pc (register_reset_cycle (sfw s))) q = Inr (s', pc)"
    "arch (s'\<lparr>sfw := set_pc (sfw s') pc\<rparr>) = step (arch s)"
    "riscv_mem_size (sfw s') = riscv_mem_size (sfw s)"
proof -
  let ?t = "(memory_reset_cycle s)\<lparr>sfw := register_reset_cycle (sfw s)\<rparr>"
  have "fresh_counters ?t" by (simp add: fresh_counters_def memory_reset_cycle_def register_reset_cycle_def)
  with assms obtain s' pc where r: "exec ?t (program_counter (sfw ?t)) q = Inr (s', pc)"
    "(fst (arch s'), pc) = step (arch ?t)" "riscv_mem_size (sfw s') = riscv_mem_size (sfw ?t)"
    unfolding implements_def by blast
  have t: "arch ?t = arch s" "program_counter (sfw ?t) = get_pc (register_reset_cycle (sfw s))"
    "riscv_mem_size (sfw ?t) = riscv_mem_size (sfw s)"
    by (simp_all add: arch_def register_reset_cycle_def get_pc_def memory_reset_cycle_def)
  note r [unfolded t]
  with that show thesis by (auto simp: arch_def set_pc_def)
qed

text \<open>
  The loop against the architecture: it either executes \<open>k\<close> steps and then has no step left or is at
  an \<open>EBREAK\<close>, or the program counter is so close to \<open>2 ^ 64\<close> that the bounds check wraps. No earlier
  state is at an \<open>EBREAK\<close>. Before the first fetch from inside the memory the test sees what the
  uninitialised local holds.
\<close>

definition single_outcome ::
  "nat \<Rightarrow> (arch \<Rightarrow> arch) \<Rightarrow> 'p single_machine \<Rightarrow> u32 \<Rightarrow> 'p single_machine result \<Rightarrow> bool" where
  "single_outcome n step s inst0 r \<longleftrightarrow>
     (\<exists>k \<le> n. let a = (step ^^ k) (arch s); sz = riscv_mem_size (sfw s) in
        (\<forall>j < k. \<not> ebreak_at sz ((step ^^ j) (arch s))) \<and>
        (case r of
           Inl e \<Rightarrow> e = OutOfBounds \<and> k < n \<and> unat (snd a) + 4 \<ge> 2 ^ 64
         | Inr s' \<Rightarrow> arch s' = a \<and>
             (k = n \<or> ebreak_at sz a \<or> k = 0 \<and> inst0 = RISCV_INSTR_EBREAK)))"

lemma outcome_stop:
  "ebreak_at (riscv_mem_size (sfw s)) (arch s) \<or> n = 0 \<or> inst0 = RISCV_INSTR_EBREAK \<Longrightarrow>
   single_outcome n step s inst0 (Inr s)"
  unfolding single_outcome_def by (intro exI [of _ 0]) auto

lemma outcome_step:
  assumes "single_outcome n step s' i r" "arch s' = step (arch s)"
    and "riscv_mem_size (sfw s') = riscv_mem_size (sfw s)"
    and "\<not> ebreak_at (riscv_mem_size (sfw s)) (arch s)" "i \<noteq> RISCV_INSTR_EBREAK"
  shows "single_outcome (Suc n) step s inst0 r"
proof -
  from assms(1) obtain k where k: "k \<le> n"
    "\<forall>j < k. \<not> ebreak_at (riscv_mem_size (sfw s)) ((step ^^ Suc j) (arch s))"
    "case r of Inl e \<Rightarrow> e = OutOfBounds \<and> k < n \<and> unat (snd ((step ^^ Suc k) (arch s))) + 4 \<ge> 2 ^ 64
      | Inr t \<Rightarrow> arch t = (step ^^ Suc k) (arch s) \<and>
          (k = n \<or> ebreak_at (riscv_mem_size (sfw s)) ((step ^^ Suc k) (arch s)))"
    using assms(2,3,5) unfolding single_outcome_def Let_def funpow_Suc_right o_apply
    by (cases r) auto
  have "\<not> ebreak_at (riscv_mem_size (sfw s)) ((step ^^ j) (arch s))" if "j < Suc k" for j
    using that k(2) assms(4) by (cases j) auto
  with k show ?thesis
    unfolding single_outcome_def Let_def
    by (intro exI [of _ "Suc k"]) (auto split: sum.splits)
qed

lemma single_steps_outcome:
  assumes "implements exec step"
  shows "single_outcome n step s inst0 (single_steps exec n s inst0 q)"
proof (induction n arbitrary: s inst0 q)
  case 0
  then show ?case by (simp add: outcome_stop)
next
  case (Suc n)
  let ?sz = "riscv_mem_size (sfw s)" and ?pc = "snd (arch s)"
  obtain s' pc where ex: "exec ((memory_reset_cycle s)\<lparr>sfw := register_reset_cycle (sfw s)\<rparr>)
      (get_pc (register_reset_cycle (sfw s))) q = Inr (s', pc)"
    and arch: "arch (s'\<lparr>sfw := set_pc (sfw s') pc\<rparr>) = step (arch s)"
    and sz: "riscv_mem_size (sfw s') = ?sz"
    using implements_step [OF assms] .
  have go: "single_outcome (Suc n) step s inst0 (single_steps exec n (s'\<lparr>sfw := set_pc (sfw s') pc\<rparr>) i pc)"
    if "\<not> ebreak_at ?sz (arch s)" "i \<noteq> RISCV_INSTR_EBREAK" for i
    using outcome_step [OF Suc.IH arch _ that] sz by (simp add: set_pc_def)
  consider (outside) "?pc + 4 > ?sz" | (wraps) "\<not> ?pc + 4 > ?sz" "unat ?pc + 4 > unat ?sz"
    | (inside) "\<not> ?pc + 4 > ?sz" "\<not> unat ?pc + 4 > unat ?sz"
    by blast
  then show ?case
  proof cases
    case outside
    then have "\<not> ebreak_at ?sz (arch s)"
      using in_block_le [of "sfw s" ?pc 4] by (auto simp: ebreak_at_def in_block_def)
    with outside ex go show ?thesis
      by (cases "inst0 = RISCV_INSTR_EBREAK") (auto simp: dumped_word Let_def outcome_stop)
  next
    case wraps
    then have "unat ?pc + 4 \<ge> 2 ^ 64"
      using in_block_iff_no_wrap [of ?pc 4 "sfw s"] by (auto simp: in_block_def not_less)
    with wraps show ?thesis
      by (auto simp: dumped_word single_outcome_def Let_def intro!: exI [of _ 0])
  next
    case inside
    let ?i = "le_word (fetch_bytes (riscv_mem (sfw s)) ?pc 4)"
    have "ebreak_at ?sz (arch s) \<longleftrightarrow> ?i = RISCV_INSTR_EBREAK"
      using inside by (simp add: ebreak_at_def arch_def)
    with inside ex go show ?thesis
      by (cases "?i = RISCV_INSTR_EBREAK") (auto simp: dumped_word Let_def outcome_stop)
  qed
qed


text \<open>
  An executor of an architecture whose only instruction adds one to register 1, written with the
  register routines of the framework, on a memory with an \<open>EBREAK\<close> at address 8. It leaves a state
  in which another register write would be refused.
\<close>

definition count_step :: "arch \<Rightarrow> arch" where
  "count_step a = ((fst (fst a), (snd (fst a))[1 := snd (fst a) ! 1 + 1]), snd a + 4)"

definition count_executor :: "unit executor" where
  "count_executor s pc new_pc =
     (let (value, _) = register_read (sfw s) 1 0;
          f = register_write (sfw s) 1 (value + 1)
      in Inr (s\<lparr>sfw := f\<lparr>register_cycle_writes := 2\<rparr>\<rparr>, pc + 4))"

definition count_machine :: "unit single_machine" where
  "count_machine =
     \<lparr>sfw = boot_framework\<lparr>riscv_mem := (\<lambda>a. if a = 8 then 0x73 else if a = 10 then 0x10 else 0)\<rparr>,
      memory_cycle_reads = 0, memory_cycle_writes = 0, own_state = ()\<rparr>"

lemmas unroll = single_steps.simps(2) [of _ "pred_numeral k", folded numeral_eq_Suc] for k


end
