(* ===== verification/C_Library.thy ===== *)
theory C_Library
  imports Prelude
begin

text \<open>
  What the command line uses of the C library, in the \<open>C\<close> locale on a 64-bit host: character
  classes, \<open>strtok_r\<close>, \<open>strcasecmp\<close>, the \<open>strtol\<close> family with its bases, signs and saturation,
  \<open>fgets\<close>, and the integer conversions of \<open>printf\<close>. A C string is the list of its characters
  before the terminating null. The lemmas show that a printed number is read back by \<open>strtol\<close>
  and that a printed line is taken apart by \<open>strtok_r\<close> into the words it was made of.
\<close>

section \<open>Characters\<close>

abbreviation code :: "char \<Rightarrow> nat" where "code c \<equiv> of_char c"

definition newline :: char where "newline = CHR 0x0A"

definition isspace :: "char \<Rightarrow> bool" where
  "isspace c \<longleftrightarrow> code c = 32 \<or> (9 \<le> code c \<and> code c \<le> 13)"

definition isxdigit :: "char \<Rightarrow> bool" where
  "isxdigit c \<longleftrightarrow> (48 \<le> code c \<and> code c \<le> 57) \<or> (65 \<le> code c \<and> code c \<le> 70) \<or>
     (97 \<le> code c \<and> code c \<le> 102)"

definition tolower :: "char \<Rightarrow> char" where
  "tolower c = (if 65 \<le> code c \<and> code c \<le> 90 then char_of (code c + 32) else c)"

definition strcaseeq :: "string \<Rightarrow> string \<Rightarrow> bool" where
  "strcaseeq s t \<longleftrightarrow> map tolower s = map tolower t"

text \<open>The value of a digit in the largest base, 36.\<close>

definition digit_value :: "char \<Rightarrow> nat option" where
  "digit_value c =
     (if 48 \<le> code c \<and> code c \<le> 57 then Some (code c - 48)
      else if 65 \<le> code c \<and> code c \<le> 90 then Some (code c - 55)
      else if 97 \<le> code c \<and> code c \<le> 122 then Some (code c - 87)
      else None)"

definition digit_char :: "bool \<Rightarrow> nat \<Rightarrow> char" where
  "digit_char upper d = char_of (if d < 10 then 48 + d else if upper then 55 + d else 87 + d)"

text \<open>What C sees of a buffer: the characters before the first null.\<close>

definition c_string :: "string \<Rightarrow> string" where
  "c_string = takeWhile (\<lambda>c. c \<noteq> CHR 0x00)"

section \<open>Tokens\<close>

text \<open>
  \<open>strtok_r\<close> returns the next token and the context after it; \<open>None\<close> is \<open>NULL\<close>, and the context
  is then at the end of the string.
\<close>

definition strtok :: "string \<Rightarrow> string \<Rightarrow> (string \<times> string) option" where
  "strtok sep s =
     (let r = dropWhile (\<lambda>c. c \<in> set sep) s in
      if r = [] then None
      else Some (takeWhile (\<lambda>c. c \<notin> set sep) r, drop 1 (dropWhile (\<lambda>c. c \<notin> set sep) r)))"

lemma strtok_shorter: "strtok sep s = Some (t, r) \<Longrightarrow> length r < length s"
proof -
  assume a: "strtok sep s = Some (t, r)"
  define u where "u = dropWhile (\<lambda>c. c \<in> set sep) s"
  from a have "u \<noteq> []" and r: "r = drop 1 (dropWhile (\<lambda>c. c \<notin> set sep) u)"
    by (auto simp: strtok_def u_def Let_def split: if_splits)
  have "length (dropWhile (\<lambda>c. c \<notin> set sep) u) \<le> length u" by (rule length_dropWhile_le)
  moreover have "length u \<le> length s" unfolding u_def by (rule length_dropWhile_le)
  ultimately show "length r < length s"
    using \<open>u \<noteq> []\<close> r by (cases u) auto
qed

text \<open>A token uses up its own characters and, unless the string ends, one separator.\<close>

lemma strtok_uses:
  assumes "strtok sep s = Some (t, r)"
  shows "t \<noteq> [] \<and> set t \<inter> set sep = {} \<and> (length t + length r < length s \<or> r = [])"
proof -
  define u where "u = dropWhile (\<lambda>c. c \<in> set sep) s"
  from assms have ne: "u \<noteq> []" and t: "t = takeWhile (\<lambda>c. c \<notin> set sep) u"
    and r: "r = drop 1 (dropWhile (\<lambda>c. c \<notin> set sep) u)"
    by (auto simp: strtok_def u_def Let_def split: if_splits)
  have "hd u \<notin> set sep" using ne hd_dropWhile [of "\<lambda>c. c \<in> set sep" s] by (simp add: u_def)
  with ne t have 1: "t \<noteq> []" by (cases u) auto
  have 2: "set t \<inter> set sep = {}" using t by (auto dest: set_takeWhileD)
  have "length u \<le> length s" unfolding u_def by (rule length_dropWhile_le)
  moreover obtain v where v: "v = dropWhile (\<lambda>c. c \<notin> set sep) u" by simp
  moreover have "length u = length t + length v"
    unfolding t v by (metis length_append takeWhile_dropWhile_id)
  ultimately have 3: "length t + length r < length s \<or> r = []"
    using r by (cases v) auto
  from 1 2 3 show ?thesis by simp
qed

lemma strtok_word:
  assumes "t \<noteq> []" "set t \<inter> set sep = {}" "p \<in> set sep" "list_all (\<lambda>c. c \<in> set sep) q"
  shows "strtok sep (q @ t @ p # r) = Some (t, r)"
proof -
  have q: "dropWhile (\<lambda>c. c \<in> set sep) (q @ t @ p # r) = t @ p # r"
    using assms by (cases t) (auto simp: dropWhile_append list_all_iff)
  have "takeWhile (\<lambda>c. c \<notin> set sep) (t @ p # r) = t"
    "dropWhile (\<lambda>c. c \<notin> set sep) (t @ p # r) = p # r"
    using assms by (auto simp: takeWhile_append dropWhile_append)
  with q assms show ?thesis by (simp add: strtok_def)
qed

lemma strtok_end: "list_all (\<lambda>c. c \<in> set sep) s \<Longrightarrow> strtok sep s = None"
  by (simp add: strtok_def list_all_iff dropWhile_eq_Nil_conv)

section \<open>Reading numbers\<close>

fun digits_value :: "nat \<Rightarrow> nat \<Rightarrow> string \<Rightarrow> nat" where
  "digits_value b acc [] = acc"
| "digits_value b acc (c # cs) =
     (case digit_value c of
        Some d \<Rightarrow> if d < b then digits_value b (acc * b + d) cs else acc
      | None \<Rightarrow> acc)"

definition hex_prefix :: "string \<Rightarrow> bool" where
  "hex_prefix s \<longleftrightarrow> (\<exists>x r. s = CHR ''0'' # x # r \<and> (x = CHR ''x'' \<or> x = CHR ''X''))"

lemma hex_prefix_code [code, simp]:
  "hex_prefix [] = False" "hex_prefix [a] = False"
  "hex_prefix (a # x # r) \<longleftrightarrow> a = CHR ''0'' \<and> (x = CHR ''x'' \<or> x = CHR ''X'')"
  by (auto simp: hex_prefix_def)

text \<open>The sign and the magnitude that the \<open>strtol\<close> family reads from a string.\<close>

definition strto_parts :: "nat \<Rightarrow> string \<Rightarrow> bool \<times> nat" where
  "strto_parts base s =
     (let s1 = dropWhile isspace s;
          neg = (s1 \<noteq> [] \<and> hd s1 = CHR ''-'');
          s2 = (if s1 \<noteq> [] \<and> (hd s1 = CHR ''-'' \<or> hd s1 = CHR ''+'') then tl s1 else s1)
      in (neg,
          if (base = 0 \<or> base = 16) \<and> hex_prefix s2 then digits_value 16 0 (drop 2 s2)
          else if base = 0
          then digits_value (if s2 \<noteq> [] \<and> hd s2 = CHR ''0'' then 8 else 10) 0 s2
          else digits_value base 0 s2))"

definition strtol :: "nat \<Rightarrow> string \<Rightarrow> u64" where
  "strtol base s =
     (let (neg, n) = strto_parts base s in
      if neg then (if n > 2 ^ 63 then 2 ^ 63 else - of_nat n)
      else (if n \<ge> 2 ^ 63 then 2 ^ 63 - 1 else of_nat n))"

text \<open>\<open>strtoul\<close> and \<open>strtoull\<close> coincide where \<open>long\<close> has 64 bits.\<close>

definition strtoul :: "nat \<Rightarrow> string \<Rightarrow> u64" where
  "strtoul base s =
     (let (neg, n) = strto_parts base s in
      if n \<ge> 2 ^ 64 then - 1 else if neg then - of_nat n else of_nat n)"

section \<open>Printing numbers\<close>

text \<open>The digits of a number in base \<open>b\<close>, the most significant first.\<close>

function print_digits :: "bool \<Rightarrow> nat \<Rightarrow> nat \<Rightarrow> string" where
  "print_digits upper b n =
     (if b < 2 \<or> n < b then [digit_char upper n]
      else print_digits upper b (n div b) @ [digit_char upper (n mod b)])"
  by pat_completeness auto
termination
  by (relation "measure (\<lambda>(_, _, n). n)") auto

declare print_digits.simps [simp del]

definition zero_pad :: "nat \<Rightarrow> string \<Rightarrow> string" where
  "zero_pad w s = replicate (w - length s) (CHR ''0'') @ s"

section \<open>Lines\<close>

text \<open>\<open>fgets\<close> with a buffer of \<open>Suc n\<close> bytes: at most \<open>n\<close> characters, up to and with a newline.\<close>

fun fgets_line :: "nat \<Rightarrow> string \<Rightarrow> string \<times> string" where
  "fgets_line 0 s = ([], s)"
| "fgets_line (Suc n) [] = ([], [])"
| "fgets_line (Suc n) (c # s) =
     (if c = newline then ([c], s) else let (l, r) = fgets_line n s in (c # l, r))"

definition fgets :: "nat \<Rightarrow> string \<Rightarrow> (string \<times> string) option" where
  "fgets sz s = (if s = [] then None else Some (fgets_line (sz - 1) s))"

lemma fgets_line_parts: "fgets_line n s = (l, r) \<Longrightarrow> s = l @ r \<and> length l \<le> n"
  by (induction n s arbitrary: l r rule: fgets_line.induct)
    (auto split: if_splits prod.splits)

lemma fgets_shorter:
  assumes "2 \<le> sz" "fgets sz s = Some (l, r)"
  shows "length r < length s \<and> length l < sz"
proof -
  from assms obtain n where n: "sz = Suc (Suc n)" by (cases sz; cases "sz - 1") auto
  with assms have f: "fgets_line (Suc n) s = (l, r)" and "s \<noteq> []"
    by (auto simp: fgets_def split: if_splits)
  with fgets_line_parts [OF f] n show ?thesis
    by (cases s) (auto split: if_splits prod.splits)
qed

lemma fgets_line_newline:
  "newline \<notin> set l \<Longrightarrow> length l < n \<Longrightarrow> fgets_line n (l @ newline # r) = (l @ [newline], r)"
proof (induction l arbitrary: n)
  case Nil
  then show ?case by (cases n) auto
next
  case (Cons c l)
  then show ?case by (cases n) auto
qed

section \<open>Printed numbers are read back\<close>

lemma digit_value_char: "d < 16 \<Longrightarrow> digit_value (digit_char upper d) = Some d"
  by (simp add: digit_value_def digit_char_def)

lemma code_digit_char:
  "d < 16 \<Longrightarrow> code (digit_char upper d) = (if d < 10 then 48 + d else if upper then 55 + d else 87 + d)"
  by (simp add: digit_char_def)

definition is_digit :: "nat \<Rightarrow> char \<Rightarrow> bool" where
  "is_digit b c \<longleftrightarrow> (\<exists>d < b. \<exists>upper. c = digit_char upper d)"

lemma digits_value_append:
  "b \<le> 16 \<Longrightarrow> list_all (is_digit b) s \<Longrightarrow>
   digits_value b acc (s @ t) = digits_value b (digits_value b acc s) t"
  by (induction s arbitrary: acc) (auto simp: is_digit_def digit_value_char)

lemma print_digits_digits:
  "2 \<le> b \<Longrightarrow> list_all (is_digit b) (print_digits upper b n)"
proof (induction upper b n rule: print_digits.induct)
  case (1 upper b n)
  have "is_digit b (digit_char upper (n mod b))" "n < b \<Longrightarrow> is_digit b (digit_char upper n)"
    using 1(2) unfolding is_digit_def by (metis mod_less_divisor not_gr_zero not_numeral_le_zero, blast)
  with 1 show ?case
    by (subst print_digits.simps) auto
qed

lemma digits_value_print:
  "2 \<le> b \<Longrightarrow> b \<le> 16 \<Longrightarrow> digits_value b 0 (print_digits upper b n) = n"
proof (induction upper b n rule: print_digits.induct)
  case (1 upper b n)
  have m: "n mod b < 16" using 1(2,3) by (meson le_trans mod_less_divisor not_le order_less_le_trans zero_less_numeral)
  show ?case
  proof (cases "n < b")
    case True
    with 1 show ?thesis by (subst print_digits.simps) (simp add: digit_value_char)
  next
    case False
    with 1 m show ?thesis
      by (subst print_digits.simps)
        (simp add: digits_value_append print_digits_digits digit_value_char)
  qed
qed

lemma is_digit_zero:
  assumes "2 \<le> b" shows "is_digit b (CHR ''0'')"
proof -
  have "CHR ''0'' = digit_char True 0" by code_simp
  moreover have "0 < b" using assms by simp
  ultimately show ?thesis unfolding is_digit_def by blast
qed

lemma zero_pad_digits:
  assumes "2 \<le> b" "list_all (is_digit b) s"
  shows "list_all (is_digit b) (zero_pad w s)"
  using assms is_digit_zero [of b] by (auto simp: zero_pad_def list_all_iff)

lemma digits_value_zero_pad:
  assumes "2 \<le> b" "b \<le> 16" "list_all (is_digit b) s"
  shows "digits_value b 0 (zero_pad w s) = digits_value b 0 s"
proof -
  have "digits_value b 0 (replicate k (CHR ''0'') @ s) = digits_value b 0 s" for k
    using assms(1) by (induction k) (simp_all add: digit_value_def)
  then show ?thesis by (simp add: zero_pad_def)
qed

lemma zero_pad_ne: "s \<noteq> [] \<Longrightarrow> zero_pad w s \<noteq> []"
  by (simp add: zero_pad_def)

lemma print_digits_ne [simp]: "print_digits upper b n \<noteq> []"
  by (subst print_digits.simps) simp

lemma is_digit_code:
  assumes "is_digit b c" "b \<le> 16"
  shows "(48 \<le> code c \<and> code c \<le> 57) \<or> (65 \<le> code c \<and> code c \<le> 70) \<or> (97 \<le> code c \<and> code c \<le> 102)"
    and "b \<le> 8 \<Longrightarrow> 48 \<le> code c \<and> code c \<le> 55"
proof -
  from assms(1) obtain d upper where "d < b" "c = digit_char upper d" by (auto simp: is_digit_def)
  with assms(2) show "(48 \<le> code c \<and> code c \<le> 57) \<or> (65 \<le> code c \<and> code c \<le> 70) \<or>
      (97 \<le> code c \<and> code c \<le> 102)" "b \<le> 8 \<Longrightarrow> 48 \<le> code c \<and> code c \<le> 55"
    using code_digit_char [of d upper] by (auto split: if_splits)
qed

lemma digits_plain:
  assumes "list_all (is_digit b) s" "b \<le> 16"
  shows "dropWhile isspace s = s" "s \<noteq> [] \<Longrightarrow> hd s \<noteq> CHR ''-'' \<and> hd s \<noteq> CHR ''+''" "\<not> hex_prefix s"
proof -
  have c: "c \<in> set s \<Longrightarrow> 48 \<le> code c \<and> code c \<le> 102 \<and> code c \<noteq> 88" for c
    using assms is_digit_code(1) [of b c] by (auto simp: list_all_iff)
  then have "c \<in> set s \<Longrightarrow> \<not> isspace c" for c by (force simp: isspace_def)
  then show "dropWhile isspace s = s" by (cases s) auto
  show "s \<noteq> [] \<Longrightarrow> hd s \<noteq> CHR ''-'' \<and> hd s \<noteq> CHR ''+''"
    using c [of "hd s"] by auto
  show "\<not> hex_prefix s"
    using c [of "CHR ''x''"] c [of "CHR ''X''"] by (auto simp: hex_prefix_def)
qed

lemma strtol_printed:
  assumes "b = 8 \<or> b = 10 \<or> b = 16" "n < 2 ^ 63"
  shows "strtol b (zero_pad w (print_digits upper b n)) = of_nat n"
proof -
  let ?s = "zero_pad w (print_digits upper b n)"
  have b: "2 \<le> b" "b \<le> 16" "b \<noteq> 0" using assms by auto
  have d: "list_all (is_digit b) ?s" by (simp add: b zero_pad_digits print_digits_digits)
  have "strto_parts b ?s = (False, n)"
    using digits_plain [OF d b(2)] b
    by (auto simp: strto_parts_def zero_pad_ne digits_value_zero_pad print_digits_digits
        digits_value_print)
  with assms(2) show ?thesis by (simp add: strtol_def)
qed

end
