(* ===== verification/Command_Line.thy ===== *)
theory Command_Line
  imports C_Library Simulator
begin

text \<open>
  The command interpreter of \<open>src/src/riscv_sim_framework.c\<close>: \<open>verify_base\<close>, loading and dumping
  memory as text, the commands of \<open>execute_line\<close>, and \<open>main\<close>. The state is the machine together
  with what the commands see of the process: files, standard input and output, file descriptor 3
  and the messages on standard error, one constructor per \<open>fprintf (stderr, ...)\<close> of the source.
  A file is read as it was when it was opened. The lemmas show that every command, and so the
  interpreter, keeps the machine invariant.
\<close>

section \<open>State\<close>

datatype message =
    LoadOpenFailed string
  | Loading "string option" u64 bool
  | BadOffset "string option" nat string
  | BadByte "string option" nat string
  | BinaryLoadFromStdin
  | DumpOpenFailed string
  | Dumping bool "string option" u64 u64
  | BinaryDumpToStdout
  | BinaryDumpNotImplemented
  | UsageLoad
  | AddressOutOfRange u64
  | LoadFailed "string option"
  | UsageDump
  | DumpOutOfRange u64 u64
  | DumpFailed "string option"
  | UsageReadreg
  | ReadregBadRegister u64
  | UsageWritereg
  | WriteregBadRegister u64
  | WriteregNoValue
  | UsageRun
  | RunBadSteps u64
  | UsageSetpc
  | SetpcOutside u64
  | SetpcMisaligned u64
  | UsageSetptbr
  | SetptbrOutside u64
  | SetptbrMisaligned u64
  | UnrecognizedCommand string

text \<open>
  \<open>dump_buf\<close> is the static buffer of \<open>dump_data_to_file\<close>. The last four fields are the
  environment: which files can be created, what the uninitialised locals of the simulator loop
  and the uninitialised \<open>offset\<close> of the binary loader hold in the \<open>n\<close>-th command, and \<open>n\<close>.
\<close>

record console =
  sim_machine :: machine
  files :: "string \<Rightarrow> string option"
  stdin_text :: string
  stdout_text :: string
  fd3_text :: string
  stderr_log :: "message list"
  dump_buf :: "u8 list"
  may_create :: "string \<Rightarrow> bool"
  junk_locals :: "nat \<Rightarrow> locals"
  junk_offset :: "nat \<Rightarrow> u64"
  commands :: nat

definition memory_size :: u64 where "memory_size = 8 * 1024 * 1024"
definition SIM_MAX_LINE :: nat where "SIM_MAX_LINE = 4096"

definition cmdsep :: string where "cmdsep = [CHR '' '', CHR 0x09, CHR 0x0A, CHR 0x0D]"
definition file_sep :: string where "file_sep = [CHR '' '', CHR 0x09, CHR 0x0A]"

definition log_message :: "message \<Rightarrow> console \<Rightarrow> console" where
  "log_message m c = c\<lparr>stderr_log := stderr_log c @ [m]\<rparr>"

definition print :: "string \<Rightarrow> console \<Rightarrow> console" where
  "print s c = c\<lparr>stdout_text := stdout_text c @ s\<rparr>"

definition put_fw :: "framework \<Rightarrow> console \<Rightarrow> console" where
  "put_fw f c = c\<lparr>sim_machine := (sim_machine c)\<lparr>fw := f\<rparr>\<rparr>"

abbreviation cfw :: "console \<Rightarrow> framework" where "cfw c \<equiv> fw (sim_machine c)"

section \<open>Loading\<close>

definition verify_base :: "string \<Rightarrow> nat \<Rightarrow> bool" where
  "verify_base s base =
     list_all (\<lambda>c. \<not> (base = 8 \<and> \<not> (48 \<le> code c \<and> code c \<le> 55)) \<and> \<not> (base = 16 \<and> \<not> isxdigit c))
       (if base = 16 \<and> hex_prefix s then drop 2 s else s)"

text \<open>The bytes of a line; \<open>None\<close> when one of them is not a byte.\<close>

function load_bytes :: "string \<Rightarrow> u8 list \<Rightarrow> u8 list option result" where
  "load_bytes ctx membuf =
     (case strtok file_sep ctx of
        None \<Rightarrow> Inr (Some membuf)
      | Some (tok, ctx') \<Rightarrow>
          let b = ucast (strtol 16 tok) :: u32 in
          if b <s 0 \<or> 255 <s b \<or> \<not> verify_base tok 16 then Inr None
          else if length membuf \<ge> 2048 then Inl OutOfBounds
          else load_bytes ctx' (membuf @ [ucast b]))"
  by pat_completeness auto
termination
  by (relation "measure (\<lambda>(s, _). length s)") (auto dest: strtok_shorter)

declare load_bytes.simps [simp del]

text \<open>One line of a hexadecimal file: an error message, if any, and the framework.\<close>

definition load_line :: "string option \<Rightarrow> nat \<Rightarrow> framework \<Rightarrow> u64 \<Rightarrow> string \<Rightarrow>
    (message option \<times> framework) result" where
  "load_line filename lineno f addr buf =
     (case strtok file_sep (c_string buf) of
        None \<Rightarrow> Inr (None, f)
      | Some (tok, ctx) \<Rightarrow>
          if \<not> verify_base tok 8 then Inr (Some (BadOffset filename lineno (c_string buf)), f)
          else let offset = strtol 8 tok in
     (case load_bytes ctx [] of
        Inl e \<Rightarrow> Inl e
      | Inr None \<Rightarrow> Inr (Some (BadByte filename lineno (c_string buf)), f)
      | Inr (Some membuf) \<Rightarrow>
          if length membuf > 0
          then (case memory_load f membuf (addr + offset) (of_nat (length membuf)) of
                  Inl e \<Rightarrow> Inl e
                | Inr (_, f1) \<Rightarrow> Inr (None, f1))
          else Inr (None, f)))"

text \<open>The lines up to the end of the file or the first bad one, and the text after them.\<close>

function load_hex :: "string option \<Rightarrow> nat \<Rightarrow> framework \<Rightarrow> u64 \<Rightarrow> string \<Rightarrow>
    (message option \<times> framework \<times> string) result" where
  "load_hex filename lineno f addr text =
     (case fgets 4095 text of
        None \<Rightarrow> Inr (None, f, [])
      | Some (buf, rest) \<Rightarrow>
          (case load_line filename (lineno + 1) f addr buf of
             Inl e \<Rightarrow> Inl e
           | Inr (Some m, f1) \<Rightarrow> Inr (Some m, f1, rest)
           | Inr (None, f1) \<Rightarrow> load_hex filename (lineno + 1) f1 addr rest))"
  by pat_completeness auto
termination
  by (relation "measure (\<lambda>(_, _, _, _, s). length s)") (auto dest: fgets_shorter [rotated])

declare load_hex.simps [simp del]

text \<open>The binary loader copies blocks of at most 4096 bytes.\<close>

function load_binary :: "framework \<Rightarrow> u64 \<Rightarrow> u64 \<Rightarrow> string \<Rightarrow> framework result" where
  "load_binary f addr offset text =
     (if text = [] then Inr f
      else let buf = map of_char (take 4096 text); x = of_nat (length buf) in
           (case memory_load f buf (addr + offset) x of
              Inl e \<Rightarrow> Inl e
            | Inr (_, f1) \<Rightarrow> load_binary f1 addr (offset + x) (drop 4096 text)))"
  by pat_completeness auto
termination
  by (relation "measure (\<lambda>(_, _, _, s). length s)") auto

declare load_binary.simps [simp del]

text \<open>
  A bad line ends the load with \<open>fclose\<close>, for the standard input too; what a later read of a closed
  stream gives is not defined, and the model takes it as the end of the file.
\<close>

definition load_data_from_file :: "console \<Rightarrow> string option \<Rightarrow> bool \<Rightarrow> u64 \<Rightarrow> (bool \<times> console) result" where
  "load_data_from_file c filename is_hex addr =
     (case (case filename of None \<Rightarrow> Some (stdin_text c) | Some name \<Rightarrow> files c name) of
        None \<Rightarrow> Inr (False, log_message (LoadOpenFailed (the filename)) c)
      | Some text \<Rightarrow>
          let c1 = log_message (Loading filename addr is_hex) c in
          if is_hex
          then (case load_hex filename 0 (cfw c1) addr text of
                  Inl e \<Rightarrow> Inl e
                | Inr (err, f, rest) \<Rightarrow>
                    let c2 = put_fw f c1;
                        c3 = (if filename = None
                              then c2\<lparr>stdin_text := (if err = None then rest else [])\<rparr> else c2)
                    in (case err of
                          None \<Rightarrow> Inr (True, c3)
                        | Some m \<Rightarrow> Inr (False, log_message m c3)))
          else if filename = None then Inr (False, log_message BinaryLoadFromStdin c1)
          else (case load_binary (cfw c1) addr (junk_offset c (commands c)) text of
                  Inl e \<Rightarrow> Inl e
                | Inr f \<Rightarrow> Inr (True, put_fw f c1)))"

section \<open>Dumping\<close>

text \<open>The formats \<open>%012llo\<close>, \<open>%02x\<close> and the line made of them.\<close>

definition octal12 :: "u64 \<Rightarrow> string" where
  "octal12 a = zero_pad 12 (print_digits False 8 (unat a))"

definition hex2 :: "u8 \<Rightarrow> string" where
  "hex2 b = zero_pad 2 (print_digits False 16 (unat b))"

definition dump_line :: "u64 \<Rightarrow> u8 list \<Rightarrow> string" where
  "dump_line a bs = octal12 a @ concat (map (\<lambda>b. CHR '' '' # hex2 b) bs) @ [newline]"

text \<open>
  The loop over the lines, the text printed so far in \<open>out\<close>. The offset is a 64-bit counter that
  would wrap for lengths above \<open>2 ^ 64 - 16\<close> and start again; the first argument bounds the number
  of lines, and a loop that is not over after one line for every 16 bytes never ends.
\<close>

fun dump_hex :: "nat \<Rightarrow> framework \<Rightarrow> u64 \<Rightarrow> u64 \<Rightarrow> u64 \<Rightarrow> u8 list \<Rightarrow> string \<Rightarrow>
    (string \<times> u8 list) result" where
  "dump_hex k f addr len offset buf out =
     (if \<not> offset < len then Inr (out, buf)
      else (case k of
              0 \<Rightarrow> Inl Diverges
            | Suc k' \<Rightarrow>
                let actual_bytes = (if len - offset < 16 then len - offset else 16) in
                (case memory_dump f (Some buf) (addr + offset) actual_bytes of
                   Inl e \<Rightarrow> Inl e
                 | Inr (_, b) \<Rightarrow>
                     dump_hex k' f addr len (offset + 16) (the b)
                       (out @ dump_line (addr + offset) (take (unat actual_bytes) (the b))))))"

declare dump_hex.simps [simp del]

definition dump_data_to_file :: "console \<Rightarrow> string option \<Rightarrow> bool \<Rightarrow> u64 \<Rightarrow> u64 \<Rightarrow>
    (bool \<times> console) result" where
  "dump_data_to_file c filename is_hex addr len =
     (if (case filename of None \<Rightarrow> False | Some name \<Rightarrow> \<not> may_create c name)
      then Inr (False, log_message (DumpOpenFailed (the filename)) c)
      else
        let c0 = (case filename of None \<Rightarrow> c | Some name \<Rightarrow> c\<lparr>files := (files c)(name \<mapsto> [])\<rparr>);
            c1 = log_message (Dumping is_hex filename addr len) c0
        in if is_hex
           then (case dump_hex (Suc (unat len div 16)) (cfw c1) addr len 0 (dump_buf c1) [] of
                   Inl e \<Rightarrow> Inl e
                 | Inr (text, buf) \<Rightarrow>
                     let c2 = c1\<lparr>dump_buf := buf\<rparr>
                     in Inr (True, case filename of
                                     None \<Rightarrow> print text c2
                                   | Some name \<Rightarrow> c2\<lparr>files := (files c2)(name \<mapsto> text)\<rparr>))
           else Inr (False, log_message
                      (if filename = None then BinaryDumpToStdout else BinaryDumpNotImplemented) c1))"

section \<open>Commands\<close>

definition check_for_hex :: "string \<Rightarrow> string \<Rightarrow> bool \<times> string option \<times> string" where
  "check_for_hex sep ctx =
     (case strtok sep ctx of
        None \<Rightarrow> (False, None, [])
      | Some (token, ctx1) \<Rightarrow>
          if strcaseeq token ''/x''
          then (case strtok sep ctx1 of
                  None \<Rightarrow> (True, None, [])
                | Some (token, ctx2) \<Rightarrow> (True, Some token, ctx2))
          else (False, Some token, ctx1))"

definition cmd_load :: "console \<Rightarrow> string \<Rightarrow> console result" where
  "cmd_load c ctx =
     (case check_for_hex cmdsep ctx of
        (is_hex, None, _) \<Rightarrow> Inr (log_message UsageLoad c)
      | (is_hex, Some token, ctx1) \<Rightarrow>
          if \<not> verify_base token 16 then Inr (log_message UsageLoad c)
          else let address = strtol 0 token in
          if address > memory_size then Inr (log_message (AddressOutOfRange address) c)
          else let name = map_option fst (strtok cmdsep ctx1) in
          (case load_data_from_file c name is_hex address of
             Inl e \<Rightarrow> Inl e
           | Inr (done, c1) \<Rightarrow> Inr (if done then c1 else log_message (LoadFailed name) c1)))"

definition cmd_dump :: "console \<Rightarrow> string \<Rightarrow> console result" where
  "cmd_dump c ctx =
     (case check_for_hex cmdsep ctx of
        (is_hex, None, _) \<Rightarrow> Inr (log_message UsageDump c)
      | (is_hex, Some token, ctx1) \<Rightarrow>
          let address = strtol 0 token in
          (case strtok cmdsep ctx1 of
             None \<Rightarrow> Inr (log_message UsageDump c)
           | Some (token, ctx2) \<Rightarrow>
               let len = strtol 0 token in
               if address + len > memory_size \<or> len > memory_size
               then Inr (log_message (DumpOutOfRange address len) c)
               else let name = map_option fst (strtok cmdsep ctx2) in
               (case dump_data_to_file c name is_hex address len of
                  Inl e \<Rightarrow> Inl e
                | Inr (done, c1) \<Rightarrow> Inr (if done then c1 else log_message (DumpFailed name) c1))))"

definition abi_regs :: "string list" where
  "abi_regs = [''zero'', ''ra'', ''sp'', ''gp'', ''tp'', ''t0'', ''t1'', ''t2'', ''s0'', ''s1'',
     ''a0'', ''a1'', ''a2'', ''a3'', ''a4'', ''a5'', ''a6'', ''a7'', ''s2'', ''s3'', ''s4'', ''s5'',
     ''s6'', ''s7'', ''s8'', ''s9'', ''s10'', ''s11'', ''t3'', ''t4'', ''t5'', ''t6'']"

definition register_lines :: "framework \<Rightarrow> string" where
  "register_lines f =
     concat (map (\<lambda>i. let val = register_read_one f (of_nat i) in
                      if val \<noteq> 0
                      then abi_regs ! i @ '': 0x'' @ zero_pad 16 (print_digits True 16 (unat val)) @ [newline]
                      else [])
       [0..<unat RISCV_NUM_REGISTERS])"

definition llu :: "u64 \<Rightarrow> string" where "llu n = print_digits False 10 (unat n)"
definition llx :: "u64 \<Rightarrow> string" where "llx n = print_digits False 16 (unat n)"

text \<open>Without a token \<open>readreg\<close> prints its usage and goes on to \<open>strtol (NULL, NULL, 0)\<close>.\<close>

definition cmd_readreg :: "console \<Rightarrow> string \<Rightarrow> console result" where
  "cmd_readreg c ctx =
     (case check_for_hex cmdsep ctx of
        (is_hex, None, _) \<Rightarrow> Inl NullPointer
      | (is_hex, Some token, _) \<Rightarrow>
          let reg_num = strtol 0 token in
          if reg_num \<ge> RISCV_NUM_REGISTERS then Inr (log_message (ReadregBadRegister reg_num) c)
          else let val = register_read_one (cfw c) reg_num in
               Inr (print (''R'' @ llu reg_num @ '' = '' @
                      (if is_hex then ''0x'' @ zero_pad 16 (llx val) else llu val) @ [newline]) c))"

definition cmd_writereg :: "console \<Rightarrow> string \<Rightarrow> console result" where
  "cmd_writereg c ctx =
     (case strtok cmdsep ctx of
        None \<Rightarrow> Inr (log_message UsageWritereg c)
      | Some (token, ctx1) \<Rightarrow>
          let reg_num = strtoul 0 token in
          if reg_num \<ge> RISCV_NUM_REGISTERS then Inr (log_message (WriteregBadRegister reg_num) c)
          else (case strtok cmdsep ctx1 of
                  None \<Rightarrow> Inr (log_message WriteregNoValue c)
                | Some (token, _) \<Rightarrow>
                    let f = cfw c in
                    Inr (put_fw (f\<lparr>register_file :=
                           (register_file f)[unat reg_num := strtol 0 token]\<rparr>) c)))"

definition cmd_run :: "console \<Rightarrow> string \<Rightarrow> console result" where
  "cmd_run c ctx =
     (case strtok cmdsep ctx of
        None \<Rightarrow> Inr (log_message UsageRun c)
      | Some (token, _) \<Rightarrow>
          let n_steps = strtol 0 token in
          if n_steps < 1 \<or> n_steps > 100000000 then Inr (log_message (RunBadSteps n_steps) c)
          else (case simulator_execute_instructions (sim_machine c) (junk_locals c (commands c)) n_steps of
                  Inl e \<Rightarrow> Inl e
                | Inr s \<Rightarrow> Inr (c\<lparr>sim_machine := s\<rparr>)))"

text \<open>A program counter or page table base outside memory is reported and then set.\<close>

definition cmd_setpc :: "console \<Rightarrow> string \<Rightarrow> console result" where
  "cmd_setpc c ctx =
     (case strtok cmdsep ctx of
        None \<Rightarrow> Inr (log_message UsageSetpc c)
      | Some (token, _) \<Rightarrow>
          let prog_start = strtoul 0 token;
              c1 = (if prog_start > memory_size then log_message (SetpcOutside prog_start) c else c)
          in if prog_start mod 4 \<noteq> 0 then Inr (log_message (SetpcMisaligned prog_start) c1)
             else Inr (put_fw (set_pc (cfw c1) prog_start) c1))"

definition cmd_setptbr :: "console \<Rightarrow> string \<Rightarrow> console result" where
  "cmd_setptbr c ctx =
     (case strtok cmdsep ctx of
        None \<Rightarrow> Inr (log_message UsageSetptbr c)
      | Some (token, _) \<Rightarrow>
          let value = strtoul 0 token;
              c1 = (if value > memory_size then log_message (SetptbrOutside value) c else c)
          in if value mod MEMORY_PAGE_SIZE \<noteq> 0 then Inr (log_message (SetptbrMisaligned value) c1)
             else Inr (put_fw ((cfw c1)\<lparr>ptbr := value\<rparr>) c1))"

definition cmd_initialize :: "console \<Rightarrow> console" where
  "cmd_initialize c =
     (let c1 = print (''Setting state registers, counters, and PC to 0!'' @ [newline]) c
      in c1\<lparr>sim_machine := initialize_state (sim_machine c1)\<rparr>)"

definition cmd_memorystats :: "console \<Rightarrow> console" where
  "cmd_memorystats c =
     print (''Read operations: '' @ llu (read_counter (cfw c)) @ [newline] @
            ''Read bytes: '' @ llu (read_bytes (cfw c)) @ [newline] @
            ''Write operations: '' @ llu (write_counter (cfw c)) @ [newline] @
            ''Write bytes: '' @ llu (write_bytes (cfw c)) @ [newline]) c"

text \<open>\<open>execute_line\<close>: whether to go on, and the new state.\<close>

definition execute_line :: "console \<Rightarrow> string \<Rightarrow> (bool \<times> console) result" where
  "execute_line c0 l =
     (let c = c0\<lparr>commands := commands c0 + 1\<rparr>; go = map_sum id (Pair True) in
      case strtok cmdsep (take (SIM_MAX_LINE - 1) (c_string l)) of
        None \<Rightarrow> Inr (True, c)
      | Some (cmd, ctx) \<Rightarrow>
          if strcaseeq ''load'' cmd then go (cmd_load c ctx)
          else if strcaseeq ''test_dump_reg'' cmd
          then Inr (True, c\<lparr>fd3_text := fd3_text c @ register_lines (cfw c)\<rparr>)
          else if strcaseeq ''debug_dump_reg'' cmd then Inr (True, print (register_lines (cfw c)) c)
          else if strcaseeq ''dump'' cmd then go (cmd_dump c ctx)
          else if strcaseeq ''readreg'' cmd then go (cmd_readreg c ctx)
          else if strcaseeq ''writereg'' cmd then go (cmd_writereg c ctx)
          else if strcaseeq ''run'' cmd then go (cmd_run c ctx)
          else if strcaseeq ''setpc'' cmd then go (cmd_setpc c ctx)
          else if strcaseeq ''setptbr'' cmd then go (cmd_setptbr c ctx)
          else if strcaseeq ''initialize'' cmd then Inr (True, cmd_initialize c)
          else if strcaseeq ''getpc'' cmd
          then Inr (True, print (''PC: 0x'' @ llx (get_pc (cfw c)) @ [newline]) c)
          else if strcaseeq ''getcycles'' cmd
          then Inr (True, print (''Cycles: '' @ llu (get_cycle_counter (cfw c)) @ [newline]) c)
          else if strcaseeq ''memorystats'' cmd then Inr (True, cmd_memorystats c)
          else if strcaseeq ''exit'' cmd then Inr (False, c)
          else Inr (True, log_message (UnrecognizedCommand cmd) c))"

section \<open>Standard input\<close>

text \<open>Commands only ever consume standard input, which the interactive loop needs to end.\<close>

lemma console_frames [simp]:
  "stdin_text (log_message m c) = stdin_text c" "stdin_text (print t c) = stdin_text c"
  "stdin_text (put_fw f c) = stdin_text c" "sim_machine (log_message m c) = sim_machine c"
  "sim_machine (print t c) = sim_machine c" "sim_machine (put_fw f c) = (sim_machine c)\<lparr>fw := f\<rparr>"
  "dump_buf (log_message m c) = dump_buf c" "dump_buf (print t c) = dump_buf c"
  "dump_buf (put_fw f c) = dump_buf c" "files (log_message m c) = files c"
  "files (put_fw f c) = files c" "commands (log_message m c) = commands c"
  by (simp_all add: log_message_def print_def put_fw_def)

lemma load_hex_rest: "load_hex fn n f a inp = Inr (m, g, rest) \<Longrightarrow> length rest \<le> length inp"
proof (induction fn n f a inp rule: load_hex.induct)
  case (1 fn n f a inp)
  show ?case
  proof (cases "fgets 4095 inp")
    case None
    with 1(2) show ?thesis by (subst (asm) load_hex.simps) simp
  next
    case (Some br)
    obtain buf r where br: "br = (buf, r)" by (cases br)
    have r: "length r < length inp" using fgets_shorter [of 4095 inp buf r] Some br by simp
    note IH = 1(1) [OF Some br [symmetric] _ refl refl, simplified]
    from r 1(2) Some br show ?thesis
      by (subst (asm) load_hex.simps) (auto split: sum.splits option.splits dest!: IH)
  qed
qed

lemma load_data_stdin:
  "load_data_from_file c fn h a = Inr (done, d) \<Longrightarrow> length (stdin_text d) \<le> length (stdin_text c)"
  by (auto simp: load_data_from_file_def Let_def split: option.splits sum.splits if_splits
      dest!: load_hex_rest)

lemma dump_data_stdin:
  "dump_data_to_file c fn h a n = Inr (done, d) \<Longrightarrow> stdin_text d = stdin_text c"
  by (auto simp: dump_data_to_file_def Let_def split: option.splits sum.splits if_splits)

lemma execute_line_stdin:
  assumes "execute_line c l = Inr (go, d)"
  shows "length (stdin_text d) \<le> length (stdin_text c)"
  using assms
  by (auto simp: execute_line_def cmd_load_def cmd_dump_def cmd_readreg_def cmd_writereg_def
      cmd_run_def cmd_setpc_def cmd_setptbr_def cmd_initialize_def cmd_memorystats_def Let_def
      split: option.splits sum.splits if_splits prod.splits
      dest: load_data_stdin dump_data_stdin)

section \<open>The program\<close>

text \<open>
  The options, as the successive results of \<open>getopt\<close>: the state, the text of the command file if
  one was given, and whether to run the unit tests. An unknown option or a command file that
  cannot be opened ends the program with its usage.
\<close>

fun main_options :: "(char \<times> string) list \<Rightarrow> console \<Rightarrow> string option \<Rightarrow> bool \<Rightarrow>
    (console \<times> string option \<times> bool) result" where
  "main_options [] c cmd_fp run_unit_tests = Inr (c, cmd_fp, run_unit_tests)"
| "main_options ((ch, optarg) # opts) c cmd_fp run_unit_tests =
     (if ch = CHR ''f''
      then (case files c optarg of
              None \<Rightarrow> Inl UsageExit
            | Some t \<Rightarrow> main_options opts c (Some t) run_unit_tests)
      else if ch = CHR ''r''
      then main_options opts (put_fw ((cfw c)\<lparr>memory_read_latency := strtol 10 optarg\<rparr>) c) cmd_fp
             run_unit_tests
      else if ch = CHR ''w''
      then main_options opts (put_fw ((cfw c)\<lparr>memory_write_latency := strtol 10 optarg\<rparr>) c) cmd_fp
             run_unit_tests
      else if ch = CHR ''u'' then main_options opts c cmd_fp True
      else Inl UsageExit)"

text \<open>The loop over the lines of a command file, and the one over the lines typed at the prompt.\<close>

function command_file_loop :: "string \<Rightarrow> console \<Rightarrow> console result" where
  "command_file_loop inp c =
     (case fgets 1023 inp of
        None \<Rightarrow> Inr c
      | Some (line, rest) \<Rightarrow>
          (case execute_line c line of
             Inl e \<Rightarrow> Inl e
           | Inr (go, c1) \<Rightarrow> if go then command_file_loop rest c1 else Inr c1))"
  by pat_completeness auto
termination
  by (relation "measure (\<lambda>(s, _). length s)") (auto dest: fgets_shorter [rotated])

text \<open>The \<open>readline\<close> of a build without the library: the prompt, then a line of standard input.\<close>

definition readline :: "string \<Rightarrow> console \<Rightarrow> string option \<times> console" where
  "readline prompt c =
     (let d = print (''-'' @ prompt) c in
      case fgets 8191 (stdin_text d) of
        None \<Rightarrow> (None, d)
      | Some (line, rest) \<Rightarrow> (Some line, d\<lparr>stdin_text := rest\<rparr>))"

lemma readline_shorter:
  "readline p c = (Some line, d) \<Longrightarrow> length (stdin_text d) < length (stdin_text c)"
  by (auto simp: readline_def Let_def split: option.splits dest: fgets_shorter [rotated])

function interactive_loop :: "console \<Rightarrow> console result" where
  "interactive_loop c =
     (case readline (''RISCV (PC=0x'' @ llx (get_pc (cfw c)) @ '')> '') c of
        (None, d) \<Rightarrow> Inr (print [newline] d)
      | (Some line, d) \<Rightarrow>
          (case execute_line d line of
             Inl e \<Rightarrow> Inl e
           | Inr (go, c1) \<Rightarrow> if go then interactive_loop c1 else Inr c1))"
  by pat_completeness auto
termination
  by (relation "measure (\<lambda>c. length (stdin_text c))")
    (auto dest!: readline_shorter [OF sym] execute_line_stdin)

declare command_file_loop.simps [simp del] interactive_loop.simps [simp del]

definition main :: "console \<Rightarrow> (char \<times> string) list \<Rightarrow> console result" where
  "main c0 opts =
     (case main_options opts c0 None False of
        Inl e \<Rightarrow> Inl e
      | Inr (c1, cmd_fp, run_unit_tests) \<Rightarrow>
          (case memory_initialize (cfw c1) memory_size of
             Inl e \<Rightarrow> Inl e
           | Inr f \<Rightarrow>
               let c2 = put_fw f c1;
                   c3 = c2\<lparr>sim_machine := initialize_state (sim_machine c2)\<rparr>
               in if run_unit_tests then Inr c3
                  else (case cmd_fp of
                          None \<Rightarrow> interactive_loop c3
                        | Some t \<Rightarrow> command_file_loop t c3)))"

text \<open>
  The machine that \<open>main\<close> finds: all static variables are zero. The allocator and the
  uninitialised variables of the environment are arbitrary.
\<close>

definition static_machine :: "(u64 \<Rightarrow> bool) \<Rightarrow> (u64 \<Rightarrow> u64 \<Rightarrow> u32) \<Rightarrow> machine" where
  "static_machine alloc junk =
     \<lparr>fw = boot_framework\<lparr>riscv_mem_size := 0, heap_alloc := alloc, uninit := junk\<rparr>,
      has_initialised = False, instruction_cache = zero_cache, data_cache = zero_cache,
      itlb = empty_tlb, dtlb = empty_tlb, btable = empty_branch_table, cur_d_reg = zero_d,
      cur_x_reg = zero_x, cur_m_reg = zero_m, cur_w_reg = zero_w, printed = []\<rparr>"

section \<open>The machine invariant\<close>

definition console_inv :: "console \<Rightarrow> bool" where
  "console_inv c \<longleftrightarrow> machine_inv (sim_machine c) \<and> riscv_mem_size (cfw c) = memory_size \<and>
     length (dump_buf c) = 4096"

text \<open>Loading changes the contents of memory and nothing else of the framework.\<close>

definition mem_only :: "framework \<Rightarrow> framework \<Rightarrow> bool" where
  "mem_only f g \<longleftrightarrow> f\<lparr>riscv_mem := riscv_mem g\<rparr> = g"

lemma mem_only_refl [simp]: "mem_only f f"
  by (simp add: mem_only_def)

lemma mem_only_upd [simp]: "mem_only f (f\<lparr>riscv_mem := m\<rparr>)"
  by (simp add: mem_only_def)

lemma mem_only_trans: "mem_only f g \<Longrightarrow> mem_only g h \<Longrightarrow> mem_only f h"
  unfolding mem_only_def by (metis framework.surjective framework.update_convs(1))

lemma mem_only_wf: "mem_only f g \<Longrightarrow> wf_framework g = wf_framework f \<and> riscv_mem_size g = riscv_mem_size f"
  unfolding mem_only_def wf_framework_def by (metis framework.select_convs framework.surjective framework.update_convs(1))

lemma memory_load_mem_only: "memory_load f r b n = Inr (done, g) \<Longrightarrow> mem_only f g"
  by (auto simp: memory_load_def split: if_splits)

lemma load_line_mem_only: "load_line fn n f a buf = Inr (m, g) \<Longrightarrow> mem_only f g"
  by (auto simp: load_line_def Let_def split: option.splits sum.splits if_splits
      dest: memory_load_mem_only)

lemma load_hex_mem_only: "load_hex fn n f a inp = Inr (m, g, rest) \<Longrightarrow> mem_only f g"
proof (induction fn n f a inp rule: load_hex.induct)
  case (1 fn n f a inp)
  show ?case
  proof (cases "fgets 4095 inp")
    case None
    with 1(2) show ?thesis by (subst (asm) load_hex.simps) simp
  next
    case (Some br)
    obtain buf r where br: "br = (buf, r)" by (cases br)
    have step: "load_line fn (Suc n) f a buf = Inr (None, h) \<Longrightarrow>
        load_hex fn (Suc n) h a r = Inr (m, g, rest) \<Longrightarrow> mem_only f g" for h
      using 1(1) [OF Some br [symmetric] _ refl refl] load_line_mem_only [of fn "Suc n" f a buf None h]
      by (auto intro: mem_only_trans)
    from 1(2) Some br show ?thesis
      by (subst (asm) load_hex.simps)
        (auto split: sum.splits option.splits dest: step dest!: load_line_mem_only [of _ _ _ _ _ "Some _"])
  qed
qed

lemma load_binary_mem_only: "load_binary f a k inp = Inr g \<Longrightarrow> mem_only f g"
proof (induction f a k inp rule: load_binary.induct)
  case (1 f a k inp)
  show ?case
  proof (cases "inp = []")
    case True
    with 1(2) show ?thesis by (subst (asm) load_binary.simps) simp
  next
    case False
    from 1(2) False obtain h ok1 where "memory_load f (map of_char (take 4096 inp)) (a + k)
        (of_nat (length (map of_char (take 4096 inp) :: u8 list))) = Inr (ok1, h)"
      and "load_binary h a (k + of_nat (length (map of_char (take 4096 inp) :: u8 list)))
        (drop 4096 inp) = Inr g"
      by (subst (asm) load_binary.simps) (auto simp: Let_def split: sum.splits)
    with 1(1) [OF False refl refl this(1) refl] show ?thesis
      by (blast intro: mem_only_trans memory_load_mem_only)
  qed
qed

lemma load_data_frame:
  "load_data_from_file c fn h a = Inr (done, d) \<Longrightarrow>
   mem_only (cfw c) (cfw d) \<and> sim_machine d = (sim_machine c)\<lparr>fw := cfw d\<rparr> \<and> dump_buf d = dump_buf c"
  by (auto simp: load_data_from_file_def Let_def split: option.splits sum.splits if_splits
      dest!: load_hex_mem_only load_binary_mem_only)

lemma memory_dump_buf: "memory_dump f (Some buf) b n = Inr (done, v) \<Longrightarrow> length (the v) = length buf"
  by (auto simp: memory_dump_def split: if_splits sum.splits dest: buf_put_length)

lemma dump_hex_buf:
  "dump_hex k f a n k0 buf out = Inr (t, buf') \<Longrightarrow> length buf' = length buf"
proof (induction k arbitrary: k0 buf out)
  case 0
  then show ?case by (subst (asm) dump_hex.simps) (auto split: if_splits)
next
  case (Suc k)
  then show ?case
    by (subst (asm) (2) dump_hex.simps)
      (auto simp: Let_def split: if_splits sum.splits dest!: Suc.IH memory_dump_buf)
qed

lemma dump_data_frame:
  "dump_data_to_file c fn h a n = Inr (done, d) \<Longrightarrow>
   sim_machine d = sim_machine c \<and> length (dump_buf d) = length (dump_buf c)"
  by (auto simp: dump_data_to_file_def Let_def split: option.splits sum.splits if_splits
      dest: dump_hex_buf)

lemma simulator_run_inv:
  assumes "machine_inv s" "simulator_execute_instructions s l n = Inr t"
  shows "machine_inv t \<and> riscv_mem_size (fw t) = riscv_mem_size (fw s)"
proof -
  from assms(2) obtain k l' where run: "run_steps sim_step (replicate k ()) (s, l) = Inr (t, l')"
    using run_cycles_steps [of "unat n" s l t]
    by (auto simp: simulator_execute_instructions_def stops_after_def)
  with sim.run_inv [OF _ run] steps_counter [OF assms(1) run] assms(1) show ?thesis by simp
qed

lemma console_inv_frames [simp]:
  "console_inv (log_message m c) = console_inv c" "console_inv (print t c) = console_inv c"
  "console_inv (c\<lparr>stdin_text := t\<rparr>) = console_inv c" "console_inv (c\<lparr>commands := k\<rparr>) = console_inv c"
  "console_inv (c\<lparr>fd3_text := t\<rparr>) = console_inv c"
  by (simp_all add: console_inv_def)

lemma console_inv_fw:
  assumes "console_inv c" "wf_framework g" "riscv_mem_size g = memory_size"
    and "sim_machine d = (sim_machine c)\<lparr>fw := g\<rparr>" "length (dump_buf d) = length (dump_buf c)"
  shows "console_inv d"
  using assms by (simp add: console_inv_def machine_inv_def)

lemma console_inv_put_fw:
  "console_inv c \<Longrightarrow> wf_framework g \<Longrightarrow> riscv_mem_size g = memory_size \<Longrightarrow> console_inv (put_fw g c)"
  by (rule console_inv_fw [of c g]) simp_all

lemma console_inv_wf: "console_inv c \<Longrightarrow> wf_framework (cfw c) \<and> riscv_mem_size (cfw c) = memory_size"
  by (simp add: console_inv_def machine_inv_def)

lemma load_data_inv:
  assumes "console_inv c" "load_data_from_file c fn h a = Inr (done, d)"
  shows "console_inv d"
  using load_data_frame [OF assms(2)] console_inv_wf [OF assms(1)] mem_only_wf [of "cfw c" "cfw d"]
  by (intro console_inv_fw [OF assms(1), of "cfw d" d]) auto

lemma dump_data_inv:
  "console_inv c \<Longrightarrow> dump_data_to_file c fn h a n = Inr (done, d) \<Longrightarrow> console_inv d"
  using dump_data_frame [of c fn h a n "done" d] by (auto simp: console_inv_def)

lemma initialize_state_inv:
  "machine_inv s \<Longrightarrow> machine_inv (initialize_state s) \<and>
   riscv_mem_size (fw (initialize_state s)) = riscv_mem_size (fw s)"
  by (simp add: machine_inv_def initialize_state_def wf_framework_def memory_initialize_pending_def
      set_pc_def wf_zero)

lemma commands_inv:
  assumes "console_inv c"
  shows "cmd_load c ctx = Inr d \<Longrightarrow> console_inv d" "cmd_dump c ctx = Inr d \<Longrightarrow> console_inv d"
    "cmd_readreg c ctx = Inr d \<Longrightarrow> console_inv d" "cmd_writereg c ctx = Inr d \<Longrightarrow> console_inv d"
    "cmd_run c ctx = Inr d \<Longrightarrow> console_inv d" "cmd_setpc c ctx = Inr d \<Longrightarrow> console_inv d"
    "cmd_setptbr c ctx = Inr d \<Longrightarrow> console_inv d" "console_inv (cmd_initialize c)"
    "console_inv (cmd_memorystats c)"
proof -
  note wf = console_inv_wf [OF assms]
  show "cmd_load c ctx = Inr d \<Longrightarrow> console_inv d"
    using assms by (auto simp: cmd_load_def Let_def split: prod.splits option.splits if_splits sum.splits
        dest: load_data_inv)
  show "cmd_dump c ctx = Inr d \<Longrightarrow> console_inv d"
    using assms by (auto simp: cmd_dump_def Let_def split: prod.splits option.splits if_splits sum.splits
        dest: dump_data_inv)
  show "cmd_readreg c ctx = Inr d \<Longrightarrow> console_inv d"
    using assms by (auto simp: cmd_readreg_def Let_def split: prod.splits option.splits if_splits)
  show "cmd_writereg c ctx = Inr d \<Longrightarrow> console_inv d"
    using assms wf by (auto simp: cmd_writereg_def Let_def wf_framework_def
        split: prod.splits option.splits if_splits intro!: console_inv_put_fw)
  show "cmd_run c ctx = Inr d \<Longrightarrow> console_inv d"
    using assms simulator_run_inv [of "sim_machine c"]
    by (auto simp: cmd_run_def Let_def console_inv_def split: prod.splits option.splits if_splits sum.splits)
  show "cmd_setpc c ctx = Inr d \<Longrightarrow> console_inv d"
    using assms wf by (auto simp: cmd_setpc_def Let_def wf_framework_def set_pc_def
        split: prod.splits option.splits if_splits intro!: console_inv_put_fw)
  show "cmd_setptbr c ctx = Inr d \<Longrightarrow> console_inv d"
    using assms wf by (auto simp: cmd_setptbr_def Let_def wf_framework_def
        split: prod.splits option.splits if_splits intro!: console_inv_put_fw)
  show "console_inv (cmd_initialize c)" "console_inv (cmd_memorystats c)"
    using assms initialize_state_inv [of "sim_machine c"]
    by (auto simp: cmd_initialize_def cmd_memorystats_def console_inv_def Let_def)
qed

lemma execute_line_inv:
  assumes "console_inv c" "execute_line c l = Inr (go, d)"
  shows "console_inv d"
proof -
  have c: "console_inv (c\<lparr>commands := commands c + 1\<rparr>)" using assms(1) by simp
  from assms(2) show ?thesis
    using assms(1) commands_inv [OF c] unfolding execute_line_def
    by (auto simp: Let_def split: option.splits if_splits)
qed

text \<open>A line as a step of a run, whether or not it asks to stop.\<close>

definition line_step :: "string \<Rightarrow> console \<Rightarrow> console result" where
  "line_step l c = map_sum id snd (execute_line c l)"

interpretation interpreter: run_invariant line_step console_inv
  by unfold_locales (auto simp: line_step_def intro: execute_line_inv)

end
