(* ===== verification/Command_Properties.thy ===== *)
theory Command_Properties
  imports Command_Line
begin

text \<open>
  Properties of the command line of \<open>Command_Line\<close>: the hexadecimal loader cannot fault, a dump is
  loaded back unchanged, the dumps that leave the memory block are those that reach the top of the
  address space, and the whole program keeps the machine invariant.
\<close>

section \<open>The hexadecimal loader cannot fault\<close>

lemma load_bytes_total:
  "length membuf + (length ctx + 1) div 2 \<le> 2048 \<Longrightarrow>
   \<exists>r. load_bytes ctx membuf = Inr r \<and> (\<forall>bs. r = Some bs \<longrightarrow> length bs \<le> 2048)"
proof (induction ctx membuf rule: load_bytes.induct)
  case (1 ctx membuf)
  show ?case
  proof (cases "strtok file_sep ctx")
    case None
    with 1(2) show ?thesis by (subst load_bytes.simps) simp
  next
    case (Some tr)
    obtain t r where tr: "tr = (t, r)" by (cases tr)
    from strtok_uses [of file_sep ctx t r] strtok_shorter [of file_sep ctx t r] Some tr
    have "length r + 1 < length ctx \<or> r = [] \<and> 1 \<le> length ctx"
      by (cases t) auto
    then have half: "1 + (length r + 1) div 2 \<le> (length ctx + 1) div 2" by auto
    let ?b = "ucast (strtol 16 t) :: u32"
    show ?thesis
    proof (cases "?b <s 0 \<or> 255 <s ?b \<or> \<not> verify_base t 16")
      case True
      with Some tr show ?thesis by (subst load_bytes.simps) (simp add: Let_def)
    next
      case False
      from half 1(2) have len: "\<not> 2048 \<le> length membuf" by simp
      have "length (membuf @ [ucast ?b :: u8]) + (length r + 1) div 2 \<le> 2048"
        using half 1(2) by simp
      from 1(1) [OF Some tr [symmetric] refl False len this] Some tr False len show ?thesis
        by (subst load_bytes.simps) (simp add: Let_def)
    qed
  qed
qed

lemma memory_load_no_wrap:
  assumes "unat b + unat n < 2 ^ 64"
  shows "\<exists>r. memory_load f bs b n = Inr r"
proof -
  have "unat (b + n) = unat b + unat n" using assms by (simp add: unat_word_ariths)
  then have "\<not> b + n > riscv_mem_size f \<Longrightarrow> in_block f b n"
    by (simp add: in_block_def word_less_nat_alt)
  then show ?thesis by (auto simp: memory_load_def)
qed

lemma strtol_octal_bound:
  assumes "verify_base t 8"
  shows "unat (strtol 8 t) < 2 ^ 63"
proof -
  have hd: "s \<noteq> [] \<Longrightarrow> set s \<subseteq> set t \<Longrightarrow> hd s \<noteq> CHR ''-''" for s
    using assms by (cases s) (auto simp: verify_base_def list_all_iff)
  have "set (dropWhile isspace t) \<subseteq> set t" by (auto dest: set_dropWhileD)
  with hd [of "dropWhile isspace t"] have "\<not> fst (strto_parts 8 t)"
    by (auto simp: strto_parts_def Let_def)
  then show ?thesis
    by (auto simp: strtol_def unsigned_of_nat take_bit_nat_eq_self split: prod.splits)
qed

lemma length_c_string: "length (c_string s) \<le> length s"
  by (simp add: c_string_def length_takeWhile_le)

lemma load_line_total:
  assumes "length buf < 4095" "addr \<le> memory_size"
  shows "\<exists>r. load_line fn n f addr buf = Inr r"
proof (cases "strtok file_sep (c_string buf)")
  case None
  then show ?thesis by (simp add: load_line_def)
next
  case (Some tc)
  obtain t ctx where tc: "tc = (t, ctx)" by (cases tc)
  have "length ctx < 4095"
    using strtok_shorter [of file_sep "c_string buf" t ctx] Some tc length_c_string [of buf] assms(1)
    by simp
  then have "length ([] :: u8 list) + (length ctx + 1) div 2 \<le> 2048" by simp
  from load_bytes_total [OF this] obtain r where r: "load_bytes ctx [] = Inr r"
    and bound: "\<And>bs. r = Some bs \<Longrightarrow> length bs \<le> 2048" by blast
  have "\<exists>q. memory_load f bs (addr + strtol 8 t) (of_nat (length bs)) = Inr q"
    if "verify_base t 8" "r = Some bs" for bs
  proof (rule memory_load_no_wrap)
    have "unat addr \<le> 8388608" using assms(2) by (simp add: memory_size_def word_le_nat_alt)
    moreover have "unat (of_nat (length bs) :: u64) \<le> 2048"
      using bound [OF that(2)] by (simp add: unsigned_of_nat take_bit_nat_eq_self)
    moreover note strtol_octal_bound [OF that(1)]
    ultimately show "unat (addr + strtol 8 t) + unat (of_nat (length bs) :: u64) < 2 ^ 64"
      by (simp add: unat_word_ariths)
  qed
  with Some tc r show ?thesis
    by (cases r) (fastforce simp: load_line_def Let_def)+
qed

lemma load_hex_total:
  "addr \<le> memory_size \<Longrightarrow> \<exists>r. load_hex fn n f addr inp = Inr r"
proof (induction fn n f addr inp rule: load_hex.induct)
  case (1 fn n f addr inp)
  show ?case
  proof (cases "fgets 4095 inp")
    case None
    then show ?thesis by (subst load_hex.simps) simp
  next
    case (Some br)
    obtain buf r where br: "br = (buf, r)" by (cases br)
    then obtain m g where l: "load_line fn (n + 1) f addr buf = Inr (m, g)"
      using load_line_total [OF _ 1(2)] fgets_shorter [of 4095 inp buf r] Some by fastforce
    with 1(1) [OF Some br [symmetric] l refl _ 1(2)] Some br show ?thesis
      by (subst load_hex.simps) (auto split: option.splits)
  qed
qed

lemma load_data_total:
  assumes "addr \<le> memory_size"
  shows "\<exists>r. load_data_from_file c fn True addr = Inr r"
proof (cases "case fn of None \<Rightarrow> Some (stdin_text c) | Some name \<Rightarrow> files c name")
  case None
  then show ?thesis by (auto simp: load_data_from_file_def intro: exI [of _ False])
next
  case (Some inp)
  obtain e g r where "load_hex fn 0 (cfw c) addr inp = Inr (e, g, r)"
    using load_hex_total [OF assms, of fn 0 "cfw c" inp] by auto
  with Some show ?thesis
    by (cases e) (auto simp: load_data_from_file_def Let_def)
qed

text \<open>
  Property C19: loading a hexadecimal file is safe. Whatever the arguments and the file contain,
  a \<open>load /x\<close> command returns: no line overruns the 2048-byte buffer, no offset reaches past the
  memory block, and of the machine only the contents of memory can change.
\<close>
theorem hex_load_safe:
  assumes "console_inv c" "check_for_hex cmdsep ctx = (True, token, ctx1)"
  shows "\<exists>d. cmd_load c ctx = Inr d \<and> console_inv d \<and>
    sim_machine d = (sim_machine c)\<lparr>fw := (cfw c)\<lparr>riscv_mem := riscv_mem (cfw d)\<rparr>\<rparr>"
proof -
  have "\<exists>d. cmd_load c ctx = Inr d \<and>
    (sim_machine d = sim_machine c \<or> mem_only (cfw c) (cfw d) \<and> sim_machine d = (sim_machine c)\<lparr>fw := cfw d\<rparr>)"
  proof (cases "\<exists>t. token = Some t \<and> verify_base t 16 \<and> strtol 0 t \<le> memory_size")
    case True
    then obtain t where t: "token = Some t" "verify_base t 16" "strtol 0 t \<le> memory_size" by blast
    let ?fn = "map_option fst (strtok cmdsep ctx1)"
    obtain b d where l: "load_data_from_file c ?fn True (strtol 0 t) = Inr (b, d)"
      using load_data_total [OF t(3), of c ?fn] by auto
    from load_data_frame [OF l] t l assms(2) show ?thesis
      by (auto simp: cmd_load_def Let_def not_less)
  next
    case False
    with assms(2) show ?thesis
      by (auto simp: cmd_load_def Let_def not_less split: option.splits)
  qed
  then obtain d where d: "cmd_load c ctx = Inr d" and
    "sim_machine d = sim_machine c \<or> mem_only (cfw c) (cfw d) \<and> sim_machine d = (sim_machine c)\<lparr>fw := cfw d\<rparr>"
    by blast
  then have "sim_machine d = (sim_machine c)\<lparr>fw := (cfw c)\<lparr>riscv_mem := riscv_mem (cfw d)\<rparr>\<rparr>"
    by (auto simp: mem_only_def)
  with d commands_inv(1) [OF assms(1) d] show ?thesis by blast
qed

section \<open>A dump is loaded back\<close>

text \<open>The text of a dump, and the words of a line after its address.\<close>

function dump_text :: "(u64 \<Rightarrow> u8) \<Rightarrow> u64 \<Rightarrow> nat \<Rightarrow> string" where
  "dump_text m a n =
     (if n = 0 then []
      else dump_line a (fetch_bytes m a (min n 16)) @ dump_text m (a + 16) (n - 16))"
  by pat_completeness auto
termination
  by (relation "measure (\<lambda>(_, _, n). n)") auto

declare dump_text.simps [simp del]

fun byte_words :: "u8 list \<Rightarrow> string" where
  "byte_words [] = []"
| "byte_words [b] = hex2 b @ [newline]"
| "byte_words (b # b' # bs) = hex2 b @ CHR '' '' # byte_words (b' # bs)"

lemma dump_line_words:
  "bs \<noteq> [] \<Longrightarrow> dump_line a bs = octal12 a @ CHR '' '' # byte_words bs"
proof -
  have "concat (map (\<lambda>b. CHR '' '' # hex2 b) (b # bs)) @ [newline] = CHR '' '' # byte_words (b # bs)" for b bs
    by (induction bs arbitrary: b) auto
  then show "bs \<noteq> [] \<Longrightarrow> ?thesis" unfolding dump_line_def by (metis neq_Nil_conv)
qed

lemma hex2_digits: "list_all (is_digit 16) (hex2 b)" "hex2 b \<noteq> []"
  by (simp_all add: hex2_def zero_pad_digits print_digits_digits zero_pad_ne)

lemma octal12_digits: "list_all (is_digit 8) (octal12 a)" "octal12 a \<noteq> []"
  by (simp_all add: octal12_def zero_pad_digits print_digits_digits zero_pad_ne)

lemma digits_no_sep:
  assumes "list_all (is_digit b) s" "b \<le> 16" "\<forall>c \<in> set sep. code c < 48"
  shows "set s \<inter> set sep = {}"
proof -
  have "c \<in> set s \<Longrightarrow> 48 \<le> code c" for c
    using is_digit_code(1) [of b c] assms(1,2) by (auto simp: list_all_iff)
  with assms(3) show ?thesis by fastforce
qed

lemma file_sep_codes: "\<forall>c \<in> set file_sep. code c < 48" "CHR '' '' \<in> set file_sep" "newline \<in> set file_sep"
  by (simp_all add: file_sep_def newline_def)

lemma verify_digits:
  assumes "list_all (is_digit b) s" "b = 8 \<or> b = 16"
  shows "verify_base s b"
proof -
  have b: "b \<le> 16" using assms(2) by auto
  have "c \<in> set s \<Longrightarrow> isxdigit c \<and> (b = 8 \<longrightarrow> 48 \<le> code c \<and> code c \<le> 55)" for c
    using is_digit_code [of b c] assms(1) b by (auto simp: list_all_iff isxdigit_def)
  with digits_plain(3) [OF assms(1) b] show ?thesis
    by (auto simp: verify_base_def list_all_iff)
qed

lemma strtol_hex2: "strtol 16 (hex2 b) = ucast b"
  using strtol_printed [of 16 "unat b" 2 False] unsigned_less [of b, where 'a = nat]
  by (simp add: hex2_def)

lemma strtol_octal12: "unat a < 2 ^ 63 \<Longrightarrow> strtol 8 (octal12 a) = a"
  using strtol_printed [of 8 "unat a" 12 False] by (simp add: octal12_def)

lemma byte_as_int: "\<not> (ucast (ucast (b :: u8) :: u64) :: u32) <s 0"
  "\<not> 255 <s (ucast (ucast (b :: u8) :: u64) :: u32)" "ucast (ucast (ucast (b :: u8) :: u64) :: u32) = b"
proof -
  have "ucast (ucast b :: u64) = (ucast b :: u32)" by (rule bit_word_eqI) (auto simp: bit_simps)
  moreover have b: "uint b < 256" using unsigned_less [of b, where 'a = int] by simp
  moreover have "sint (ucast b :: u32) = uint b"
  proof -
    have "uint (ucast b :: u32) = uint b" using b by (simp add: unsigned_ucast_eq take_bit_int_eq_self)
    moreover have "signed_take_bit 31 (uint b) = uint b"
    proof (rule signed_take_bit_int_eq_self)
      show "- (2 ^ 31) \<le> uint b" by (rule order_trans [OF _ uint_ge_0]) simp
    qed (use b in simp)
    ultimately show ?thesis by (simp add: sint_uint)
  qed
  moreover have "sint (255 :: u32) = 255" by simp
  ultimately show "\<not> (ucast (ucast b :: u64) :: u32) <s 0" "\<not> 255 <s (ucast (ucast b :: u64) :: u32)"
    by (simp_all add: word_sless_alt)
  show "ucast (ucast (ucast b :: u64) :: u32) = b"
    by (rule bit_word_eqI) (auto simp: bit_simps)
qed

lemma load_bytes_word:
  assumes "length acc < 2048" "p \<in> set file_sep"
  shows "load_bytes (hex2 b @ p # r) acc = load_bytes r (acc @ [b])"
proof -
  have "strtok file_sep (hex2 b @ p # r) = Some (hex2 b, r)"
    using strtok_word [of "hex2 b" file_sep p "[]" r] assms(2)
      digits_no_sep [OF hex2_digits(1) _ file_sep_codes(1)] hex2_digits(2) by simp
  with assms(1) show ?thesis
    by (subst load_bytes.simps)
      (simp add: Let_def strtol_hex2 byte_as_int verify_digits [OF hex2_digits(1)])
qed

lemma load_bytes_words:
  "length acc + length bs \<le> 2048 \<Longrightarrow> load_bytes (byte_words bs) acc = Inr (Some (acc @ bs))"
proof (induction bs arbitrary: acc rule: byte_words.induct)
  case 1
  then show ?case by (subst load_bytes.simps) (simp add: strtok_end)
next
  case (2 b)
  have "load_bytes [] acc' = Inr (Some acc')" for acc'
    by (subst load_bytes.simps) (simp add: strtok_end)
  with 2 show ?case by (simp add: load_bytes_word file_sep_codes)
next
  case (3 b b' bs)
  then show ?case by (simp add: load_bytes_word file_sep_codes)
qed

lemma print_digits_length: "n < b ^ Suc k \<Longrightarrow> 2 \<le> b \<Longrightarrow> length (print_digits u b n) \<le> Suc k"
proof (induction k arbitrary: n)
  case 0
  then show ?case by (subst print_digits.simps) simp
next
  case (Suc k)
  have "n div b < b ^ Suc k" using Suc.prems by (simp add: less_mult_imp_div_less mult.commute)
  with Suc show ?case by (subst print_digits.simps) simp
qed

lemma hex2_length: "length (hex2 b) = 2"
  using print_digits_length [of "unat b" 16 1 False] unsigned_less [of b, where 'a = nat]
  by (simp add: hex2_def zero_pad_def)

lemma octal12_length: "unat a < 2 ^ 36 \<Longrightarrow> length (octal12 a) = 12"
  using print_digits_length [of "unat a" 8 11 False] by (simp add: octal12_def zero_pad_def)

lemma byte_words_chars:
  "length (byte_words bs) = 3 * length bs" "c \<in> set (byte_words bs) \<Longrightarrow> c \<noteq> CHR 0x00"
  "bs \<noteq> [] \<Longrightarrow> \<exists>w. byte_words bs = w @ [newline] \<and> newline \<notin> set w"
proof -
  have d: "c \<in> set (hex2 b) \<Longrightarrow> 48 \<le> code c" for b c
    using hex2_digits(1) [of b] is_digit_code(1) [of 16 c] by (auto simp: list_all_iff)
  show "length (byte_words bs) = 3 * length bs"
    by (induction bs rule: byte_words.induct) (simp_all add: hex2_length)
  have "c \<in> set (byte_words bs) \<Longrightarrow> 0 < code c" for c
    by (induction bs rule: byte_words.induct) (auto simp: newline_def dest: d)
  then show "c \<in> set (byte_words bs) \<Longrightarrow> c \<noteq> CHR 0x00" by fastforce
  have n: "newline \<notin> set (hex2 b)" for b using d [of newline b] by (auto simp: newline_def)
  show "bs \<noteq> [] \<Longrightarrow> \<exists>w. byte_words bs = w @ [newline] \<and> newline \<notin> set w"
  proof (induction bs rule: byte_words.induct)
    case (3 b b' bs)
    then obtain w where "byte_words (b' # bs) = w @ [newline]" "newline \<notin> set w" by blast
    with n [of b] show ?case
      by (intro exI [of _ "hex2 b @ CHR '' '' # w"]) (simp add: newline_def)
  qed (auto simp: n)
qed

lemma store_bytes_append:
  assumes "length xs + length ys < 2 ^ 64"
  shows "store_bytes (store_bytes m a xs) (a + of_nat (length xs)) ys = store_bytes m a (xs @ ys)"
proof
  fix x
  let ?i = "unat (x - a)" and ?n = "length xs"
  have n: "unat (of_nat ?n :: u64) = ?n" using assms by (simp add: unat_of_nat_u64)
  have j: "unat (x - (a + of_nat ?n)) = (if ?n \<le> ?i then ?i - ?n else ?i + 2 ^ 64 - ?n)"
    unfolding diff_diff_eq [symmetric] unat_sub_if_size n by (simp add: word_size)
  show "store_bytes (store_bytes m a xs) (a + of_nat ?n) ys x = store_bytes m a (xs @ ys) x"
    using assms unfolding store_bytes_def j by (auto simp: nth_append)
qed

lemma fetch_bytes_append:
  "fetch_bytes m a (n + k) = fetch_bytes m a n @ fetch_bytes m (a + of_nat n) k"
  by (rule nth_equalityI) (auto simp: nth_append add.assoc simp flip: of_nat_add)

lemma store_bytes_nil [simp]: "store_bytes m a [] = m"
  by (simp add: store_bytes_def)

lemma small_address:
  assumes "unat a + n \<le> unat (riscv_mem_size f)" "riscv_mem_size f \<le> MEMORY_MAX_SIZE"
  shows "unat a + n \<le> 33554432"
  using assms by (simp add: fw_defs word_le_nat_alt)

lemma fgets_dump_line:
  assumes "bs \<noteq> []" "length bs \<le> 16" "unat a < 2 ^ 36"
  shows "fgets 4095 (dump_line a bs @ r) = Some (dump_line a bs, r)"
proof -
  obtain w where w: "byte_words bs = w @ [newline]" "newline \<notin> set w"
    using byte_words_chars(3) [OF assms(1)] by blast
  let ?l = "octal12 a @ CHR '' '' # w"
  have "newline \<notin> set (octal12 a)"
    using digits_no_sep [OF octal12_digits(1), of file_sep] file_sep_codes by auto
  with w have "newline \<notin> set ?l" by (simp add: newline_def)
  moreover have "length ?l < 4094"
    using arg_cong [OF w(1), of length] byte_words_chars(1) [of bs] assms octal12_length [OF assms(3)]
    by simp
  moreover have "dump_line a bs = ?l @ [newline]" using w assms(1) by (simp add: dump_line_words)
  ultimately show ?thesis using fgets_line_newline [of ?l 4094 r] by (simp add: fgets_def)
qed

lemma c_string_dump_line:
  assumes "bs \<noteq> []"
  shows "c_string (dump_line a bs) = dump_line a bs"
proof -
  have "c \<in> set (octal12 a) \<Longrightarrow> c \<noteq> CHR 0x00" for c
    using octal12_digits(1) [of a] is_digit_code(1) [of 8 c] by (auto simp: list_all_iff)
  with byte_words_chars(2) [of _ bs] assms show ?thesis
    unfolding c_string_def takeWhile_eq_all_conv by (auto simp: dump_line_words)
qed

lemma load_line_dump_line:
  assumes "bs \<noteq> []" "length bs \<le> 16" "unat a + length bs \<le> unat (riscv_mem_size f)"
    and "riscv_mem_size f \<le> MEMORY_MAX_SIZE"
  shows "load_line fn n f 0 (dump_line a bs) =
    Inr (None, f\<lparr>riscv_mem := store_bytes (riscv_mem f) a bs\<rparr>)"
proof -
  have small: "unat a + length bs \<le> 33554432" by (rule small_address [OF assms(3,4)])
  have tok: "strtok file_sep (dump_line a bs) = Some (octal12 a, byte_words bs)"
    using strtok_word [of "octal12 a" file_sep "CHR '' ''" "[]" "byte_words bs"] octal12_digits
      digits_no_sep [OF octal12_digits(1), of file_sep] file_sep_codes assms(1)
    by (simp add: dump_line_words)
  have len: "unat (of_nat (length bs) :: u64) = length bs" using assms(2) by (simp add: unat_of_nat_u64)
  then have blk: "in_block f a (of_nat (length bs))" using assms(3) by (simp add: in_block_def)
  have "strtol 8 (octal12 a) = a" using small by (intro strtol_octal12) simp
  moreover have "load_bytes (byte_words bs) [] = Inr (Some bs)" using load_bytes_words [of "[]" bs] assms(2) by simp
  moreover have "memory_load f bs a (of_nat (length bs)) =
      Inr (True, f\<lparr>riscv_mem := store_bytes (riscv_mem f) a bs\<rparr>)"
    using in_block_le [OF blk] blk len by (simp add: memory_load_def leD)
  ultimately show ?thesis
    using tok assms(1) verify_digits [OF octal12_digits(1)]
    by (simp add: load_line_def c_string_dump_line)
qed

lemma load_hex_dump_text:
  "unat a + n \<le> unat (riscv_mem_size f) \<Longrightarrow> riscv_mem_size f \<le> MEMORY_MAX_SIZE \<Longrightarrow>
   load_hex fn k f 0 (dump_text m a n) =
     Inr (None, f\<lparr>riscv_mem := store_bytes (riscv_mem f) a (fetch_bytes m a n)\<rparr>, [])"
proof (induction m a n arbitrary: f k rule: dump_text.induct)
  case (1 m a n)
  have nil: "load_hex fn k f 0 [] = Inr (None, f, [])" for k f
    by (subst load_hex.simps) (simp add: fgets_def)
  show ?case
  proof (cases "n = 0")
    case True
    then show ?thesis by (subst dump_text.simps) (simp add: nil fetch_bytes_def)
  next
    case False
    let ?bs = "fetch_bytes m a (min n 16)"
    let ?g = "f\<lparr>riscv_mem := store_bytes (riscv_mem f) a ?bs\<rparr>"
    have bs: "?bs \<noteq> []" "length ?bs \<le> 16" using False by (simp_all flip: length_greater_0_conv)
    have small: "unat a + n \<le> 33554432" by (rule small_address [OF 1(2,3)])
    have "load_hex fn k f 0 (dump_text m a n) = load_hex fn (k + 1) ?g 0 (dump_text m (a + 16) (n - 16))"
      using False small bs 1(2,3)
      by (subst load_hex.simps, subst dump_text.simps)
        (simp add: fgets_dump_line load_line_dump_line)
    also have "\<dots> = Inr (None, f\<lparr>riscv_mem := store_bytes (riscv_mem f) a (fetch_bytes m a n)\<rparr>, [])"
    proof (cases "n \<le> 16")
      case True
      then show ?thesis by (subst dump_text.simps) (simp add: nil min_def)
    next
      case n: False
      have "unat (a + 16) = unat a + 16" using small n by (simp add: unat_word_ariths)
      with n 1(2,3) have "load_hex fn (k + 1) ?g 0 (dump_text m (a + 16) (n - 16)) =
          Inr (None, ?g\<lparr>riscv_mem := store_bytes (riscv_mem ?g) (a + 16) (fetch_bytes m (a + 16) (n - 16))\<rparr>, [])"
        by (intro 1(1)) auto
      moreover have "store_bytes (riscv_mem ?g) (a + 16) (fetch_bytes m (a + 16) (n - 16)) =
          store_bytes (riscv_mem f) a (fetch_bytes m a n)"
        using n small store_bytes_append [of ?bs "fetch_bytes m (a + 16) (n - 16)" "riscv_mem f" a]
          fetch_bytes_append [of m a 16 "n - 16"] by simp
      ultimately show ?thesis by simp
    qed
    finally show ?thesis .
  qed
qed

lemma dump_hex_text:
  assumes "in_block f addr len" "riscv_mem_size f \<le> MEMORY_MAX_SIZE"
  shows "16 \<le> length buf \<Longrightarrow> unat len - unat k0 \<le> 16 * k \<Longrightarrow> unat k0 \<le> unat len + 16 \<Longrightarrow>
    \<exists>buf'. dump_hex k f addr len k0 buf out =
      Inr (out @ dump_text (riscv_mem f) (addr + k0) (unat len - unat k0), buf')"
proof (induction k arbitrary: k0 buf out)
  case 0
  then have "\<not> k0 < len" by (simp add: word_less_nat_alt)
  with 0 show ?case by (subst dump_hex.simps, subst dump_text.simps) simp
next
  case (Suc k)
  have small: "unat addr + unat len \<le> 33554432"
    using assms by (intro small_address [of addr "unat len" f]) (simp_all add: in_block_def)
  show ?case
  proof (cases "k0 < len")
    case False
    then show ?thesis by (subst dump_hex.simps, subst dump_text.simps) (simp add: word_less_nat_alt)
  next
    case True
    let ?rem = "unat len - unat k0" and ?act = "if len - k0 < 16 then len - k0 else 16 :: u64"
    have lt: "unat k0 < unat len" using True by (simp add: word_less_nat_alt)
    have rem: "unat (len - k0) = ?rem" using lt by (simp add: unat_sub_if_size)
    have act: "unat ?act = min ?rem 16" using rem by (simp add: word_less_nat_alt min_def)
    have add: "unat (addr + k0) = unat addr + unat k0" using small lt by (simp add: unat_word_ariths)
    have blk: "in_block f (addr + k0) ?act"
      using assms(1) lt unfolding in_block_def add act by simp
    let ?bs = "fetch_bytes (riscv_mem f) (addr + k0) (min ?rem 16)"
    have dump: "memory_dump f (Some buf) (addr + k0) ?act = Inr (True, Some (?bs @ drop (min ?rem 16) buf))"
      using in_block_le [OF blk] blk Suc.prems(1) act by (simp add: memory_dump_def leD buf_put_ok)
    have next16: "unat (k0 + 16) = unat k0 + 16" using small lt by (simp add: unat_word_ariths)
    have "dump_hex (Suc k) f addr len k0 buf out =
        dump_hex k f addr len (k0 + 16) (?bs @ drop (min ?rem 16) buf) (out @ dump_line (addr + k0) ?bs)"
      using True dump act by (subst dump_hex.simps) (simp add: Let_def)
    moreover have "\<exists>buf'. dump_hex k f addr len (k0 + 16) (?bs @ drop (min ?rem 16) buf)
        (out @ dump_line (addr + k0) ?bs) =
      Inr ((out @ dump_line (addr + k0) ?bs) @
        dump_text (riscv_mem f) (addr + (k0 + 16)) (unat len - unat (k0 + 16)), buf')"
      using Suc.prems lt next16 by (intro Suc.IH) auto
    ultimately show ?thesis
      using lt next16 by (subst dump_text.simps) (simp add: add.assoc)
  qed
qed

text \<open>
  Property C18: dumps are loaded back. A \<open>dump /x\<close> of any range of memory succeeds, and loading the
  file it wrote at address 0, into this or any other machine, copies exactly the dumped bytes to
  the dumped addresses and leaves every other byte alone.
\<close>
theorem dump_load_roundtrip:
  assumes "console_inv c" "unat a + unat n \<le> unat memory_size" "may_create c name"
  shows "\<exists>d. dump_data_to_file c (Some name) True a n = Inr (True, d) \<and>
    sim_machine d = sim_machine c \<and>
    (\<forall>e. console_inv e \<and> files e name = files d name \<longrightarrow>
      (\<exists>e'. load_data_from_file e (Some name) True 0 = Inr (True, e') \<and>
        riscv_mem (cfw e') =
          store_bytes (riscv_mem (cfw e)) a (fetch_bytes (riscv_mem (cfw c)) a (unat n))))"
proof -
  have max: "riscv_mem_size (cfw e) \<le> MEMORY_MAX_SIZE" "unat a + unat n \<le> unat (riscv_mem_size (cfw e))"
    if "console_inv e" for e
    using console_inv_wf [OF that] assms(2) by (auto simp: wf_framework_def)
  have blk: "in_block (cfw c) a n" using max(2) [OF assms(1)] by (simp add: in_block_def)
  have buf: "16 \<le> length (dump_buf c)" using assms(1) by (simp add: console_inv_def)
  let ?t = "dump_text (riscv_mem (cfw c)) a (unat n)"
  have "unat n \<le> 16 + 16 * (unat n div 16)" by presburger
  then obtain buf' where "dump_hex (Suc (unat n div 16)) (cfw c) a n 0 (dump_buf c) [] = Inr (?t, buf')"
    using dump_hex_text [OF blk max(1) [OF assms(1)] buf, of 0 "Suc (unat n div 16)" "[]"] by auto
  then obtain d where d: "dump_data_to_file c (Some name) True a n = Inr (True, d)"
    and "files d name = Some ?t"
    using assms(3) by (simp add: dump_data_to_file_def Let_def log_message_def)
  moreover have "\<exists>e'. load_data_from_file e (Some name) True 0 = Inr (True, e') \<and> riscv_mem (cfw e') =
      store_bytes (riscv_mem (cfw e)) a (fetch_bytes (riscv_mem (cfw c)) a (unat n))"
    if "console_inv e" "files e name = Some ?t" for e
    using that load_hex_dump_text [OF max(2) [OF that(1)] max(1) [OF that(1)], of "Some name" 0]
    by (simp add: load_data_from_file_def Let_def)
  ultimately show ?thesis using dump_data_frame [OF d] by auto
qed

lemma memory_dump_no_wrap:
  assumes "unat b + unat n < 2 ^ 64" "unat n \<le> length buf"
  shows "\<exists>d buf'. memory_dump f (Some buf) b n = Inr (d, Some buf') \<and> length buf' = length buf"
proof -
  have "unat (b + n) = unat b + unat n" using assms(1) by (simp add: unat_word_ariths)
  then have "\<not> b + n > riscv_mem_size f \<Longrightarrow> in_block f b n"
    by (simp add: in_block_def word_less_nat_alt)
  with assms(2) show ?thesis by (auto simp: memory_dump_def buf_put_ok)
qed

lemma memory_dump_wrap:
  assumes "2 ^ 64 \<le> unat b + unat n" "unat n \<le> unat (riscv_mem_size f)"
  shows "memory_dump f r b n = Inl OutOfBounds"
proof -
  have lt: "unat b < 2 ^ 64" "unat n < 2 ^ 64" "unat (riscv_mem_size f) < 2 ^ 64" by simp_all
  then have "unat b + unat n - 2 ^ 64 < 2 ^ 64" by linarith
  with assms(1) have "unat (b + n) = unat b + unat n - 2 ^ 64"
    by (simp add: unat_word_ariths le_mod_geq)
  with assms(2) lt(1) have "unat (b + n) \<le> unat (riscv_mem_size f)" by linarith
  then have "\<not> b + n > riscv_mem_size f" by (simp add: word_less_nat_alt)
  moreover have "\<not> unat b + unat n \<le> unat (riscv_mem_size f)" using assms(1) lt(3) by linarith
  ultimately show ?thesis by (simp add: memory_dump_def in_block_def)
qed

lemma dump_hex_wrap:
  assumes "unat len \<le> 2 ^ 63" "2 ^ 64 \<le> unat addr + unat len" "16 \<le> unat (riscv_mem_size f)"
  shows "16 \<le> length buf \<Longrightarrow> unat len - unat k0 \<le> 16 * k \<Longrightarrow> unat k0 < unat len \<Longrightarrow>
    unat addr + unat k0 < 2 ^ 64 \<Longrightarrow> dump_hex k f addr len k0 buf out = Inl OutOfBounds"
proof (induction k arbitrary: k0 buf out)
  case 0
  then show ?case by simp
next
  case (Suc k)
  let ?rem = "unat len - unat k0" and ?act = "if len - k0 < 16 then len - k0 else 16 :: u64"
  have lt: "k0 < len" using Suc.prems(3) by (simp add: word_less_nat_alt)
  have rem: "unat (len - k0) = ?rem" using Suc.prems(3) by (simp add: unat_sub_if_size)
  have act: "unat ?act = min ?rem 16" using rem by (simp add: word_less_nat_alt min_def)
  have add: "unat (addr + k0) = unat addr + unat k0" using Suc.prems(4) by (simp add: unat_word_ariths)
  show ?case
  proof (cases "2 ^ 64 \<le> unat (addr + k0) + unat ?act")
    case True
    then have "memory_dump f (Some buf) (addr + k0) ?act = Inl OutOfBounds"
      using assms(3) act by (intro memory_dump_wrap) simp_all
    with lt show ?thesis by (subst dump_hex.simps) (simp add: Let_def)
  next
    case False
    have more: "unat k0 + 16 < unat len"
      using False assms(2) Suc.prems(3) unfolding add act by (simp add: min_def split: if_splits)
    then have act16: "?act = 16" unfolding word_less_nat_alt rem by (intro if_not_P) simp
    obtain d buf' where dump: "memory_dump f (Some buf) (addr + k0) ?act = Inr (d, Some buf')"
      and len: "length buf' = length buf"
      using memory_dump_no_wrap [of "addr + k0" ?act buf f] False Suc.prems(1) unfolding act16 by auto
    have "unat k0 + 16 < 2 ^ 64" using more assms(1) by simp
    then have next16: "unat (k0 + 16) = unat k0 + 16" by (simp add: unat_word_ariths)
    have "dump_hex k f addr len (k0 + 16) buf' out' = Inl OutOfBounds" for out'
      using Suc.prems more next16 len False act16 unfolding add
      by (intro Suc.IH) (simp_all add: next16)
    with lt dump act16 show ?thesis by (subst dump_hex.simps) (simp add: Let_def)
  qed
qed

lemma dump_data_hex:
  assumes "filename = None \<or> may_create c (the filename)"
    and h: "dump_hex (Suc (unat n div 16)) (cfw c) a n 0 (dump_buf c) [] = h"
  shows "h = Inl e \<Longrightarrow> dump_data_to_file c filename True a n = Inl e"
    and "h = Inr tb \<Longrightarrow> \<exists>d. dump_data_to_file c filename True a n = Inr (True, d)"
proof -
  have sel: "\<not> (case filename of None \<Rightarrow> False | Some name \<Rightarrow> \<not> may_create c name)"
    using assms(1) by (cases filename) auto
  have eq: "cfw (case filename of None \<Rightarrow> c | Some name \<Rightarrow> c\<lparr>files := (files c)(name \<mapsto> [])\<rparr>) = cfw c"
    "dump_buf (case filename of None \<Rightarrow> c | Some name \<Rightarrow> c\<lparr>files := (files c)(name \<mapsto> [])\<rparr>) = dump_buf c"
    by (cases filename; simp)+
  show "h = Inl e \<Longrightarrow> dump_data_to_file c filename True a n = Inl e"
    and "h = Inr tb \<Longrightarrow> \<exists>d. dump_data_to_file c filename True a n = Inr (True, d)"
    using sel h by (simp_all add: dump_data_to_file_def Let_def eq split: prod.splits)
qed

text \<open>
  Property C20: which dumps fault. The range test of the \<open>dump\<close> command adds in 64 bits, as does that
  of \<open>memory_dump\<close>. Of the ranges that pass it, the hexadecimal dump reads outside the memory
  block exactly for those that reach the top of the address space (for example \<open>dump /x -1 1\<close>).
\<close>
theorem dump_fault_iff:
  assumes "console_inv c" "a + n \<le> memory_size" "n \<le> memory_size"
    and "filename = None \<or> may_create c (the filename)"
  shows "(dump_data_to_file c filename True a n = Inl OutOfBounds \<longleftrightarrow> 2 ^ 64 \<le> unat a + unat n) \<and>
    (2 ^ 64 \<le> unat a + unat n \<or> (\<exists>d. dump_data_to_file c filename True a n = Inr (True, d)))"
proof -
  note inv = console_inv_wf [OF assms(1)]
  have buf: "16 \<le> length (dump_buf c)" using assms(1) by (simp add: console_inv_def)
  have n: "unat n \<le> 8388608" using assms(3) by (simp add: memory_size_def word_le_nat_alt)
  have fuel: "unat n \<le> 16 + 16 * (unat n div 16)" by presburger
  let ?h = "dump_hex (Suc (unat n div 16)) (cfw c) a n 0 (dump_buf c) []"
  have wrap: "?h = Inl OutOfBounds" if "2 ^ 64 \<le> unat a + unat n"
  proof (rule dump_hex_wrap)
    have "unat a < 2 ^ 64" by simp
    with that have "0 < unat n" by linarith
    then show "unat (0 :: u64) < unat n" by simp
    show "unat a + unat (0 :: u64) < 2 ^ 64" by simp
  qed (use that n buf inv fuel in \<open>auto simp: memory_size_def\<close>)
  have fine: "\<exists>t b. ?h = Inr (t, b)" if "\<not> 2 ^ 64 \<le> unat a + unat n"
  proof -
    have "unat (a + n) = unat a + unat n" using that by (simp add: unat_word_ariths)
    with assms(2) inv have "in_block (cfw c) a n" by (simp add: in_block_def word_le_nat_alt)
    from dump_hex_text [OF this _ buf, of 0 "Suc (unat n div 16)" "[]"] inv fuel show ?thesis
      by (auto simp: wf_framework_def)
  qed
  show ?thesis
  proof (cases "2 ^ 64 \<le> unat a + unat n")
    case True
    with dump_data_hex(1) [OF assms(4) wrap] show ?thesis by simp
  next
    case False
    from fine [OF this] obtain t b where "?h = Inr (t, b)" by blast
    with dump_data_hex(2) [OF assms(4) this] False show ?thesis by auto
  qed
qed

section \<open>The whole program\<close>

lemma command_file_run:
  "command_file_loop inp c = Inr d \<Longrightarrow> \<exists>ls. run_steps line_step ls c = Inr d"
proof (induction inp c rule: command_file_loop.induct)
  case (1 inp c)
  show ?case
  proof (cases "fgets 1023 inp")
    case None
    with 1(2) show ?thesis by (subst (asm) command_file_loop.simps) (auto intro: exI [of _ "[]"])
  next
    case (Some lr)
    obtain l r where lr: "lr = (l, r)" by (cases lr)
    with 1(2) Some obtain go c1 where x: "execute_line c l = Inr (go, c1)"
      and "if go then command_file_loop r c1 = Inr d else c1 = d"
      by (subst (asm) command_file_loop.simps) (auto split: sum.splits if_splits)
    with 1(1) [OF Some lr [symmetric] x refl] have "\<exists>ls. run_steps line_step ls c1 = Inr d"
      by (cases go) (auto intro: exI [of _ "[]"])
    then obtain ls where "run_steps line_step ls c1 = Inr d" by blast
    with x show ?thesis by (intro exI [of _ "l # ls"]) (simp add: line_step_def [of l])
  qed
qed

lemma readline_inv: "readline p c = (l, d) \<Longrightarrow> console_inv c \<Longrightarrow> console_inv d"
  by (auto simp: readline_def Let_def split: option.splits)

lemma interactive_inv:
  "console_inv c \<Longrightarrow> interactive_loop c = Inr d \<Longrightarrow> console_inv d"
proof (induction c rule: interactive_loop.induct)
  case (1 c)
  obtain l e where rd: "readline (''RISCV (PC=0x'' @ llx (get_pc (cfw c)) @ '')> '') c = (l, e)"
    by fastforce
  have e: "console_inv e" using readline_inv [OF rd 1(2)] .
  show ?case
  proof (cases l)
    case None
    with 1(3) e rd show ?thesis by (subst (asm) interactive_loop.simps) auto
  next
    case (Some line)
    with 1(3) rd obtain go c1 where x: "execute_line e line = Inr (go, c1)"
      and rest: "if go then interactive_loop c1 = Inr d else c1 = d"
      by (subst (asm) interactive_loop.simps) (auto split: sum.splits if_splits)
    from execute_line_inv [OF e x] have c1: "console_inv c1" .
    show ?thesis
    proof (cases go)
      case True
      with 1(1) [OF rd [symmetric] Some x refl True c1] rest show ?thesis by simp
    qed (use rest c1 in simp)
  qed
qed

lemma main_options_frame:
  "main_options opts c fp u = Inr (d, fp', u') \<Longrightarrow> wf_framework (cfw c) \<Longrightarrow>
   wf_framework (cfw d) \<and> (\<exists>g. sim_machine d = (sim_machine c)\<lparr>fw := g\<rparr>) \<and> dump_buf d = dump_buf c"
proof (induction opts c fp u rule: main_options.induct)
  case (1 c fp u)
  then show ?case by (auto intro: exI [of _ "cfw c"])
next
  case (2 ch optarg opts c fp u)
  have wf: "wf_framework ((cfw c)\<lparr>memory_read_latency := x\<rparr>)" "wf_framework ((cfw c)\<lparr>memory_write_latency := x\<rparr>)" for x
    using 2(6) by (simp_all add: wf_framework_def)
  from 2(5) show ?case
    using 2(1-4,6) wf by (auto split: if_splits option.splits)
qed

lemma static_machine_inv: "machine_inv (static_machine alloc junk)"
  by (simp add: machine_inv_def static_machine_def wf_framework_def boot_framework_def fw_defs
      tlb_inv_empty wf_empty_branch_table)

lemma memory_initialize_wf:
  "memory_initialize f memory_size = Inr g \<Longrightarrow> wf_framework f \<Longrightarrow>
   wf_framework g \<and> riscv_mem_size g = memory_size"
  by (auto simp: memory_initialize_def wf_framework_def memory_size_def fw_defs split: if_splits)

text \<open>
  Property C17: the program. Started with zeroed static variables, with whatever options, files,
  typed or scripted commands and uninitialised variables, \<open>main\<close> either ends in a fault or in a
  state where the machine invariant holds and the memory still has its 8 MB.
\<close>
theorem main_keeps_invariant:
  assumes "sim_machine c = static_machine alloc junk" "length (dump_buf c) = 4096"
    and "main c opts = Inr d"
  shows "machine_inv (sim_machine d) \<and> riscv_mem_size (cfw d) = memory_size"
proof -
  from assms(3) obtain c1 fp u f where o: "main_options opts c None False = Inr (c1, fp, u)"
    and f: "memory_initialize (cfw c1) memory_size = Inr f"
    by (auto simp: main_def split: sum.splits)
  define c3 where "c3 = (put_fw f c1)\<lparr>sim_machine := initialize_state (sim_machine (put_fw f c1))\<rparr>"
  have inv: "machine_inv (sim_machine c)" using assms(1) by (simp add: static_machine_inv)
  with main_options_frame [OF o] have opt: "wf_framework (cfw c1)" "dump_buf c1 = dump_buf c"
    "machine_inv (sim_machine c1)"
    by (auto simp: machine_inv_def)
  from memory_initialize_wf [OF f opt(1)] opt(3) have "machine_inv (sim_machine (put_fw f c1))"
    "riscv_mem_size f = memory_size"
    by (simp_all add: machine_inv_def)
  with initialize_state_inv [OF this(1)] assms(2) opt(2) have c3: "console_inv c3"
    by (simp add: console_inv_def c3_def)
  from assms(3) o f have "if u then c3 = d
      else (case fp of None \<Rightarrow> interactive_loop c3 = Inr d | Some t \<Rightarrow> command_file_loop t c3 = Inr d)"
    by (auto simp: main_def c3_def Let_def split: option.splits if_splits)
  with c3 have "console_inv d"
    by (auto split: if_splits option.splits intro: interactive_inv interpreter.run_inv
        dest!: command_file_run)
  then show ?thesis by (simp add: console_inv_def)
qed

section \<open>Witnesses\<close>

text \<open>A process with zeroed static variables and a command file that writes a register.\<close>

definition demo_console :: console where
  "demo_console =
     \<lparr>sim_machine = static_machine (\<lambda>_. True) (\<lambda>_ _. 0),
      files = [''cmds'' \<mapsto> ''writereg 1 7'' @ [newline]],
      stdin_text = [], stdout_text = [], fd3_text = [], stderr_log = [],
      dump_buf = replicate 4096 0, may_create = (\<lambda>_. True), junk_locals = (\<lambda>_. zero_locals),
      junk_offset = (\<lambda>_. 0), commands = 0\<rparr>"

lemma demo_writereg:
  "execute_line c (''writereg 1 7'' @ [newline]) =
     Inr (True, put_fw ((cfw c)\<lparr>register_file := (register_file (cfw c))[1 := 7]\<rparr>)
       (c\<lparr>commands := commands c + 1\<rparr>))"
proof -
  have t: "strtok cmdsep (c_string (''writereg 1 7'' @ [newline])) = Some (''writereg'', ''1 7'' @ [newline])"
    "strtok cmdsep (''1 7'' @ [newline]) = Some (''1'', ''7'' @ [newline])"
    "strtok cmdsep (''7'' @ [newline]) = Some (''7'', [])"
    by code_simp+
  have n: "strtoul 0 ''1'' = 1" "strtol 0 ''7'' = 7"
    by (simp_all add: strtoul_def strtol_def strto_parts_def isspace_def digit_value_def)
  have "take (SIM_MAX_LINE - 1) (c_string (''writereg 1 7'' @ [newline])) = c_string (''writereg 1 7'' @ [newline])"
    by (simp add: SIM_MAX_LINE_def c_string_def newline_def)
  moreover have "\<not> strcaseeq ''load'' ''writereg''" "\<not> strcaseeq ''test_dump_reg'' ''writereg''"
    "\<not> strcaseeq ''debug_dump_reg'' ''writereg''" "\<not> strcaseeq ''dump'' ''writereg''"
    "\<not> strcaseeq ''readreg'' ''writereg''" "strcaseeq ''writereg'' ''writereg''" by code_simp+
  moreover have "\<not> (32 :: u64) \<le> 1" by (simp add: word_le_nat_alt)
  ultimately show ?thesis
    using t n by (simp add: execute_line_def cmd_writereg_def RISCV_NUM_REGISTERS_def put_fw_def Let_def)
qed

lemma demo_main:
  "\<exists>d. main demo_console [(CHR ''f'', ''cmds'')] = Inr d \<and> register_file (cfw d) ! 1 = 7"
proof -
  have f: "fgets 1023 (''writereg 1 7'' @ [newline]) = Some (''writereg 1 7'' @ [newline], [])"
    using fgets_line_newline [of "''writereg 1 7''" 1022 "[]"] by (simp add: fgets_def newline_def)
  have "memory_initialize (cfw demo_console) memory_size =
      Inr ((cfw demo_console)\<lparr>riscv_mem := (\<lambda>_. 0), riscv_mem_size := memory_size\<rparr>)"
    by (simp add: memory_initialize_def demo_console_def static_machine_def memory_size_def fw_defs
        boot_framework_def)
  then show ?thesis
    using f demo_writereg
    by (simp add: main_def demo_console_def Let_def command_file_loop.simps [of "_ # _"]
        command_file_loop.simps [of "[]"] fgets_def [of _ "[]"] initialize_state_def
        memory_initialize_pending_def set_pc_def static_machine_def boot_framework_def)
qed

theorem main_keeps_invariant_witness:
  "\<exists>d. main demo_console [(CHR ''f'', ''cmds'')] = Inr d \<and> register_file (cfw d) ! 1 = 7 \<and>
    machine_inv (sim_machine d) \<and> riscv_mem_size (cfw d) = memory_size"
proof -
  obtain d where d: "main demo_console [(CHR ''f'', ''cmds'')] = Inr d" "register_file (cfw d) ! 1 = 7"
    using demo_main by blast
  have "sim_machine demo_console = static_machine (\<lambda>_. True) (\<lambda>_ _. 0)" "length (dump_buf demo_console) = 4096"
    by (simp_all add: demo_console_def)
  from main_keeps_invariant [OF this d(1)] d show ?thesis by blast
qed

definition ready_console :: console where
  "ready_console = demo_console\<lparr>sim_machine := boot_machine\<rparr>"

lemma ready_console_inv: "console_inv ready_console"
  using boot_machine_inv
  by (simp add: console_inv_def ready_console_def demo_console_def boot_machine_def boot_framework_def
      memory_size_def)

theorem hex_load_safe_witness:
  "\<exists>d. cmd_load ready_console ''/x 0x10 cmds'' = Inr d \<and> console_inv d \<and>
    sim_machine d = (sim_machine ready_console)\<lparr>fw := (cfw ready_console)\<lparr>riscv_mem := riscv_mem (cfw d)\<rparr>\<rparr>"
proof -
  have "check_for_hex cmdsep ''/x 0x10 cmds'' = (True, Some ''0x10'', ''cmds'')" by code_simp
  from hex_load_safe [OF ready_console_inv this] show ?thesis .
qed

theorem dump_load_roundtrip_witness:
  "\<exists>d. dump_data_to_file ready_console (Some ''out'') True 0x100 20 = Inr (True, d) \<and>
    (\<exists>e'. load_data_from_file (ready_console\<lparr>files := files d\<rparr>) (Some ''out'') True 0 = Inr (True, e') \<and>
      riscv_mem (cfw e') = store_bytes (\<lambda>_. 0) 0x100 (replicate 20 0))"
proof -
  have mem: "riscv_mem (cfw ready_console) = (\<lambda>_. 0)"
    by (simp add: ready_console_def boot_machine_def boot_framework_def)
  have "unat (0x100 :: u64) + unat (20 :: u64) \<le> unat memory_size" "may_create ready_console ''out''"
    by (simp_all add: memory_size_def ready_console_def demo_console_def)
  from dump_load_roundtrip [OF ready_console_inv this]
  obtain d where d: "dump_data_to_file ready_console (Some ''out'') True 0x100 20 = Inr (True, d)"
    and load: "\<And>e. console_inv e \<Longrightarrow> files e ''out'' = files d ''out'' \<Longrightarrow>
      \<exists>e'. load_data_from_file e (Some ''out'') True 0 = Inr (True, e') \<and>
        riscv_mem (cfw e') = store_bytes (riscv_mem (cfw e)) 0x100
          (fetch_bytes (riscv_mem (cfw ready_console)) 0x100 (unat (20 :: u64)))"
    by blast
  have "console_inv (ready_console\<lparr>files := files d\<rparr>)"
    using ready_console_inv by (simp add: console_inv_def)
  from load [OF this] d mem show ?thesis
    by (simp add: fetch_bytes_def map_replicate_const)
qed

theorem dump_fault_iff_witness:
  "dump_data_to_file ready_console None True (- 1) 1 = Inl OutOfBounds \<and>
   (- 1 :: u64) + 1 \<le> memory_size \<and> (1 :: u64) \<le> memory_size"
proof -
  have "(- 1 :: u64) + 1 \<le> memory_size" "(1 :: u64) \<le> memory_size" by (simp_all add: memory_size_def)
  moreover have "unat (- 1 :: u64) = 18446744073709551615"
    by (simp add: unsigned_minus_1_eq_mask mask_eq_exp_minus_1)
  ultimately show ?thesis
    using dump_fault_iff [OF ready_console_inv, of "- 1" 1 None] by simp
qed

end
