(* ===== verification/Spec2Isabelle.thy ===== *)
theory Spec2Isabelle
  imports In_Order Data_Path Single_Step Command_Properties
begin

text \<open>
  A verification of the RISC-V pipeline simulator in \<open>src/src\<close>.

  \<^bold>\<open>The program.\<close> The simulator executes RV64 machine code on a five-stage pipeline. A framework
  (\<open>riscv_sim_framework.c\<close>) owns the memory block, the memory port, the register file, the cycle loop
  and the command line; \<open>riscv_virtualizer.c\<close> holds the instruction handlers and the pipeline stages;
  \<open>cache.c\<close>, \<open>TLB.c\<close> and \<open>branch_predictor.c\<close> are the units the stages call; \<open>riscv.h\<close> and
  \<open>riscv_pipeline_registers.h\<close> define instruction formats and the registers between the stages. A
  cycle runs the stages from last to first on the current pipeline registers and then copies the new
  registers over them. Fetch and memory translate addresses through a TLB, read and write through a
  cache, and both of these go to the one memory port, which serves one access per stage and cycle.

  \<^bold>\<open>The theories\<close>, in the order of their dependencies.

  \<^item> \<open>Prelude\<close>: C integers as words, faults and results, byte buffers, C arithmetic with its
    undefined cases, runs of steps, and the locales \<open>run_invariant\<close> (an invariant every step keeps
    holds after every run) and \<open>lookaside\<close> (tables with one place per slot).
  \<^item> \<open>Framework_Memory\<close> (\<open>riscv_sim_framework.c\<close>): the static variables as the record \<open>framework\<close>,
    the memory block, \<open>memory_read\<close>, \<open>memory_write\<close>, \<open>memory_status\<close> and the pending accesses. The
    locale \<open>byte_store\<close> is what its users need of the block. Shown: round trip, frame, one access per
    stage, service of a read with latency, and exactly which reads leave the block.
  \<^item> \<open>Register_File\<close> (\<open>riscv_sim_framework.c\<close>): the register file, behind the locale \<open>register_bank\<close>.
  \<^item> \<open>Branch_Predictor\<close> (\<open>branch_predictor.c\<close>): the branch table; its counters refine a saturating
    two-bit counter, predictions are never invented, and what an update teaches.
  \<^item> \<open>Riscv_Instruction\<close> (\<open>riscv.h\<close>, \<open>riscv_pipeline_registers.h\<close>): the bit-field views of an
    instruction word and the pipeline registers.
  \<^item> \<open>Riscv_Handlers\<close> (\<open>riscv_virtualizer.c\<close>): every instruction handler and dispatcher, in the
    context of the instruction in execute; \<open>Handler_Correctness\<close> compares them with the instruction
    set: branches, jumps, loads, stores, arithmetic, and what no instruction can do.
  \<^item> \<open>TLB\<close> (\<open>TLB.c\<close>): lookups and the two-step page walk, against the translation the page tables
    define; an interpretation of \<open>lookaside\<close>. The specification counts table entries and pages, apart
    from the shifts and masks of the code, and follows the code in the second-level index, where the
    design document differs.
  \<^item> \<open>Allocation\<close> (\<open>mem.c\<close>): the checked allocation wrappers, behind the locale \<open>checked_allocation\<close>.
  \<^item> \<open>Cache\<close> (\<open>cache.c\<close>, \<open>cache.h\<close>): both caches. The instruction cache is an
    interpretation of \<open>lookaside\<close>; the data cache is related to a flat memory by \<open>view\<close>, which reads
    and writes refine under stated conditions; the remaining theorems say what happens outside them.
  \<^item> \<open>Pipeline\<close> (\<open>riscv_virtualizer.c\<close>): the record \<open>machine\<close>, forwarding and the five stages; the
    machine invariant (shape of caches and TLBs, branch counters in range, accesses in the memory and
    write-back registers well formed), the operands decode delivers, the value of a load.
  \<^item> \<open>Simulator\<close> (\<open>riscv_sim_framework.c\<close>): the cycle and the loop; runs keep the invariant, count their
    cycles and stop at the first \<open>EBREAK\<close>.
    \<open>Single_Step\<close>: the loop of a build with \<open>SIM_NO_PIPELINE\<close> and its refinement of the architecture
    that its argument, the function executing one instruction, implements.
  \<^item> \<open>Alu_Correctness\<close>: 32-bit arithmetic, and all arithmetic instructions against one function of the
    instruction set, \<open>isa_alu\<close>, on the operands \<open>alu_agrees\<close>.
  \<^item> \<open>Hazards\<close>: across cycles, the operands an instruction leaves decode with and the way of its result
    to the register file. \<open>Control_Flow\<close>: the address of every fetch, mispredictions, flushes,
    fetches that wait for the TLB, and restarted accesses. \<open>Data_Path\<close>: a load and a store from decode through translation and data cache
    to the register file or the memory that the cache stands for.
  \<^item> \<open>In_Order\<close>: the machine \<open>isa_step\<close> of the instruction set on registers and program counter; the
    order in which results retire, and the path of the program through fetch, decode and execute.
  \<^item> \<open>C_Library\<close>: what the command line uses of the C library (\<open>strtok_r\<close>, \<open>strtol\<close>, \<open>fgets\<close>,
    number formats); \<open>Command_Line\<close> (\<open>riscv_sim_framework.c\<close>): loading, dumping, the commands and
    \<open>main\<close>; \<open>Command_Properties\<close>: the loader cannot fault, a dump is loaded back, which dumps leave
    the block, and the whole program keeps the invariant.
  \<^item> This theory: the pipeline refines the sequential machine of the instruction set, and the way of
    one arithmetic instruction from decode to the register file.

  \<^bold>\<open>Conventions.\<close> State is passed explicitly. A function that can end the process (\<open>exit(1)\<close>) or whose
  behaviour C leaves undefined returns a \<open>result\<close>, \<open>Inl\<close> a fault. Machine integers keep their width.
  Uninitialised variables are arguments or environment fields, so the theorems hold for all their
  contents. Output is recorded: illegal instructions in \<open>printed\<close>, the text of commands in
  \<open>stdout_text\<close>, messages in \<open>stderr_log\<close>; the interleaving of these is not modelled.

  \<^bold>\<open>Bounds.\<close> Loops are structural recursions or have a termination proof. \<open>run_cycles\<close> counts the steps
  of the run, at most the argument of the loop. \<open>dump_hex\<close> is given one line for every 16 bytes and
  one more; the proofs show that this is enough for every length the command line passes, and a loop
  that needs more has wrapped its counter and never ends (\<open>Diverges\<close>).

  \<^bold>\<open>Not modelled.\<close> \<open>execute_single_instruction\<close>, which the loop under \<open>SIM_NO_PIPELINE\<close> calls and no
  file of the repository defines: it is an argument of the model. The build variants without
  \<open>WRITEBACK\<close> and \<open>TWOWAY\<close>, which \<open>cache.h\<close> selects; the empty unit tests; \<open>getopt\<close>, represented by
  the sequence of its results; the text of the usage message, which ends the program; the line editor
  used when \<open>HAS_READLINE\<close> is defined. The refinement theorem is about arithmetic instructions, jumps and
  branches; loads and stores have their own theorems, because their stalls replay instructions.
\<close>

section \<open>Instructions through the pipeline\<close>

text \<open>
  Property C1: the pipeline refines the instruction set. Take consecutive cycles of the simulator in
  which no memory access stalls, that start with nothing in execute and with fetch where the
  instruction in decode was predicted to go. Let the instructions that take effect in the execute
  stage of the first \<open>n\<close> cycles be jumps, branches and arithmetic instructions on operands the
  handlers are right for (\<open>in_domain\<close>: in particular \<open>add\<close>, \<open>xor\<close> and \<open>srl\<close> only on 32-bit operands, no
  \<open>auipc\<close>, \<open>mulh\<close>, \<open>mulhsu\<close> or \<open>mulhu\<close>, no \<open>jalr\<close> to an odd address, and only branches whose
  displacement the code decodes); some may be flushed, decode may wait for operands and fetch for the cache,
  but no zero word is executed, no result other than zero goes to register 0, and decode has no
  hazard in a cycle with a misprediction. Then the register file two cycles later and the address of
  the next instruction to take effect are what the sequential machine of the instruction set computes
  from the registers and the address at the start by executing exactly these instructions, one after
  the other: every instruction has seen the results of all before it, and follows the one before it
  in the program whatever the branch predictor said.
\<close>
theorem pipeline_refines_isa:
  assumes "quiet_run S L n" "\<forall>i < n. in_domain S i"
    and "on_path (S 0)" "\<forall>i < n. orderly (S i) (S (Suc i))"
  shows "(register_file (fw (S (n + 2))), next_address (S n)) =
    foldl isa_step (register_file (fw (S 2)), next_address (S 0)) (executed S n)"
proof -
  have "on_path (S m) \<and> (register_file (fw (S (m + 2))), next_address (S m)) =
      foldl isa_step (register_file (fw (S 2)), next_address (S 0)) (executed S m)" if "m \<le> n" for m
    using that
  proof (induction m)
    case 0
    then show ?case using assms(3) by (simp add: executed_def numeral_2_eq_2)
  next
    case (Suc m)
    then have m: "m < n" "orderly (S m) (S (Suc m))" using assms(4) by simp_all
    note step = step_in_order [OF assms(1,2) m(1) _ m(2)]
    from Suc m step(2) have "(register_file (fw (S (m + 3))), next_address (S (Suc m))) =
        foldl isa_step (register_file (fw (S 2)), next_address (S 0)) (executed S (Suc m))"
      by (simp add: executed_def Let_def)
    with step(1) Suc m show ?case by (simp add: numeral_3_eq_3)
  qed
  then show ?thesis by simp
qed

text \<open>\<open>addi x5, x1, -3\<close> at address 0, with 10 for x1 still on its way: the run of \<open>issue_machine\<close>.\<close>

theorem pipeline_refines_isa_witness:
  "\<exists>S L. quiet_run S L 2 \<and> (\<forall>i < 2. in_domain S i) \<and> on_path (S 0) \<and>
    (\<forall>i < 2. orderly (S i) (S (Suc i))) \<and> executed S 2 = [0xFFD08293] \<and> next_address (S 0) = 0 \<and>
    next_address (S 2) = 4 \<and> register_file (fw (S 4)) = (register_file (fw (S 2)))[5 := 7]"
proof (rule issue_run)
  fix s1 l1 s2 l2 s3 l3 s4 l4
  assume c: "cycle issue_machine zero_locals = Inr (s1, l1)" "cycle s1 l1 = Inr (s2, l2)"
      "cycle s2 l2 = Inr (s3, l3)" "cycle s3 l3 = Inr (s4, l4)" and x: "issued_x (cur_x_reg s1)"
    and flags: "m_tainted_executions (cur_m_reg s1) = 0" "w_global_memory_stall (cur_w_reg s1) = 0"
    "w_global_memory_stall (cur_w_reg s2) = 0" and ff: "fetch_faulted s1 l1" "fetch_faulted s2 l2"
  let ?S = "\<lambda>i. [issue_machine, s1, s2, s3, s4] ! i" and ?L = "\<lambda>i. [zero_locals, l1, l2, l3, l4] ! i"
  have s0: "w_global_memory_stall (cur_w_reg issue_machine) = 0" "x_not_stalled (cur_x_reg issue_machine) = 0"
    "\<not> executes issue_machine"
    by (simp_all add: issue_machine_def faulted_machine_def boot_machine_def zero_w_def zero_x_def executes_def)
  have four: "i < 4 \<longleftrightarrow> i \<in> {0, 1, 2, 3}" "i \<le> Suc (Suc 0) \<longleftrightarrow> i \<in> {0, 1, 2}" for i :: nat by auto
  have run: "quiet_run ?S ?L 2"
    using c flags s0 issue_machine(1,3)
    by (auto simp: quiet_run_def four numeral_3_eq_3 numeral_2_eq_2 less_Suc_eq)
  have x': "x_not_stalled (cur_x_reg s1) \<noteq> 0" "x_rs1_value (cur_x_reg s1) = 10" "executes s1"
    "in_execute s1 = (0xFFD08293, 0)"
    using x flags by (simp_all add: issued_x_def executes_def in_execute_def)
  have "register_read_one (fw s2) 1 = 10"
    using issued_operands [OF issue_machine(1) c(1,2) refl x'(1), of 1 "- 1" 5] issue_operands x'(2)
    by (simp add: issue_machine_def)
  moreover have "register_file (fw s3) = register_file (fw s2)"
    using bubble_retires [OF issue_machine(1) c(1-3) s0(1) flags(2) s0(3)] .
  ultimately have "reg_value (register_file (fw s3)) 1 = 10" "reg_value (register_file (fw s2)) 1 = 10"
    using read_value [of "fw s2" 1] by simp_all
  note eff = addi_effect [OF this(1)] addi_effect [OF this(2)]
  have dom: "\<forall>i < 2. in_domain ?S i"
    using s0(3) x' eff(1) by (auto simp: in_domain_def numeral_3_eq_3 numeral_2_eq_2 less_Suc_eq)
  have ex: "executed ?S 2 = [0xFFD08293]"
    using s0(3) x'(3) x by (simp add: executed_def numeral_2_eq_2 issued_x_def)
  have path: "on_path issue_machine" "next_address issue_machine = 0"
    using s0(2) by (simp_all add: on_path_def next_address_def decode_point_def issue_machine_def
        faulted_machine_def boot_machine_def zero_d_def)
  have "\<not> mispredicted issue_machine" "\<not> mispredicted s1"
    using s0(3) x by (simp_all add: mispredicted_def next_pc_def issued_x_def Let_def data_u_def)
  then have ord: "\<forall>i < 2. orderly (?S i) (?S (Suc i))"
    using ff s0(2) x by (auto simp: orderly_def fetch_faulted_def issued_x_def less_2_cases_iff)
  have "isa_next (register_file (fw s2)) 0xFFD08293 0 = 4"
    by (simp add: isa_next_def Let_def addi_fields)
  with pipeline_refines_isa [OF run dom _ ord] ex path eff(4)
  have "register_file (fw (?S 4)) = (register_file (fw (?S 2)))[5 := 7]" "next_address (?S 2) = 4"
    by (simp_all add: isa_step_def)
  with run dom ex path ord show ?thesis by (intro exI [of _ ?S] exI [of _ ?L]) simp
qed

text \<open>
  Property C2: an arithmetic instruction through the pipeline. Let decode issue an instruction of
  LUI, OP-IMM, OP, OP-IMM-32 or OP-32 on operands the handlers are right for (\<open>alu_agrees\<close>: in
  particular \<open>add\<close>, \<open>xor\<close> and \<open>srl\<close> only on 32-bit operands, and no \<open>mulh\<close>, \<open>mulhsu\<close> or \<open>mulhu\<close>), and let this and the next
  three cycles complete with no flush and no stall of an older access on the way. Then the fourth
  cycle writes to the destination register the result that the instruction set assigns to the
  operand registers as the older instructions left them, and changes no other register. Register 0
  counts as zero when no other value for it is on its way.
\<close>
theorem alu_retires:
  assumes "machine_inv s" "cycle s l = Inr (s1, l1)" "cycle s1 l1 = Inr (s2, l2)"
    "cycle s2 l2 = Inr (s3, l3)" "cycle s3 l3 = Inr (s4, l4)"
    and "w = d_instruction (cur_d_reg s)" "x_not_stalled (cur_x_reg s1) \<noteq> 0" "zero_kept s"
    and "operand_registers w = (rs1, rs2, rd)"
    and "a = register_read_one (fw s2) (scast rs1)" "b = register_read_one (fw s2) (scast rs2)"
    and "alu_agrees w a b"
    and "m_tainted_executions (cur_m_reg s1) = 0" "w_global_memory_stall (cur_w_reg s1) = 0"
    and "w_global_memory_stall (cur_w_reg s2) = 0"
  shows "\<exists>v. isa_alu w a b = Some v \<and>
    register_file (fw s4) = (register_file (fw s3))[unat (r_rd (data_r w)) := v]"
proof -
  let ?x = "cur_x_reg s1"
  have inv: "machine_inv s1" using cycle_keeps(1) [OF assms(2,1)] .
  have ops: "operand_registers (d_instruction (cur_d_reg s)) = (rs1, rs2, rd)" using assms(6,9) by simp
  note issued = issued_operands [OF assms(1-3) refl assms(7) ops]
  have "rs1 \<noteq> - 1 \<longrightarrow> a = x_rs1_value ?x" "rs2 \<noteq> - 1 \<longrightarrow> b = x_rs2_value ?x"
    using issued issued_zero [OF assms(1,2,8) refl assms(7) ops] assms(10,11) regs.rd_zero by force+
  from alu_operands [OF assms(9) this] assms(12)
  have agrees: "alu_agrees w (x_rs1_value ?x) (x_rs2_value ?x)"
    and isa: "isa_alu w a b = isa_alu w (x_rs1_value ?x) (x_rs2_value ?x)" by auto
  obtain v where v: "isa_alu w (x_rs1_value ?x) (x_rs2_value ?x) = Some v"
    and disp: "\<And>c. major_dispatch_table (u_opcode (data_u w)) ?x w c = Inr (put_reg (r_dest w) v c)"
    using alu_dispatch [OF agrees] by blast
  have "w = x_instruction ?x" using issued assms(6) by simp
  from execute_retires [OF inv assms(3-5) this assms(7) alu_word [OF assms(12)] assms(13-15) disp]
  show ?thesis using v isa by simp
qed

text \<open>Four cycles later x5 is 7.\<close>

theorem alu_retires_witness:
  "\<exists>s1 l1 s2 l2 s3 l3 s4 l4. cycle issue_machine zero_locals = Inr (s1, l1) \<and> cycle s1 l1 = Inr (s2, l2) \<and>
    cycle s2 l2 = Inr (s3, l3) \<and> cycle s3 l3 = Inr (s4, l4) \<and>
    register_file (fw s4) = (register_file (fw s3))[5 := 7]"
proof (rule issue_run)
  fix s1 l1 s2 l2 s3 l3 s4 l4
  assume c: "cycle issue_machine zero_locals = Inr (s1, l1)" "cycle s1 l1 = Inr (s2, l2)"
      "cycle s2 l2 = Inr (s3, l3)" "cycle s3 l3 = Inr (s4, l4)" and x: "issued_x (cur_x_reg s1)"
    and flags: "m_tainted_executions (cur_m_reg s1) = 0" "w_global_memory_stall (cur_w_reg s1) = 0"
    "w_global_memory_stall (cur_w_reg s2) = 0"
  have d: "0xFFD08293 = d_instruction (cur_d_reg issue_machine)" by (simp add: issue_machine_def)
  from x have x': "x_not_stalled (cur_x_reg s1) \<noteq> 0" "x_rs1_value (cur_x_reg s1) = 10"
    by (simp_all add: issued_x_def)
  have a: "10 = register_read_one (fw s2) (scast (1 :: u16))"
    using issued_operands [OF issue_machine(1) c(1,2) refl x'(1)] d [symmetric] issue_operands x'(2) by auto
  define b where "b = register_read_one (fw s2) (scast (- 1 :: u16))"
  have "alu_agrees 0xFFD08293 10 b" "isa_alu 0xFFD08293 10 b = Some 7" "unat (r_rd (data_r 0xFFD08293)) = 5"
    by (simp_all add: alu_agrees_def isa_alu_def Let_def data_r_def imm_I_def no_overflow_def isa_op_imm_def)
  with alu_retires [OF issue_machine(1) c d x'(1) issue_machine(3) issue_operands a b_def _ flags] c
  show ?thesis by auto
qed

text \<open>
  A register-immediate instruction from the execute register on. Let an \<open>addi\<close>, \<open>slti\<close>,
  \<open>sltiu\<close>, \<open>xori\<close>, \<open>ori\<close>, \<open>andi\<close>, \<open>slli\<close> or \<open>srli\<close> with operands the code handles stand in the
  execute register of a machine that is neither flushing nor stalled. If the next three cycles
  complete and the access older than it has not stalled, the third cycle writes the result of the
  instruction set to its destination register and changes no other register.
\<close>
lemma op_imm_retires:
  assumes "machine_inv s" "cycle s l = Inr (s1, l1)" "cycle s1 l1 = Inr (s2, l2)"
    "cycle s2 l2 = Inr (s3, l3)"
    and "cur_x_reg s = x" "w = x_instruction x" "x_not_stalled x \<noteq> 0"
    and "w_global_memory_stall (cur_w_reg s) = 0" "m_tainted_executions (cur_m_reg s) = 0"
    and "w_global_memory_stall (cur_w_reg s1) = 0"
    and "u_opcode (data_u w) = 0b0010011" "f3 = i_funct3 (data_i w)" "f7 = r_funct7 (data_r w)"
    and "isa_op_imm f3 f7 (x_rs1_value x) (imm_I w) = Some v"
    and "f3 = 0 \<longrightarrow> no_overflow (sint (x_rs1_value x) + sint (imm_I w))"
    and "f3 = 3 \<longrightarrow> \<not> bit (imm_I w) 11" and "f3 \<in> {1, 5} \<longrightarrow> f7 = 0"
  shows "register_file (fw s3) = (register_file (fw s2))[unat (i_rd (data_i w)) := v]"
proof -
  note disp = op_imm_eq [OF assms(12-17)]
  have "w \<noteq> 0" using assms(11) by (auto simp: data_u_def)
  moreover have "major_dispatch_table (u_opcode (data_u w)) x w c = Inr (put_reg (r_dest w) v c)" for c
    using disp assms(11) by (simp add: major_dispatch_table_def dest_views)
  moreover have "i_rd (data_i w) = r_rd (data_r w)" by (simp add: data_i_def data_r_def)
  ultimately show ?thesis
    using execute_retires [OF assms(1-4), of w v] assms(5-10) by simp
qed

end
